(* ===== verification/Vercmp.thy ===== *)
theory Vercmp
  imports NS_Prelude "HOL-Library.Product_Lexorder"
begin

text \<open>
  Version comparison, \<^verbatim>\<open>src/src/vercmp.cpp\<close>: the tokenizer, the comparison of tokens and of
  what is left over, epochs, ranges and the upstream part. The lemmas show that the comparison is
  antisymmetric everywhere, a total preorder on versions whose words are coherent (and a concrete
  cycle where they are not), that it is the numeric order on dotted versions, that ranges are
  convex, and what the upstream part strips.
\<close>

section \<open>Tokens\<close>

datatype kind = Tilde | Alpha | Numeric

unbundle bit_operations_syntax

record token =
  kind :: kind
  token_text :: string
  num :: "64 word"

definition prerelease_words :: "string list" where
  "prerelease_words =
     [''rc'', ''alpha'', ''beta'', ''pre'', ''dev'', ''preview'', ''snapshot'', ''nightly'', ''a1'']"

definition is_prerelease_word :: "string \<Rightarrow> bool" where
  "is_prerelease_word s \<longleftrightarrow> s \<in> set prerelease_words"

definition numeric_value :: "string \<Rightarrow> 64 word" where
  "numeric_value digits =
     (let trimmed = dropWhile (\<lambda>c. c = CHR ''0'') digits in
      if trimmed = [] then 0
      else if 18 < length trimmed then NOT 0
      else foldl (\<lambda>v d. v * 10 + of_nat (digit_val d)) 0 trimmed)"

function tokenize :: "string \<Rightarrow> token list" where
  "tokenize [] = []"
| "tokenize (c # v) =
     (if c = CHR ''~'' then \<lparr>kind = Tilde, token_text = [], num = 0\<rparr> # tokenize v
      else if is_digit c
      then \<lparr>kind = Numeric, token_text = [], num = numeric_value (takeWhile is_digit (c # v))\<rparr> #
             tokenize (dropWhile is_digit (c # v))
      else if is_alpha c
      then \<lparr>kind = Alpha, token_text = map tolower (takeWhile is_alpha (c # v)), num = 0\<rparr> #
             tokenize (dropWhile is_alpha (c # v))
      else tokenize v)"
  by pat_completeness auto
termination
  by (relation "measure length") (auto simp: le_imp_less_Suc length_dropWhile_le)

section \<open>Comparison\<close>

fun rank :: "kind \<Rightarrow> nat" where
  "rank Tilde = 0"
| "rank Alpha = 1"
| "rank Numeric = 2"

definition cmp_token :: "token \<Rightarrow> token \<Rightarrow> int" where
  "cmp_token a b =
     (if kind a \<noteq> kind b then if rank (kind a) < rank (kind b) then -1 else 1
      else case kind a of
        Tilde \<Rightarrow> 0
      | Alpha \<Rightarrow> if token_text a = token_text b then 0 else if token_text a < token_text b then -1 else 1
      | Numeric \<Rightarrow> if num a = num b then 0 else if num a < num b then -1 else 1)"

definition cmp_remainder :: "token list \<Rightarrow> nat \<Rightarrow> int" where
  "cmp_remainder rest from =
     (if length rest \<le> from then 0
      else let next = rest ! from in
        if kind next = Tilde then -1
        else if kind next = Alpha \<and> is_prerelease_word (token_text next) then -1
        else 1)"

definition strip_epoch :: "string \<Rightarrow> 64 word \<times> string" where
  "strip_epoch v =
     (case find_char (CHR '':'') v of
        None \<Rightarrow> (0, v)
      | Some colon \<Rightarrow>
          if \<not> list_all is_digit (take colon v) then (0, v)
          else (foldl (\<lambda>e d. e * 10 + of_nat (digit_val d)) 0 (take colon v), drop (colon + 1) v))"

text \<open>The loop over the common length: the first comparison that is not 0, or 0.\<close>

fun cmp_common :: "token list \<Rightarrow> token list \<Rightarrow> int" where
  "cmp_common (x # xs) (y # ys) = (if cmp_token x y \<noteq> 0 then cmp_token x y else cmp_common xs ys)"
| "cmp_common _ _ = 0"

definition cmp_tokens :: "token list \<Rightarrow> token list \<Rightarrow> int" where
  "cmp_tokens ta tb =
     (let n = min (length ta) (length tb) in
      if cmp_common ta tb \<noteq> 0 then cmp_common ta tb
      else if n < length ta then cmp_remainder ta n
      else if n < length tb then - cmp_remainder tb n
      else 0)"

definition version_compare :: "string \<Rightarrow> string \<Rightarrow> int" where
  "version_compare a b =
     (let (epoch_a, a) = strip_epoch a;
          (epoch_b, b) = strip_epoch b
      in if epoch_a \<noteq> epoch_b then if epoch_a < epoch_b then -1 else 1
         else cmp_tokens (tokenize a) (tokenize b))"

definition version_in_range :: "string \<Rightarrow> string \<Rightarrow> string \<Rightarrow> string \<Rightarrow> string \<Rightarrow> bool" where
  "version_in_range v start_including start_excluding end_including end_excluding =
     (if start_including \<noteq> [] \<and> version_compare v start_including < 0 then False
      else if start_excluding \<noteq> [] \<and> version_compare v start_excluding \<le> 0 then False
      else if end_including \<noteq> [] \<and> version_compare v end_including > 0 then False
      else if end_excluding \<noteq> [] \<and> version_compare v end_excluding \<ge> 0 then False
      else True)"

definition version_upstream_part :: "string \<Rightarrow> string" where
  "version_upstream_part v =
     (let v = snd (strip_epoch v);
          v = (case rfind_char (CHR ''-'') v of None \<Rightarrow> v | Some dash \<Rightarrow> take dash v);
          v = (case find_char (CHR ''+'') v of None \<Rightarrow> v | Some pl \<Rightarrow> take pl v)
      in v)"

lemma version_in_range_iff:
  "version_in_range v si se ei ee \<longleftrightarrow>
     (si \<noteq> [] \<longrightarrow> 0 \<le> version_compare v si) \<and> (se \<noteq> [] \<longrightarrow> 0 < version_compare v se) \<and>
     (ei \<noteq> [] \<longrightarrow> version_compare v ei \<le> 0) \<and> (ee \<noteq> [] \<longrightarrow> version_compare v ee < 0)"
  unfolding version_in_range_def by (simp add: not_less not_le)

section \<open>The order on tokens and ends\<close>

text \<open>
  Comparing token lists is lexicographic once the end of a list counts as an element of its own:
  \<open>None\<close> stands for it, above a tilde and a pre-release word, below everything else.
\<close>

definition cmp_opt :: "token option \<Rightarrow> token option \<Rightarrow> int" where
  "cmp_opt x y =
     (case (x, y) of
        (None, None) \<Rightarrow> 0
      | (Some a, Some b) \<Rightarrow> cmp_token a b
      | (Some a, None) \<Rightarrow> cmp_remainder [a] 0
      | (None, Some b) \<Rightarrow> - cmp_remainder [b] 0)"

abbreviation hd_opt :: "'a list \<Rightarrow> 'a option" where
  "hd_opt xs \<equiv> (case xs of [] \<Rightarrow> None | x # _ \<Rightarrow> Some x)"

lemma cmp_token_antisym: "cmp_token b a = - cmp_token a b"
  by (cases "kind a"; cases "kind b") (auto simp: cmp_token_def)

lemma cmp_remainder_nonzero: "cmp_remainder (x # xs) 0 \<noteq> 0"
  by (simp add: cmp_remainder_def Let_def)

lemma cmp_tokens_simps:
  "cmp_tokens [] [] = 0"
  "cmp_tokens (x # xs) [] = cmp_opt (Some x) None"
  "cmp_tokens [] (y # ys) = cmp_opt None (Some y)"
  "cmp_tokens (x # xs) (y # ys) =
     (if cmp_token x y \<noteq> 0 then cmp_token x y else cmp_tokens xs ys)"
  by (simp_all add: cmp_tokens_def cmp_opt_def cmp_remainder_def Let_def min_def)

lemma cmp_opt_antisym: "cmp_opt y x = - cmp_opt x y"
  by (cases x; cases y) (auto simp: cmp_opt_def intro: cmp_token_antisym)

lemma cmp_tokens_antisym: "cmp_tokens tb ta = - cmp_tokens ta tb"
proof (induction ta arbitrary: tb)
  case Nil
  show ?case by (cases tb) (simp_all add: cmp_tokens_simps cmp_opt_antisym [of None])
next
  case (Cons x xs)
  show ?case
    using Cons.IH cmp_token_antisym [of _ x]
    by (cases tb) (simp_all add: cmp_tokens_simps cmp_opt_antisym [of None])
qed

section \<open>Coherent words\<close>

definition token_words :: "token list \<Rightarrow> string set" where
  "token_words ts = {token_text t | t. t \<in> set ts \<and> kind t = Alpha}"

lemma token_words_simps [simp]:
  "token_words [] = {}"
  "token_words (t # ts) = (if kind t = Alpha then insert (token_text t) (token_words ts) else token_words ts)"
  by (auto simp: token_words_def)

definition coherent :: "string set \<Rightarrow> bool" where
  "coherent W \<longleftrightarrow>
     (\<forall>p \<in> W. \<forall>q \<in> W. is_prerelease_word p \<and> \<not> is_prerelease_word q \<longrightarrow> p < q)"

definition opt_words :: "token option \<Rightarrow> string set" where
  "opt_words x = (case x of None \<Rightarrow> {} | Some t \<Rightarrow> if kind t = Alpha then {token_text t} else {})"

text \<open>
  Coherent words embed into a linear order: the end of the list sits between the pre-release
  words and the others.
\<close>

definition key :: "token option \<Rightarrow> nat \<times> string \<times> 64 word" where
  "key x =
     (case x of
        None \<Rightarrow> (2, [], 0)
      | Some t \<Rightarrow>
          (case kind t of
             Tilde \<Rightarrow> (0, [], 0)
           | Alpha \<Rightarrow> if is_prerelease_word (token_text t) then (1, token_text t, 0) else (3, token_text t, 0)
           | Numeric \<Rightarrow> (4, [], num t)))"

lemma cmp_opt_key:
  assumes W: "coherent W" and x: "opt_words x \<subseteq> W" and y: "opt_words y \<subseteq> W"
  shows "cmp_opt x y \<le> 0 \<longleftrightarrow> key x \<le> key y"
proof (cases x)
  case None
  then show ?thesis
    by (cases y) (auto simp: cmp_opt_def key_def less_eq_prod_def cmp_remainder_def split: kind.splits)
next
  case (Some a)
  note a = Some
  show ?thesis
  proof (cases y)
    case None
    then show ?thesis
      using Some by (auto simp: cmp_opt_def key_def less_eq_prod_def cmp_remainder_def split: kind.splits)
  next
    case (Some b)
    show ?thesis
    proof (cases "kind a = Alpha \<and> kind b = Alpha")
      case False
      then show ?thesis
        using a Some by (cases "kind a"; cases "kind b") (auto simp: cmp_opt_def key_def less_eq_prod_def cmp_token_def)
    next
      case True
      then have "token_text a \<in> W" "token_text b \<in> W" using a Some x y by (auto simp: opt_words_def)
      then have "is_prerelease_word (token_text a) \<Longrightarrow> \<not> is_prerelease_word (token_text b) \<Longrightarrow> token_text a < token_text b"
        "is_prerelease_word (token_text b) \<Longrightarrow> \<not> is_prerelease_word (token_text a) \<Longrightarrow> token_text b < token_text a"
        using W by (auto simp: coherent_def)
      then show ?thesis
        using a Some True by (auto simp: cmp_opt_def key_def less_eq_prod_def cmp_token_def)
    qed
  qed
qed

lemma cmp_opt_trans:
  assumes "coherent W" "opt_words x \<subseteq> W" "opt_words y \<subseteq> W" "opt_words z \<subseteq> W"
    and "cmp_opt x y \<le> 0" "cmp_opt y z \<le> 0"
  shows "cmp_opt x z \<le> 0"
proof -
  have "key x \<le> key y" "key y \<le> key z"
    using assms cmp_opt_key [OF assms(1)] by blast+
  then show ?thesis using order_trans cmp_opt_key [OF assms(1,2,4)] by blast
qed

lemma cmp_tokens_le_iff:
  "cmp_tokens ta tb \<le> 0 \<longleftrightarrow>
     cmp_opt (hd_opt ta) (hd_opt tb) < 0 \<or>
     cmp_opt (hd_opt ta) (hd_opt tb) = 0 \<and> (ta = [] \<or> cmp_tokens (tl ta) (tl tb) \<le> 0)"
  by (cases ta; cases tb)
     (auto simp: cmp_tokens_simps cmp_opt_def cmp_remainder_def)

lemma cmp_opt_eq_None: "cmp_opt None y = 0 \<longleftrightarrow> y = None" "cmp_opt x None = 0 \<longleftrightarrow> x = None"
  by (cases y; simp add: cmp_opt_def cmp_remainder_nonzero)
     (cases x; simp add: cmp_opt_def cmp_remainder_nonzero)

lemma token_words_Cons: "opt_words (hd_opt ts) \<subseteq> token_words ts" "token_words (tl ts) \<subseteq> token_words ts"
  by (cases ts; auto simp: opt_words_def token_words_def)+

lemma cmp_tokens_trans:
  assumes W: "coherent W"
  shows "token_words ta \<subseteq> W \<Longrightarrow> token_words tb \<subseteq> W \<Longrightarrow> token_words tc \<subseteq> W \<Longrightarrow>
    cmp_tokens ta tb \<le> 0 \<Longrightarrow> cmp_tokens tb tc \<le> 0 \<Longrightarrow> cmp_tokens ta tc \<le> 0"
proof (induction ta arbitrary: tb tc rule: length_induct)
  case (1 ta)
  let ?x = "hd_opt ta" and ?y = "hd_opt tb" and ?z = "hd_opt tc"
  have w: "opt_words ?x \<subseteq> W" "opt_words ?y \<subseteq> W" "opt_words ?z \<subseteq> W"
    "token_words (tl ta) \<subseteq> W" "token_words (tl tb) \<subseteq> W" "token_words (tl tc) \<subseteq> W"
    using 1(2-4) token_words_Cons by blast+
  have xy: "cmp_opt ?x ?y \<le> 0" and yz: "cmp_opt ?y ?z \<le> 0"
    using 1(5,6) unfolding cmp_tokens_le_iff [of ta tb] cmp_tokens_le_iff [of tb tc] by auto
  have xz: "cmp_opt ?x ?z \<le> 0" by (rule cmp_opt_trans [OF W w(1-3) xy yz])
  show ?case
  proof (cases "cmp_opt ?x ?z = 0 \<and> ta \<noteq> []")
    case False
    then show ?thesis using xz unfolding cmp_tokens_le_iff [of ta tc] by auto
  next
    case True
    then have zx: "cmp_opt ?z ?x \<le> 0" by (simp add: cmp_opt_antisym [of ?z])
    have "cmp_opt ?x ?y = 0" "cmp_opt ?y ?z = 0"
      using cmp_opt_trans [OF W w(2,3,1) yz zx] cmp_opt_trans [OF W w(3,1,2) zx xy] xy yz
      by (simp_all add: cmp_opt_antisym [of ?y ?x] cmp_opt_antisym [of ?z ?y])
    moreover from this True have "tb \<noteq> []"
      by (cases ta; cases tb) (auto simp: cmp_opt_eq_None)
    ultimately have "cmp_tokens (tl ta) (tl tb) \<le> 0" "cmp_tokens (tl tb) (tl tc) \<le> 0"
      using 1(5,6) True unfolding cmp_tokens_le_iff [of ta tb] cmp_tokens_le_iff [of tb tc] by auto
    moreover have "length (tl ta) < length ta" using True by simp
    ultimately have "cmp_tokens (tl ta) (tl tc) \<le> 0" using 1(1) w(4-6) by blast
    then show ?thesis using True unfolding cmp_tokens_le_iff [of ta tc] by simp
  qed
qed

definition version_words :: "string \<Rightarrow> string set" where
  "version_words v = token_words (tokenize (snd (strip_epoch v)))"

lemma version_compare_trans:
  assumes W: "coherent (version_words a \<union> version_words b \<union> version_words c)"
    and ab: "version_compare a b \<le> 0" and bc: "version_compare b c \<le> 0"
  shows "version_compare a c \<le> 0"
proof -
  obtain ea va where a: "strip_epoch a = (ea, va)" by force
  obtain eb vb where b: "strip_epoch b = (eb, vb)" by force
  obtain ec vc where c: "strip_epoch c = (ec, vc)" by force
  have "cmp_tokens (tokenize va) (tokenize vc) \<le> 0"
    if "cmp_tokens (tokenize va) (tokenize vb) \<le> 0" "cmp_tokens (tokenize vb) (tokenize vc) \<le> 0"
    using cmp_tokens_trans [OF W, of "tokenize va" "tokenize vb" "tokenize vc"] that
    by (auto simp: version_words_def a b c)
  then show ?thesis
    using ab bc by (auto simp: version_compare_def a b c split: if_splits)
qed

lemma version_compare_antisym: "version_compare b a = - version_compare a b"
  by (auto simp: version_compare_def split_beta Let_def intro: cmp_tokens_antisym)

section \<open>Dotted versions\<close>

definition dotted :: "nat list \<Rightarrow> string" where
  "dotted ns = concat (map (\<lambda>n. show_nat n @ ''.'') (butlast ns)) @ show_nat (last ns)"

abbreviation numeric :: "nat \<Rightarrow> token" where
  "numeric n \<equiv> \<lparr>kind = Numeric, token_text = [], num = of_nat n\<rparr>"

lemma dotted_Cons: "dotted [n] = show_nat n" "ns \<noteq> [] \<Longrightarrow> dotted (n # ns) = show_nat n @ ''.'' @ dotted ns"
  by (simp_all add: dotted_def)

lemma foldl_word_dec:
  "foldl (\<lambda>v d. v * 10 + of_nat (digit_val d)) (of_nat k :: 64 word) s =
     of_nat (foldl (\<lambda>v d. v * 10 + digit_val d) k s)"
proof (induction s arbitrary: k)
  case (Cons d s)
  have "(of_nat k :: 64 word) * 10 + of_nat (digit_val d) = of_nat (k * 10 + digit_val d)" by simp
  then show ?case using Cons.IH [of "k * 10 + digit_val d"] by (simp del: of_nat_add of_nat_mult)
qed simp

lemma foldl_word_dec_val:
  "foldl (\<lambda>v d. v * 10 + of_nat (digit_val d)) (0 :: 64 word) s = of_nat (dec_val s)"
  using foldl_word_dec [of 0 s] by (simp add: dec_val_def)

lemma digit_char_0: "digit_char 0 = CHR ''0''"
  by code_simp

lemma show_nat_no_leading_zero: "0 < n \<Longrightarrow> hd (show_nat n) \<noteq> CHR ''0''"
proof (induction n rule: show_nat.induct)
  case (1 n)
  show ?case
  proof (cases "n < 10")
    case True
    have "digit_char n \<noteq> digit_char 0"
      using True "1.prems" by (metis digit_val_digit_char zero_less_numeral less_numeral_extra(3))
    then show ?thesis using True by (simp add: show_nat.simps [of n] digit_char_0)
  next
    case False
    with 1 show ?thesis by (simp add: show_nat.simps [of n])
  qed
qed

lemma numeric_value_show_nat:
  assumes "n < 10 ^ 18"
  shows "numeric_value (show_nat n) = of_nat n"
proof (cases "n = 0")
  case True
  moreover have "show_nat 0 = ''0''" by (simp add: show_nat.simps [of 0] digit_char_0)
  ultimately show ?thesis by (simp add: numeric_value_def)
next
  case False
  then have "dropWhile (\<lambda>c. c = CHR ''0'') (show_nat n) = show_nat n"
    using show_nat_no_leading_zero [of n] by (cases "show_nat n") auto
  moreover have "length (show_nat n) \<le> 18" using length_show_nat [OF assms] by simp
  ultimately show ?thesis
    by (simp add: numeric_value_def Let_def foldl_word_dec_val)
qed

lemma tokenize_number:
  assumes "n < 10 ^ 18" "t = [] \<or> \<not> is_digit (hd t)"
  shows "tokenize (show_nat n @ t) = numeric n # tokenize t"
proof -
  obtain d ds where sn: "show_nat n = d # ds" "is_digit d"
    using show_nat_digits [of n] by (cases "show_nat n") auto
  have digits: "\<forall>c \<in> set (show_nat n). is_digit c" using show_nat_digitD by blast
  then have tw: "takeWhile is_digit (show_nat n @ t) = show_nat n" "dropWhile is_digit (show_nat n @ t) = t"
    using assms(2) by (cases t; auto)+
  have "d \<noteq> CHR ''~''" using sn(2) by (auto simp: is_digit_def)
  then have "tokenize (show_nat n @ t) =
      \<lparr>kind = Numeric, token_text = [], num = numeric_value (takeWhile is_digit (show_nat n @ t))\<rparr> #
      tokenize (dropWhile is_digit (show_nat n @ t))"
    using sn by simp
  then show ?thesis using tw numeric_value_show_nat [OF assms(1)] by simp
qed

lemma tokenize_dotted:
  assumes "ns \<noteq> []" "list_all (\<lambda>n. n < 10 ^ 18) ns"
  shows "tokenize (dotted ns) = map numeric ns"
  using assms
proof (induction ns)
  case (Cons n ns)
  show ?case
  proof (cases "ns = []")
    case True
    then show ?thesis using Cons.prems tokenize_number [of n "[]"] by (simp add: dotted_Cons)
  next
    case False
    have "tokenize (CHR ''.'' # dotted ns) = tokenize (dotted ns)" by (simp add: is_digit_def is_alpha_def)
    then show ?thesis
      using False Cons tokenize_number [of n "''.'' @ dotted ns"] by (simp add: dotted_Cons is_digit_def)
  qed
qed simp

lemma dotted_chars: "ns \<noteq> [] \<Longrightarrow> c \<in> set (dotted ns) \<Longrightarrow> is_digit c \<or> c = CHR ''.''"
  by (auto simp: dotted_def dest: show_nat_digitD split: if_splits)

lemma strip_epoch_plain: "CHR '':'' \<notin> set v \<Longrightarrow> strip_epoch v = (0, v)"
  by (simp add: strip_epoch_def)

lemma strip_epoch_dotted: "ns \<noteq> [] \<Longrightarrow> strip_epoch (dotted ns) = (0, dotted ns)"
  by (rule strip_epoch_plain) (auto dest: dotted_chars simp: is_digit_def)

lemma cmp_token_numeric:
  assumes "m < 10 ^ 18" "n < 10 ^ 18"
  shows "cmp_token (numeric m) (numeric n) = (if m = n then 0 else if m < n then -1 else 1)"
proof -
  have u: "unat (of_nat m :: 64 word) = m" "unat (of_nat n :: 64 word) = n"
    using assms by (simp_all add: unat_of_nat)
  then have "(of_nat m = (of_nat n :: 64 word)) = (m = n)" by metis
  then show ?thesis unfolding cmp_token_def by (simp add: word_less_nat_alt u)
qed

lemma cmp_tokens_numeric:
  assumes "list_all (\<lambda>n. n < 10 ^ 18) ms" "list_all (\<lambda>n. n < 10 ^ 18) ns"
  shows "cmp_tokens (map numeric ms) (map numeric ns) = (if ms = ns then 0 else if ms < ns then -1 else 1)"
  using assms
proof (induction ms arbitrary: ns)
  case Nil
  then show ?case by (cases ns) (simp_all add: cmp_tokens_simps cmp_opt_def cmp_remainder_def)
next
  case (Cons m ms)
  show ?case
    using Cons.IH [of "tl ns"] Cons.prems
    by (cases ns) (auto simp: cmp_tokens_simps cmp_opt_def cmp_remainder_def cmp_token_numeric)
qed

section \<open>Words\<close>

text \<open>
  A word token is a non-empty run of lower-case letters; in particular the entry \<open>a1\<close> of the
  table of pre-release words never matches one.
\<close>

lemma tolower_alpha:
  assumes "is_alpha c"
  shows "97 \<le> byte (tolower c) \<and> byte (tolower c) \<le> 122"
proof (cases "65 \<le> byte c \<and> byte c \<le> 90")
  case True
  then have "byte c + 32 < 256" by simp
  with True show ?thesis by (simp add: tolower_def)
qed (use assms in \<open>auto simp: is_alpha_def tolower_def\<close>)

lemma tokenize_words:
  "w \<in> token_words (tokenize v) \<Longrightarrow> w \<noteq> [] \<and> (\<forall>c \<in> set w. 97 \<le> byte c \<and> byte c \<le> 122)"
proof (induction v rule: tokenize.induct)
  case (2 c v)
  show ?case
  proof (cases "is_alpha c \<and> \<not> is_digit c \<and> c \<noteq> CHR ''~''")
    case True
    then have "w = map tolower (takeWhile is_alpha (c # v)) \<or> w \<in> token_words (tokenize (dropWhile is_alpha (c # v)))"
      using "2.prems" by auto
    moreover have "\<forall>x \<in> set (takeWhile is_alpha (c # v)). 97 \<le> byte (tolower x) \<and> byte (tolower x) \<le> 122"
      by (intro ballI tolower_alpha) (drule set_takeWhileD, simp)
    ultimately show ?thesis using True 2 by auto
  next
    case False
    then show ?thesis
      using 2 by (auto split: if_splits)
  qed
qed simp

lemma a1_never_a_word: "''a1'' \<notin> token_words (tokenize v)"
  using tokenize_words [of "''a1''" v] by auto

section \<open>The upstream part\<close>

lemma upstream_part:
  assumes "list_all is_digit e" "CHR ''+'' \<notin> set u" "CHR ''-'' \<notin> set r"
  shows "version_upstream_part (e @ '':'' @ u @ ''-'' @ r) = u"
    "version_upstream_part (e @ '':'' @ u @ ''+'' @ t @ ''-'' @ r) = u"
proof -
  have "CHR '':'' \<notin> set e" using assms(1) by (auto simp: list_all_iff is_digit_def)
  then have ep: "snd (strip_epoch (e @ '':'' @ x)) = x" for x
    using assms(1) find_char_append_absent [of "CHR '':''" e x] by (simp add: strip_epoch_def)
  show "version_upstream_part (e @ '':'' @ u @ ''-'' @ r) = u"
    using rfind_char_append_absent [OF assms(3), of u] assms(2)
    unfolding version_upstream_part_def ep by (simp add: Let_def)
  show "version_upstream_part (e @ '':'' @ u @ ''+'' @ t @ ''-'' @ r) = u"
    using rfind_char_append_absent [OF assms(3), of "u @ ''+'' @ t"]
      find_char_append_absent [OF assms(2), of t]
    unfolding version_upstream_part_def ep by (simp add: Let_def)
qed

section \<open>The properties\<close>

text \<open>
  C10: Comparing is antisymmetric and reflexive on all strings, and its result is always -1, 0
  or 1.
\<close>

theorem version_compare_antisymmetric:
  "version_compare b a = - version_compare a b \<and> version_compare a a = 0 \<and>
   version_compare a b \<in> {-1, 0, 1}"
proof (intro conjI)
  show "version_compare b a = - version_compare a b" by (rule version_compare_antisym)
  show "version_compare a a = 0" using version_compare_antisym [of a a] by simp
  have "cmp_common ta tb \<in> {-1, 0, 1}" for ta tb
    by (induction ta tb rule: cmp_common.induct) (auto simp: cmp_token_def split: kind.splits)
  then show "version_compare a b \<in> {-1, 0, 1}"
    by (auto simp: version_compare_def cmp_tokens_def cmp_remainder_def Let_def split: prod.splits)
qed

text \<open>
  C23: The comparison is transitive on versions whose words are coherent, that is, every
  pre-release word among them is alphabetically before every other word. There it is a total
  preorder, and sorting and range tests are meaningful.
\<close>

theorem version_compare_transitive:
  assumes "coherent (version_words a \<union> version_words b \<union> version_words c)"
    and "version_compare a b \<le> 0" and "version_compare b c \<le> 0"
  shows "version_compare a c \<le> 0"
  using version_compare_trans [OF assms] .

lemma coherent_mono: "coherent W \<Longrightarrow> V \<subseteq> W \<Longrightarrow> coherent V"
  by (auto simp: coherent_def)

lemma coherent_no_prerelease: "\<forall>w \<in> W. \<not> is_prerelease_word w \<Longrightarrow> coherent W"
  by (simp add: coherent_def)

theorem version_compare_transitive_witness: "version_compare ''1.0.2'' ''1.1.1w'' \<le> 0"
proof (rule version_compare_transitive [where b = "''1.0.2k''"])
  have "version_words ''1.0.2'' = {}" "version_words ''1.0.2k'' = {''k''}" "version_words ''1.1.1w'' = {''w''}"
    by (simp_all add: version_words_def strip_epoch_def is_digit_def is_alpha_def tolower_def)
  then show "coherent (version_words ''1.0.2'' \<union> version_words ''1.0.2k'' \<union> version_words ''1.1.1w'')"
    by (intro coherent_no_prerelease) (auto simp: is_prerelease_word_def prerelease_words_def)
  show "version_compare ''1.0.2'' ''1.0.2k'' \<le> 0" "version_compare ''1.0.2k'' ''1.1.1w'' \<le> 0"
    by code_simp+
qed


text \<open>
  C24: On dotted versions with components below \<open>10^18\<close> the comparison is the lexicographic
  order of the lists of numbers (so 1.9 is before 1.10, and a prefix is before its extensions).
\<close>

theorem version_compare_dotted:
  assumes "ms \<noteq> []" and "ns \<noteq> []"
    and "list_all (\<lambda>n. n < 10 ^ 18) ms" and "list_all (\<lambda>n. n < 10 ^ 18) ns"
  shows "version_compare (dotted ms) (dotted ns) = (if ms = ns then 0 else if ms < ns then -1 else 1)"
  using assms
  by (simp add: version_compare_def strip_epoch_dotted tokenize_dotted cmp_tokens_numeric)

theorem version_compare_dotted_witness: "version_compare (dotted [1, 9]) (dotted [1, 10]) = -1"
  using version_compare_dotted [of "[1, 9]" "[1, 10]"] by simp

text \<open>
  Ranges are convex: a version between two versions of a range is in the range, whichever
  of the four bounds are present, as long as the words involved are coherent.
\<close>

theorem version_in_range_convex:
  assumes "coherent (\<Union> (version_words ` {l, v, h, si, se, ei, ee}))"
    and "version_in_range l si se ei ee" and "version_in_range h si se ei ee"
    and "version_compare l v \<le> 0" and "version_compare v h \<le> 0"
  shows "version_in_range v si se ei ee"
proof -
  have tr: "version_compare x z \<le> 0"
    if "version_compare x y \<le> 0" "version_compare y z \<le> 0" "{x, y, z} \<subseteq> {l, v, h, si, se, ei, ee}" for x y z
    using that by (intro version_compare_trans [of x y z] coherent_mono [OF assms(1)]) auto
  note anti = version_compare_antisym
  have l: "si \<noteq> [] \<longrightarrow> version_compare si l \<le> 0" "se \<noteq> [] \<longrightarrow> \<not> version_compare l se \<le> 0"
    using assms(2) anti [of si l] unfolding version_in_range_iff by linarith+
  have h: "ei \<noteq> [] \<longrightarrow> version_compare h ei \<le> 0" "ee \<noteq> [] \<longrightarrow> \<not> version_compare ee h \<le> 0"
    using assms(3) anti [of ee h] unfolding version_in_range_iff by linarith+
  have "si \<noteq> [] \<longrightarrow> version_compare si v \<le> 0" "se \<noteq> [] \<longrightarrow> \<not> version_compare v se \<le> 0"
    using tr [of si l v] tr [of l v se] l assms(4) by auto
  moreover have "ei \<noteq> [] \<longrightarrow> version_compare v ei \<le> 0" "ee \<noteq> [] \<longrightarrow> \<not> version_compare ee v \<le> 0"
    using tr [of v h ei] tr [of ee v h] h assms(5) by auto
  ultimately show ?thesis
    unfolding version_in_range_iff using anti [of v si] anti [of v ee] by linarith
qed

theorem version_in_range_convex_witness:
  "version_in_range ''1.5'' ''1.0'' [] [] ''2.0''"
proof (rule version_in_range_convex [of "''1.0''" "''1.5''" "''1.9''"])
  have "version_words v = {}" if "v \<in> {''1.0'', ''1.5'', ''1.9'', ''2.0'', []}" for v
    using that by (auto simp: version_words_def strip_epoch_def is_digit_def is_alpha_def)
  then have "\<Union> (version_words ` {''1.0'', ''1.5'', ''1.9'', ''1.0'', [], [], ''2.0''}) = {}" by simp
  then show "coherent (\<Union> (version_words ` {''1.0'', ''1.5'', ''1.9'', ''1.0'', [], [], ''2.0''}))"
    by (simp only: coherent_def) simp
qed (code_simp)+

text \<open>
  The upstream part drops the epoch, everything from the last dash on, and everything from
  the first plus sign on, and keeps the rest as it is, dashes of the upstream version included.
\<close>

theorem version_upstream_part_strips:
  assumes "list_all is_digit e" and "CHR ''+'' \<notin> set u" and "CHR ''-'' \<notin> set r"
  shows "version_upstream_part (e @ '':'' @ u @ ''-'' @ r) = u \<and>
     version_upstream_part (e @ '':'' @ u @ ''+'' @ t @ ''-'' @ r) = u"
  using upstream_part [OF assms] by blast

theorem version_upstream_part_strips_witness:
  "version_upstream_part ''1:1.2-beta-3-2ubuntu1'' = ''1.2-beta-3''"
  using version_upstream_part_strips [of "''1''" "''1.2-beta-3''" "''2ubuntu1''"]
  by (simp add: is_digit_def)

end
