(* ===== verification/CDouble.thy ===== *)
theory CDouble
  imports Complex_Main "HOL-Library.Log_Nat" NS_Prelude
begin

text \<open>
  What the sources use of the C type \<^verbatim>\<open>double\<close>: binary64 values with infinities, NaN and the
  sign of zero, \<^verbatim>\<open>std::strtod\<close> with correct rounding, the comparisons, and the conversion
  \<^verbatim>\<open>"%.1f"\<close> of \<^verbatim>\<open>snprintf\<close>. A finite value is its exact rational magnitude with a sign. The
  lemmas bound the rounding error and show that a number written with one decimal place prints
  as it was written.
\<close>

section \<open>Values\<close>

datatype cdouble = NaN | Inf bool | Fin bool rat

definition fin_val :: "bool \<Rightarrow> rat \<Rightarrow> rat" where
  "fin_val neg r = (if neg then - r else r)"

text \<open>\<open>a < b\<close> of the language: false when either side is NaN.\<close>

fun dless :: "cdouble \<Rightarrow> cdouble \<Rightarrow> bool" where
  "dless NaN _ = False"
| "dless _ NaN = False"
| "dless (Inf m) (Inf n) = (m \<and> \<not> n)"
| "dless (Inf m) (Fin _ _) = m"
| "dless (Fin _ _) (Inf n) = (\<not> n)"
| "dless (Fin m a) (Fin n b) = (fin_val m a < fin_val n b)"

fun deq :: "cdouble \<Rightarrow> cdouble \<Rightarrow> bool" where
  "deq (Inf m) (Inf n) = (m = n)"
| "deq (Fin m a) (Fin n b) = (fin_val m a = fin_val n b)"
| "deq _ _ = False"

definition dle :: "cdouble \<Rightarrow> cdouble \<Rightarrow> bool" where
  "dle a b \<longleftrightarrow> dless a b \<or> deq a b"

section \<open>Rounding\<close>

definition round_half_even :: "rat \<Rightarrow> int" where
  "round_half_even r =
     (let f = \<lfloor>r\<rfloor>; d = r - of_int f in
      if d < 1 / 2 then f else if 1 / 2 < d then f + 1 else if even f then f else f + 1)"

text \<open>The exponent of the leading binary digit of a positive rational.\<close>

definition flog2 :: "rat \<Rightarrow> int" where
  "flog2 r =
     (let (n, d) = quotient_of r; k = bitlen n - bitlen d in if r < 2 powi k then k - 1 else k)"

definition round64 :: "bool \<Rightarrow> rat \<Rightarrow> cdouble" where
  "round64 neg r =
     (if r = 0 then Fin neg 0
      else let e = max (-1074) (flog2 r - 52);
               v = of_int (round_half_even (r / 2 powi e)) * 2 powi e
           in if 2 ^ 1024 \<le> v then Inf neg else Fin neg v)"

section \<open>Reading\<close>

definition hex_val :: "char \<Rightarrow> nat option" where
  "hex_val c =
     (if is_digit c then Some (byte c - 48)
      else if 97 \<le> byte c \<and> byte c \<le> 102 then Some (byte c - 87)
      else if 65 \<le> byte c \<and> byte c \<le> 70 then Some (byte c - 55)
      else None)"

definition is_hex :: "char \<Rightarrow> bool" where
  "is_hex c \<longleftrightarrow> hex_val c \<noteq> None"

definition based_val :: "nat \<Rightarrow> string \<Rightarrow> nat" where
  "based_val b s = foldl (\<lambda>v c. v * b + the (hex_val c)) 0 s"

text \<open>
  Digits with an optional point: the digits before and after it, and the rest. At least one
  digit is needed; the point alone is not consumed.
\<close>

definition scan_digits :: "(char \<Rightarrow> bool) \<Rightarrow> string \<Rightarrow> (string \<times> string \<times> string) option" where
  "scan_digits P s =
     (let i = takeWhile P s; r = dropWhile P s;
          (f, t) = (case r of c # r' \<Rightarrow> if c = CHR ''.'' then (takeWhile P r', dropWhile P r') else ([], r) | [] \<Rightarrow> ([], []))
      in if i = [] \<and> f = [] then None else Some (i, f, t))"

text \<open>An exponent part introduced by \<open>e\<close> (or \<open>p\<close>): a sign and digits, or nothing at all.\<close>

definition scan_exponent :: "char \<Rightarrow> string \<Rightarrow> int" where
  "scan_exponent e s =
     (case s of
        [] \<Rightarrow> 0
      | c # r \<Rightarrow>
          if tolower c \<noteq> e then 0
          else let (neg, u) = split_sign r; n = int (dec_val (takeWhile is_digit u))
               in if neg then - n else n)"

definition dec_rat :: "string \<Rightarrow> string \<Rightarrow> int \<Rightarrow> rat" where
  "dec_rat i f x = of_nat (based_val 10 (i @ f)) * 10 powi (x - int (length f))"

definition hex_rat :: "string \<Rightarrow> string \<Rightarrow> int \<Rightarrow> rat" where
  "hex_rat i f x = of_nat (based_val 16 (i @ f)) * 2 powi (x - 4 * int (length f))"

definition starts_with_ci :: "string \<Rightarrow> string \<Rightarrow> bool" where
  "starts_with_ci p s \<longleftrightarrow> map tolower (take (length p) s) = p"

definition strtod :: "string \<Rightarrow> cdouble" where
  "strtod s =
     (let (neg, u) = split_sign (dropWhile is_space s) in
      if starts_with_ci ''inf'' u then Inf neg
      else if starts_with_ci ''nan'' u then NaN
      else case (if starts_with_ci ''0x'' u then scan_digits is_hex (drop 2 u) else None) of
        Some (i, f, t) \<Rightarrow> round64 neg (hex_rat i f (scan_exponent (CHR ''p'') t))
      | None \<Rightarrow>
          (case scan_digits is_digit u of
             Some (i, f, t) \<Rightarrow> round64 neg (dec_rat i f (scan_exponent (CHR ''e'') t))
           | None \<Rightarrow> Fin False 0))"

section \<open>Printing\<close>

text \<open>\<^verbatim>\<open>snprintf(buf, 32, "%.1f", v)\<close>: at most 31 characters reach the buffer.\<close>

definition fmt_1f :: "cdouble \<Rightarrow> string" where
  "fmt_1f v =
     (case v of
        NaN \<Rightarrow> ''nan''
      | Inf neg \<Rightarrow> (if neg then ''-inf'' else ''inf'')
      | Fin neg r \<Rightarrow>
          take 31 ((if neg then ''-'' else []) @
            (let t = nat (round_half_even (r * 10)) in show_nat (t div 10) @ ''.'' @ show_nat (t mod 10))))"

section \<open>The rounding error\<close>

lemma round_half_even_near:
  assumes "\<bar>r - of_int k\<bar> < 1 / 2"
  shows "round_half_even r = k"
proof -
  have "\<lfloor>r\<rfloor> = k \<or> \<lfloor>r\<rfloor> = k - 1" using assms by linarith
  then show ?thesis
  proof
    assume f: "\<lfloor>r\<rfloor> = k"
    then have "r - of_int \<lfloor>r\<rfloor> < 1 / 2" using assms by linarith
    then show ?thesis using f by (simp add: round_half_even_def Let_def)
  next
    assume f: "\<lfloor>r\<rfloor> = k - 1"
    then have "1 / 2 < r - of_int \<lfloor>r\<rfloor>" 
    proof -
      have "(of_int k :: rat) = of_int \<lfloor>r\<rfloor> + 1" using f by simp
      with assms show ?thesis by linarith
    qed
    then show ?thesis using f by (simp add: round_half_even_def Let_def)
  qed
qed

lemma round_half_even_error: "\<bar>of_int (round_half_even r) - r\<bar> \<le> 1 / 2"
proof -
  have "of_int \<lfloor>r\<rfloor> \<le> r" "r < of_int \<lfloor>r\<rfloor> + 1" by linarith+
  then show ?thesis by (auto simp: round_half_even_def Let_def)
qed


lemma flog2_le:
  assumes "0 < r"
  shows "2 powi flog2 r \<le> r"
proof -
  obtain n d where q: "quotient_of r = (n, d)" by (cases "quotient_of r")
  have d: "0 < d" using quotient_of_denom_pos [OF q] .
  have r: "r = of_int n / of_int d" using quotient_of_div [OF q] .
  with assms d have n: "0 < n" by (simp add: zero_less_divide_iff)
  have nb: "2 ^ nat (bitlen n - 1) \<le> n" using bitlen_bounds [OF n] by simp
  have db: "d < 2 ^ nat (bitlen d)" using bitlen_bounds [OF d] by simp
  have bn: "0 < bitlen n" "0 < bitlen d" using n d bitlen_nonneg [of n] bitlen_nonneg [of d] bitlen_eq_zero_iff [of n] bitlen_eq_zero_iff [of d]
    by linarith+
  have "(2 :: rat) powi (bitlen n - bitlen d - 1) = 2 powi (bitlen n - 1) / 2 powi bitlen d"
    by (simp add: power_int_diff [symmetric] algebra_simps)
  also have "\<dots> = of_int (2 ^ nat (bitlen n - 1)) / of_int (2 ^ nat (bitlen d))"
    using bn by (simp add: power_int_def)
  also have "\<dots> \<le> of_int n / of_int d"
    using nb db d n by (intro frac_le) (simp_all only: of_int_le_iff of_int_less_iff of_int_0_less_iff of_int_0_le_iff less_imp_le)
  finally have "2 powi (bitlen n - bitlen d - 1) \<le> r" unfolding r [symmetric] .
  then show ?thesis by (simp add: flog2_def q Let_def not_less)
qed

lemma flog2_less:
  assumes "0 < r" "r < 2 ^ k"
  shows "flog2 r < int k"
proof -
  have "(2 :: rat) powi flog2 r < 2 powi int k" using flog2_le [OF assms(1)] assms(2) by simp
  then show ?thesis by (metis power_int_increasing not_less one_le_numeral)
qed

lemma round64_error:
  assumes r: "0 < r" "r < 2 ^ 40"
  shows "\<exists>v. round64 neg r = Fin neg v \<and> \<bar>v - r\<bar> < 1 / 1000"
proof -
  define e where "e = max (-1074) (flog2 r - 52)"
  define v where "v = of_int (round_half_even (r / 2 powi e)) * (2 powi e :: rat)"
  have e: "e \<le> -13" using flog2_less [OF r] by (simp add: e_def)
  have pos: "(0 :: rat) < 2 powi e" by simp
  have "\<bar>of_int (round_half_even (r / 2 powi e)) - r / 2 powi e\<bar> * 2 powi e \<le> 1 / 2 * 2 powi e"
    using round_half_even_error [of "r / 2 powi e"] pos by (intro mult_right_mono) simp_all
  moreover have "\<bar>of_int (round_half_even (r / 2 powi e)) - r / 2 powi e\<bar> * 2 powi e = \<bar>v - r\<bar>"
  proof -
    have "\<bar>of_int (round_half_even (r / 2 powi e)) - r / 2 powi e\<bar> * 2 powi e =
        \<bar>(of_int (round_half_even (r / 2 powi e)) - r / 2 powi e) * 2 powi e\<bar>"
      using pos by (simp add: abs_mult)
    then show ?thesis using pos by (simp add: v_def left_diff_distrib)
  qed
  moreover have "(2 powi e :: rat) \<le> 2 powi (-13)" using e by (intro power_int_increasing) simp_all
  then have "1 / 2 * (2 powi e :: rat) < 1 / 1000" by (simp add: power_int_minus power_int_numeral)
  ultimately have err: "\<bar>v - r\<bar> < 1 / 1000" by linarith
  have "v < 2 ^ 1024"
  proof -
    have "v < r + 1" using err by linarith
    also have "\<dots> \<le> 2 ^ 41" using r(2) by simp
    also have "\<dots> \<le> (2 ^ 1024 :: rat)" by (rule power_increasing) simp_all
    finally show ?thesis .
  qed
  then have "round64 neg r = Fin neg v"
    using r by (simp add: round64_def Let_def e_def [symmetric] v_def [symmetric] not_le)
  with err show ?thesis by blast
qed


section \<open>One decimal place\<close>

definition one_decimal :: "nat \<Rightarrow> string" where
  "one_decimal k = show_nat (k div 10) @ ''.'' @ show_nat (k mod 10)"

lemma show_nat_small: "n < 10 \<Longrightarrow> show_nat n = [digit_char n]"
  by (simp add: show_nat.simps [of n])

lemma based_val_dec: "list_all is_digit s \<Longrightarrow> based_val 10 s = dec_val s"
proof -
  assume "list_all is_digit s"
  then have "\<forall>c \<in> set s. the (hex_val c) = digit_val c"
    by (auto simp: list_all_iff hex_val_def digit_val_def)
  then have "foldl (\<lambda>v c. v * 10 + the (hex_val c)) k s = foldl (\<lambda>v c. v * 10 + digit_val c) k s" for k
    by (induction s arbitrary: k) auto
  then show ?thesis by (simp add: based_val_def dec_val_def)
qed

lemma tolower_digit: "is_digit c \<Longrightarrow> tolower c = c"
  by (simp add: is_digit_def tolower_def)

lemma strtod_one_decimal: "strtod (one_decimal k) = round64 False (of_nat k / 10)"
proof -
  let ?i = "show_nat (k div 10)" and ?d = "digit_char (k mod 10)"
  have s: "one_decimal k = ?i @ CHR ''.'' # [?d]" by (simp add: one_decimal_def show_nat_small)
  have digits: "\<forall>c \<in> set ?i. is_digit c" using show_nat_digitD by blast
  obtain c r where i: "?i = c # r" "is_digit c" using digits by (cases ?i) auto
  have d: "is_digit ?d" by simp
  have sp: "dropWhile is_space (one_decimal k) = one_decimal k" "split_sign (one_decimal k) = (False, one_decimal k)"
    using i is_digit_not_space by (simp_all add: s split_sign_digit)
  have c: "tolower c = c" "c \<noteq> CHR ''i''" "c \<noteq> CHR ''n''" using i(2) tolower_digit by (auto simp: is_digit_def)
  have x: "\<not> starts_with_ci ''0x'' (one_decimal k)"
  proof (cases r)
    case Nil
    then show ?thesis by (simp add: starts_with_ci_def s i tolower_def)
  next
    case (Cons c' r')
    then have "is_digit c'" using digits i by simp
    then have "tolower c' \<noteq> CHR ''x''" using tolower_digit by (auto simp: is_digit_def)
    then show ?thesis using Cons by (simp add: starts_with_ci_def s i)
  qed
  have scan: "scan_digits is_digit (one_decimal k) = Some (?i, [?d], [])"
  proof -
    have "takeWhile is_digit (one_decimal k) = ?i" "dropWhile is_digit (one_decimal k) = CHR ''.'' # [?d]"
      using digits by (auto simp: s takeWhile_append2 dropWhile_append2 is_digit_def)
    then show ?thesis using d i by (simp add: scan_digits_def Let_def)
  qed
  have "list_all is_digit (?i @ [?d])" using digits d by (simp add: list_all_iff)
  then have "based_val 10 (?i @ [?d]) = dec_val (?i @ [?d])" by (rule based_val_dec)
  also have "\<dots> = k" by simp
  finally have dr: "dec_rat ?i [?d] 0 = of_nat k / 10"
    by (simp add: dec_rat_def power_int_minus)
  have "\<not> starts_with_ci ''inf'' (one_decimal k)" "\<not> starts_with_ci ''nan'' (one_decimal k)"
    using c by (simp_all add: starts_with_ci_def s i)
  then show ?thesis
    unfolding strtod_def sp by (simp add: x scan scan_exponent_def dr)
qed

lemma fmt_1f_one_decimal:
  assumes "k < 10 ^ 12"
  shows "fmt_1f (round64 False (of_nat k / 10)) = one_decimal k"
proof (cases "k = 0")
  case True
  then show ?thesis
    by (simp add: round64_def fmt_1f_def one_decimal_def round_half_even_def show_nat_small)
next
  case False
  have k: "(of_nat k :: rat) < 10 ^ 12" using assms by (metis of_nat_less_iff of_nat_numeral of_nat_power)
  obtain v where v: "round64 False (of_nat k / 10) = Fin False v" "\<bar>v - of_nat k / 10\<bar> < 1 / 1000"
    using round64_error [of "of_nat k / 10" False] False k by auto
  have "v - of_nat k / 10 < 1 / 1000" "of_nat k / 10 - v < 1 / 1000" using v(2) by linarith+
  then have "v * 10 - of_int (int k) < 1 / 2" "of_int (int k) - v * 10 < 1 / 2"
    unfolding of_int_of_nat_eq by linarith+
  then have "\<bar>v * 10 - of_int (int k)\<bar> < 1 / 2" unfolding abs_less_iff by linarith
  then have "round_half_even (v * 10) = int k" by (rule round_half_even_near)
  moreover have "k div 10 < 10 ^ 12" using assms by linarith
  then have "length (show_nat (k div 10)) \<le> 12" by (rule length_show_nat) simp
  ultimately show ?thesis using v(1) by (simp add: fmt_1f_def one_decimal_def show_nat_small)
qed

text \<open>
  Every number below \<open>10^11\<close> written with one decimal place (every CVSS score) comes out of
  \<^verbatim>\<open>strtod\<close> followed by \<^verbatim>\<open>"%.1f"\<close> exactly as it was written, although most of them have no exact
  binary representation.
\<close>

theorem one_decimal_roundtrip:
  assumes "k < 10 ^ 12"
  shows "fmt_1f (strtod (one_decimal k)) = one_decimal k"
  unfolding strtod_one_decimal by (rule fmt_1f_one_decimal [OF assms])

theorem one_decimal_roundtrip_witness: "fmt_1f (strtod (one_decimal 78)) = one_decimal 78"
  by (rule one_decimal_roundtrip) simp

end
