(* ===== verification/Json.thy ===== *)
theory Json
  imports NS_Prelude CDouble
begin

unbundle bit_operations_syntax

text \<open>
  The JSON writer, \<^verbatim>\<open>src/src/json.cpp\<close>: escaping and every operation of \<^verbatim>\<open>JsonWriter\<close> on a
  record of its members. What the calls produce is the subject of \<^verbatim>\<open>Json_Reader\<close>.
\<close>

section \<open>Escaping\<close>

definition kHex :: string where
  "kHex = ''0123456789abcdef''"

definition escape_char :: "char \<Rightarrow> string" where
  "escape_char c =
     (if c = CHR 0x22 then [CHR 0x5C, CHR 0x22]
      else if c = CHR 0x5C then [CHR 0x5C, CHR 0x5C]
      else if c = CHR 0x08 then [CHR 0x5C, CHR ''b'']
      else if c = CHR 0x0C then [CHR 0x5C, CHR ''f'']
      else if c = CHR 0x0A then [CHR 0x5C, CHR ''n'']
      else if c = CHR 0x0D then [CHR 0x5C, CHR ''r'']
      else if c = CHR 0x09 then [CHR 0x5C, CHR ''t'']
      else if byte c < 0x20
      then [CHR 0x5C, CHR ''u'', CHR ''0'', CHR ''0'', kHex ! (drop_bit 4 (byte c) AND 0xF), kHex ! (byte c AND 0xF)]
      else [c])"

definition json_escape :: "string \<Rightarrow> string" where
  "json_escape s = concat (map escape_char s)"

section \<open>The writer\<close>

record json_writer =
  out :: string
  counts :: "nat list"
  pretty :: bool

definition new_writer :: "bool \<Rightarrow> json_writer" where
  "new_writer p = \<lparr>out = [], counts = [], pretty = p\<rparr>"

definition newline_indent :: "json_writer \<Rightarrow> json_writer" where
  "newline_indent w =
     (if \<not> pretty w \<or> counts w = [] then w
      else w\<lparr>out := out w @ [CHR 0x0A] @ replicate (length (counts w) * 2) (CHR '' '')\<rparr>)"

definition separator :: "json_writer \<Rightarrow> json_writer" where
  "separator w =
     (let w = (if counts w \<noteq> []
               then (let w = (if last (counts w) > 0 then w\<lparr>out := out w @ '',''\<rparr> else w)
                     in w\<lparr>counts := butlast (counts w) @ [last (counts w) + 1]\<rparr>)
               else w)
      in newline_indent w)"

definition write_quoted :: "string \<Rightarrow> json_writer \<Rightarrow> json_writer" where
  "write_quoted s w = w\<lparr>out := out w @ [CHR 0x22] @ json_escape s @ [CHR 0x22]\<rparr>"

definition write_key :: "string \<Rightarrow> json_writer \<Rightarrow> json_writer" where
  "write_key key w =
     (let w = write_quoted key w in w\<lparr>out := out w @ (if pretty w then '': '' else '':'')\<rparr>)"

definition begin_object :: "json_writer \<Rightarrow> json_writer" where
  "begin_object w =
     (let w = separator w in w\<lparr>out := out w @ ''{'', counts := counts w @ [0]\<rparr>)"

definition begin_object_key :: "string \<Rightarrow> json_writer \<Rightarrow> json_writer" where
  "begin_object_key key w =
     (let w = write_key key (separator w) in w\<lparr>out := out w @ ''{'', counts := counts w @ [0]\<rparr>)"

definition end_object :: "json_writer \<Rightarrow> json_writer" where
  "end_object w =
     (let n = (if counts w = [] then 0 else last (counts w));
          w = (if counts w \<noteq> [] then w\<lparr>counts := butlast (counts w)\<rparr> else w);
          w = (if pretty w \<and> n > 0
               then w\<lparr>out := out w @ [CHR 0x0A] @ replicate (length (counts w) * 2) (CHR '' '')\<rparr> else w)
      in w\<lparr>out := out w @ ''}''\<rparr>)"

definition begin_array :: "string \<Rightarrow> json_writer \<Rightarrow> json_writer" where
  "begin_array key w =
     (let w = write_key key (separator w) in w\<lparr>out := out w @ ''['', counts := counts w @ [0]\<rparr>)"

definition end_array :: "json_writer \<Rightarrow> json_writer" where
  "end_array w =
     (let n = (if counts w = [] then 0 else last (counts w));
          w = (if counts w \<noteq> [] then w\<lparr>counts := butlast (counts w)\<rparr> else w);
          w = (if pretty w \<and> n > 0
               then w\<lparr>out := out w @ [CHR 0x0A] @ replicate (length (counts w) * 2) (CHR '' '')\<rparr> else w)
      in w\<lparr>out := out w @ '']''\<rparr>)"

definition field_str :: "string \<Rightarrow> string \<Rightarrow> json_writer \<Rightarrow> json_writer" where
  "field_str key v w = write_quoted v (write_key key (separator w))"

text \<open>A null pointer is written as the empty string.\<close>

definition field_cstr :: "string \<Rightarrow> string option \<Rightarrow> json_writer \<Rightarrow> json_writer" where
  "field_cstr key v w = field_str key (case v of Some s \<Rightarrow> s | None \<Rightarrow> []) w"

definition field_bool :: "string \<Rightarrow> bool \<Rightarrow> json_writer \<Rightarrow> json_writer" where
  "field_bool key v w =
     (let w = write_key key (separator w) in w\<lparr>out := out w @ (if v then ''true'' else ''false'')\<rparr>)"

definition field_double :: "string \<Rightarrow> cdouble \<Rightarrow> json_writer \<Rightarrow> json_writer" where
  "field_double key v w =
     (let w = write_key key (separator w) in w\<lparr>out := out w @ fmt_1f v\<rparr>)"

definition field_i64 :: "string \<Rightarrow> 64 word \<Rightarrow> json_writer \<Rightarrow> json_writer" where
  "field_i64 key v w =
     (let w = write_key key (separator w) in w\<lparr>out := out w @ take 23 (show_int (sint v))\<rparr>)"

definition field_null :: "string \<Rightarrow> json_writer \<Rightarrow> json_writer" where
  "field_null key w =
     (let w = write_key key (separator w) in w\<lparr>out := out w @ ''null''\<rparr>)"

text \<open>\<^verbatim>\<open>value(v)\<close>, a string element of an array.\<close>

definition value_str :: "string \<Rightarrow> json_writer \<Rightarrow> json_writer" where
  "value_str v w = write_quoted v (separator w)"

text \<open>
  The integral overload of \<^verbatim>\<open>field\<close> casts to \<^verbatim>\<open>std::int64_t\<close>: a 64-bit unsigned value from
  \<open>2^63\<close> on is written as a negative number.
\<close>

definition field_nat :: "string \<Rightarrow> nat \<Rightarrow> json_writer \<Rightarrow> json_writer" where
  "field_nat key n w = field_i64 key (of_nat n) w"

definition field_int :: "string \<Rightarrow> int \<Rightarrow> json_writer \<Rightarrow> json_writer" where
  "field_int key n w = field_i64 key (of_int n) w"

end
