(* ===== verification/Json_Reader.thy ===== *)
theory Json_Reader
  imports Json
begin

unbundle bit_operations_syntax

text \<open>
  The meaning of the writer: JSON trees, the calls of \<^verbatim>\<open>JsonWriter\<close> that emit a tree, and a
  reference reader of JSON texts. The lemmas show that escaping is undone by reading whatever
  bytes a string holds, that the calls emit exactly the rendering of the tree in both styles,
  and that every emitted document reads back as its tree. The locale \<open>json_report\<close> is the
  interface the report builders of the other components implement.
\<close>

section \<open>Reading string literals\<close>

definition hex_digit :: "char \<Rightarrow> nat option" where
  "hex_digit c =
     (if is_digit c then Some (byte c - 48)
      else if 97 \<le> byte c \<and> byte c \<le> 102 then Some (byte c - 87)
      else if 65 \<le> byte c \<and> byte c \<le> 70 then Some (byte c - 55)
      else None)"

definition simple_escape :: "char \<Rightarrow> char option" where
  "simple_escape c =
     (if c = CHR 0x22 \<or> c = CHR 0x5C \<or> c = CHR ''/'' then Some c
      else if c = CHR ''b'' then Some (CHR 0x08)
      else if c = CHR ''f'' then Some (CHR 0x0C)
      else if c = CHR ''n'' then Some (CHR 0x0A)
      else if c = CHR ''r'' then Some (CHR 0x0D)
      else if c = CHR ''t'' then Some (CHR 0x09)
      else None)"

text \<open>
  The rest of a string literal after its opening quote: the bytes it denotes and what follows
  the closing quote. Raw control characters are refused; of the \<open>\u\<close> escapes only those below
  \<open>0x80\<close> are read, which are all the writer emits.
\<close>

fun read_string :: "string \<Rightarrow> (string \<times> string) option" where
  "read_string [] = None"
| "read_string (c # s) =
     (if c = CHR 0x22 then Some ([], s)
      else if byte c < 0x20 then None
      else if c \<noteq> CHR 0x5C then map_option (\<lambda>(v, t). (c # v, t)) (read_string s)
      else case s of
        CHR ''u'' # a # b # d # e # s' \<Rightarrow>
          (case (hex_digit a, hex_digit b, hex_digit d, hex_digit e) of
             (Some 0, Some 0, Some x, Some y) \<Rightarrow>
               if x < 8 then map_option (\<lambda>(v, t). (char_of (16 * x + y) # v, t)) (read_string s') else None
           | _ \<Rightarrow> None)
      | f # s' \<Rightarrow>
          (case simple_escape f of
             Some x \<Rightarrow> map_option (\<lambda>(v, t). (x # v, t)) (read_string s')
           | None \<Rightarrow> None)
      | [] \<Rightarrow> None)"


lemma hex_digit_kHex: "n < 16 \<Longrightarrow> hex_digit (kHex ! n) = Some n"
proof -
  assume "n < 16"
  then have "n \<in> {0, 1, 2, 3, 4, 5, 6, 7, 8, 9, 10, 11, 12, 13, 14, 15}"
    unfolding insert_iff empty_iff by presburger
  then show ?thesis by (auto simp: kHex_def hex_digit_def is_digit_def)
qed

lemma and_15: "(n :: nat) AND 15 = n mod 16"
proof -
  have "(15 :: nat) = mask 4" by (simp add: mask_eq_exp_minus_1)
  then have "n AND 15 = take_bit 4 n" by (simp only: take_bit_eq_mask)
  then show ?thesis by (simp add: take_bit_eq_mod)
qed

lemma read_string_escape_char:
  "read_string (escape_char c @ u) = map_option (\<lambda>(v, t). (c # v, t)) (read_string u)"
proof (cases "byte c < 0x20 \<and> escape_char c \<noteq> [CHR 0x5C, CHR ''b''] \<and> escape_char c \<noteq> [CHR 0x5C, CHR ''f''] \<and>
    escape_char c \<noteq> [CHR 0x5C, CHR ''n''] \<and> escape_char c \<noteq> [CHR 0x5C, CHR ''r''] \<and> escape_char c \<noteq> [CHR 0x5C, CHR ''t'']")
  case True
  let ?x = "drop_bit 4 (byte c)" and ?y = "byte c AND 0xF"
  have x: "?x < 8" "?x AND 0xF = ?x" and y: "?y < 16" and eq: "16 * ?x + ?y = byte c"
  proof -
    have "byte c div 16 < 2" using True by (intro less_mult_imp_div_less) simp
    then show "?x < 8" "?x AND 0xF = ?x" "?y < 16" "16 * ?x + ?y = byte c"
      by (simp_all add: and_15 drop_bit_eq_div)
  qed
  have "escape_char c = [CHR 0x5C, CHR ''u'', CHR ''0'', CHR ''0'', kHex ! ?x, kHex ! ?y]"
    using True x by (auto simp: escape_char_def split: if_splits)
  then show ?thesis
    using hex_digit_kHex [of ?x] hex_digit_kHex [of ?y] x y eq
    by (simp add: hex_digit_def [of "CHR ''0''"] is_digit_def)
next
  case False
  then show ?thesis
    by (auto simp: escape_char_def simple_escape_def split: if_splits)
qed

lemma read_string_escape: "read_string (json_escape s @ CHR 0x22 # t) = Some (s, t)"
  by (induction s) (simp_all add: json_escape_def read_string_escape_char)

section \<open>JSON trees\<close>

datatype jval =
    JStr string
  | JBool bool
  | JNum string
  | JNull
  | JObj "(string \<times> jval) list"
  | JArr "jval list"

text \<open>
  The text of a tree, in the writer's two styles: \<open>d\<close> is the number of containers around it.
\<close>

definition nl :: "bool \<Rightarrow> nat \<Rightarrow> string" where
  "nl p d = (if p then CHR 0x0A # replicate (d * 2) (CHR '' '') else [])"

definition quoted :: "string \<Rightarrow> string" where
  "quoted s = CHR 0x22 # json_escape s @ [CHR 0x22]"

definition key_text :: "bool \<Rightarrow> string \<Rightarrow> string" where
  "key_text p k = quoted k @ (if p then '': '' else '':'')"

text \<open>The items of a container with a comma between them and each on its own line.\<close>

fun items :: "bool \<Rightarrow> nat \<Rightarrow> string list \<Rightarrow> string" where
  "items p d [] = []"
| "items p d [x] = nl p d @ x"
| "items p d (x # xs) = nl p d @ x @ '','' @ items p d xs"

definition closing :: "bool \<Rightarrow> nat \<Rightarrow> 'a list \<Rightarrow> string" where
  "closing p d xs = (if xs = [] then [] else nl p d)"

fun render :: "bool \<Rightarrow> nat \<Rightarrow> jval \<Rightarrow> string" where
  "render p d (JStr s) = quoted s"
| "render p d (JBool b) = (if b then ''true'' else ''false'')"
| "render p d (JNum t) = t"
| "render p d JNull = ''null''"
| "render p d (JObj ms) =
     ''{'' @ items p (Suc d) (map (\<lambda>(k, v). key_text p k @ render p (Suc d) v) ms) @ closing p d ms @ ''}''"
| "render p d (JArr vs) =
     ''['' @ items p (Suc d) (map (render p (Suc d)) vs) @ closing p d vs @ '']''"

subsection \<open>The calls that emit a tree\<close>

text \<open>
  A member of an object goes through the overload for its value; an element of an array can only
  be a string or an object, the writer has no call for the others.
\<close>

fun emit_member :: "string \<Rightarrow> jval \<Rightarrow> json_writer \<Rightarrow> json_writer"
  and emit_elem :: "jval \<Rightarrow> json_writer \<Rightarrow> json_writer" where
  "emit_member k (JStr s) w = field_str k s w"
| "emit_member k (JBool b) w = field_bool k b w"
| "emit_member k (JNum t) w = (let w = write_key k (separator w) in w\<lparr>out := out w @ t\<rparr>)"
| "emit_member k JNull w = field_null k w"
| "emit_member k (JObj ms) w = end_object (fold (\<lambda>(k, v). emit_member k v) ms (begin_object_key k w))"
| "emit_member k (JArr vs) w = end_array (fold emit_elem vs (begin_array k w))"
| "emit_elem (JStr s) w = value_str s w"
| "emit_elem (JObj ms) w = end_object (fold (\<lambda>(k, v). emit_member k v) ms (begin_object w))"
| "emit_elem _ w = w"

fun emittable :: "jval \<Rightarrow> bool" where
  "emittable (JObj ms) = (\<forall>(k, v) \<in> set ms. emittable v)"
| "emittable (JArr vs) = (\<forall>v \<in> set vs. emittable v \<and> (case v of JStr _ \<Rightarrow> True | JObj _ \<Rightarrow> True | _ \<Rightarrow> False))"
| "emittable _ = True"

definition emit :: "bool \<Rightarrow> jval \<Rightarrow> string" where
  "emit p v = out (emit_elem v (new_writer p))"

subsection \<open>One item\<close>

definition put_item :: "string \<Rightarrow> json_writer \<Rightarrow> json_writer" where
  "put_item t w =
     (if counts w = [] then w\<lparr>out := out w @ t\<rparr>
      else w\<lparr>out := out w @ (if 0 < last (counts w) then '','' else []) @ nl (pretty w) (length (counts w)) @ t,
             counts := butlast (counts w) @ [last (counts w) + 1]\<rparr>)"

lemma put_item_frame [simp]:
  "pretty (put_item t w) = pretty w" "length (counts (put_item t w)) = length (counts w)"
  by (simp_all add: put_item_def)

lemma put_item_simps [json_simps]:
  "separator w = put_item [] w"
  "field_str k s w = put_item (key_text (pretty w) k @ quoted s) w"
  "field_bool k b w = put_item (key_text (pretty w) k @ (if b then ''true'' else ''false'')) w"
  "field_null k w = put_item (key_text (pretty w) k @ ''null'') w"
  "value_str s w = put_item (quoted s) w"
  by (simp_all add: put_item_def separator_def newline_indent_def nl_def field_str_def write_quoted_def
      write_key_def field_bool_def field_null_def value_str_def key_text_def quoted_def Let_def)

lemma field_i64_item [json_simps]:
  "field_i64 k v w = put_item (key_text (pretty w) k @ take 23 (show_int (sint v))) w"
  by (simp add: put_item_def separator_def newline_indent_def nl_def write_quoted_def
      write_key_def field_i64_def key_text_def quoted_def Let_def)

lemma begin_simps:
  "begin_object w = (let w = put_item ''{'' w in w\<lparr>counts := counts w @ [0]\<rparr>)"
  "begin_object_key k w = (let w = put_item (key_text (pretty w) k @ ''{'') w in w\<lparr>counts := counts w @ [0]\<rparr>)"
  "begin_array k w = (let w = put_item (key_text (pretty w) k @ ''['') w in w\<lparr>counts := counts w @ [0]\<rparr>)"
  by (simp_all add: put_item_def separator_def newline_indent_def nl_def begin_object_def begin_object_key_def
      begin_array_def write_quoted_def write_key_def key_text_def quoted_def Let_def)

lemma end_simps:
  assumes "counts w = cs @ [n]"
  shows "end_object w = w\<lparr>out := out w @ (if 0 < n then nl (pretty w) (length cs) else []) @ ''}'', counts := cs\<rparr>"
    "end_array w = w\<lparr>out := out w @ (if 0 < n then nl (pretty w) (length cs) else []) @ '']'', counts := cs\<rparr>"
  using assms by (simp_all add: end_object_def end_array_def nl_def Let_def)

lemma items_Cons: "items p d (x # xs) = nl p d @ x @ (if xs = [] then [] else '','' @ items p d xs)"
  by (cases xs) simp_all

lemma fold_put_item:
  assumes "\<And>x w. x \<in> set xs \<Longrightarrow> pretty w = p \<Longrightarrow> length (counts w) = Suc d \<Longrightarrow> f x w = put_item (g x) w"
    and "pretty w = p" "counts w = cs @ [n]" "length cs = d"
  shows "fold f xs w = w\<lparr>out := out w @ (if 0 < n \<and> xs \<noteq> [] then '','' else []) @ items p (Suc d) (map g xs),
       counts := cs @ [n + length xs]\<rparr>"
  using assms
proof (induction xs arbitrary: w n)
  case (Cons x xs)
  have fx: "f x w = put_item (g x) w" using Cons.prems by simp
  have "fold f xs (put_item (g x) w) = (put_item (g x) w)\<lparr>out := out (put_item (g x) w) @
      (if 0 < Suc n \<and> xs \<noteq> [] then '','' else []) @ items p (Suc d) (map g xs), counts := cs @ [Suc n + length xs]\<rparr>"
    using Cons.prems by (intro Cons.IH) (simp_all add: put_item_def)
  with fx Cons.prems(2-4) show ?case by (simp add: put_item_def items_Cons)
qed simp

lemma container_item:
  assumes w: "counts (put_item pre w) = cs" "pretty w = p" "length (counts w) = d"
    and f: "\<And>x w. x \<in> set xs \<Longrightarrow> pretty w = p \<Longrightarrow> length (counts w) = Suc d \<Longrightarrow> f x w = put_item (g x) w"
  shows "end_object (fold f xs ((put_item (pre @ ''{'') w)\<lparr>counts := counts (put_item (pre @ ''{'') w) @ [0]\<rparr>)) =
      put_item (pre @ ''{'' @ items p (Suc d) (map g xs) @ closing p d xs @ ''}'') w"
    "end_array (fold f xs ((put_item (pre @ ''['') w)\<lparr>counts := counts (put_item (pre @ ''['') w) @ [0]\<rparr>)) =
      put_item (pre @ ''['' @ items p (Suc d) (map g xs) @ closing p d xs @ '']'') w"
proof -
  let ?cs = "\<lambda>t. counts (put_item t w)"
  have len: "length (?cs t) = d" for t using w by simp
  have fo: "fold f xs ((put_item t w)\<lparr>counts := ?cs t @ [0]\<rparr>) = (put_item t w)\<lparr>
      out := out (put_item t w) @ items p (Suc d) (map g xs), counts := ?cs t @ [length xs]\<rparr>" for t
    using fold_put_item [of xs p d f g "(put_item t w)\<lparr>counts := ?cs t @ [0]\<rparr>" "?cs t" 0] f w len by simp
  show "end_object (fold f xs ((put_item (pre @ ''{'') w)\<lparr>counts := counts (put_item (pre @ ''{'') w) @ [0]\<rparr>)) =
      put_item (pre @ ''{'' @ items p (Suc d) (map g xs) @ closing p d xs @ ''}'') w"
    unfolding fo using w by (subst end_simps(1) [OF _]) (auto simp: put_item_def closing_def)
  show "end_array (fold f xs ((put_item (pre @ ''['') w)\<lparr>counts := counts (put_item (pre @ ''['') w) @ [0]\<rparr>)) =
      put_item (pre @ ''['' @ items p (Suc d) (map g xs) @ closing p d xs @ '']'') w"
    unfolding fo using w by (subst end_simps(2) [OF _]) (auto simp: put_item_def closing_def)
qed

abbreviation element :: "jval \<Rightarrow> bool" where
  "element v \<equiv> (case v of JStr _ \<Rightarrow> True | JObj _ \<Rightarrow> True | _ \<Rightarrow> False)"

lemma emit_put_item:
  "emittable v \<Longrightarrow>
     emit_member k v w = put_item (key_text (pretty w) k @ render (pretty w) (length (counts w)) v) w \<and>
     (element v \<longrightarrow> emit_elem v w = put_item (render (pretty w) (length (counts w)) v) w)"
proof (induction v arbitrary: k w)
  case (JNum t)
  show ?case
    by (simp add: put_item_def separator_def newline_indent_def nl_def write_quoted_def
        write_key_def key_text_def quoted_def Let_def)
next
  case (JObj ms)
  have m: "(\<lambda>(k, v). emit_member k v) x w' =
      put_item ((\<lambda>(k, v). key_text (pretty w) k @ render (pretty w) (Suc (length (counts w))) v) x) w'"
    if "x \<in> set ms" "pretty w' = pretty w" "length (counts w') = Suc (length (counts w))" for x w'
    using that JObj.prems JObj.IH [of x "snd x" "fst x" w'] by (cases x) auto
  note c = container_item(1) [where xs = ms and f = "\<lambda>(k, v). emit_member k v" and
      g = "\<lambda>(k, v). key_text (pretty w) k @ render (pretty w) (Suc (length (counts w))) v", OF refl refl refl m]
  show ?case
    using c [where pre = "key_text (pretty w) k"] c [where pre = "[]"]
    by (simp add: begin_simps Let_def)
next
  case (JArr vs)
  have m: "emit_elem x w' = put_item (render (pretty w) (Suc (length (counts w))) x) w'"
    if "x \<in> set vs" "pretty w' = pretty w" "length (counts w') = Suc (length (counts w))" for x w'
    using that JArr.prems JArr.IH [of x k w'] by simp
  show ?case
    using container_item(2) [where xs = vs and f = emit_elem and pre = "key_text (pretty w) k" and
      g = "render (pretty w) (Suc (length (counts w)))", OF refl refl refl m]
    by (simp add: begin_simps Let_def)
qed (simp_all add: json_simps)

lemma emit_render: "emittable v \<Longrightarrow> element v \<Longrightarrow> emit p v = render p 0 v"
  using emit_put_item [of v "[]" "new_writer p"] by (simp add: emit_def put_item_def new_writer_def)

section \<open>Reading JSON texts\<close>

definition is_ws :: "char \<Rightarrow> bool" where
  "is_ws c \<longleftrightarrow> c \<in> {CHR '' '', CHR 0x09, CHR 0x0A, CHR 0x0D}"

definition skip_ws :: "string \<Rightarrow> string" where
  "skip_ws s = dropWhile is_ws s"

definition num_char :: "char \<Rightarrow> bool" where
  "num_char c \<longleftrightarrow> is_digit c \<or> c \<in> {CHR ''-'', CHR ''+'', CHR ''.'', CHR ''e'', CHR ''E''}"

text \<open>The grammar of a number: sign, integer without leading zeros, fraction, exponent.\<close>

definition num_exp :: "string \<Rightarrow> bool" where
  "num_exp r =
     (case r of [] \<Rightarrow> True
      | c # s \<Rightarrow> (c = CHR ''e'' \<or> c = CHR ''E'') \<and>
          (let s = (if s \<noteq> [] \<and> (hd s = CHR ''+'' \<or> hd s = CHR ''-'') then tl s else s)
           in s \<noteq> [] \<and> list_all is_digit s))"

definition num_frac :: "string \<Rightarrow> bool" where
  "num_frac r =
     (if r \<noteq> [] \<and> hd r = CHR ''.'' then takeWhile is_digit (tl r) \<noteq> [] \<and> num_exp (dropWhile is_digit (tl r))
      else num_exp r)"

definition num_int :: "string \<Rightarrow> bool" where
  "num_int t =
     (let t = (if t \<noteq> [] \<and> hd t = CHR ''-'' then tl t else t); i = takeWhile is_digit t
      in i \<noteq> [] \<and> (hd i = CHR ''0'' \<longrightarrow> tl i = []) \<and> num_frac (dropWhile is_digit t))"

definition num_text :: "string \<Rightarrow> bool" where
  "num_text t \<longleftrightarrow> t \<noteq> [] \<and> list_all num_char t \<and> (is_digit (hd t) \<or> hd t = CHR ''-'') \<and> num_int t"

text \<open>
  Recursive descent with fuel: a value, the members of an object up to its closing brace, the
  elements of an array up to its closing bracket. Numbers are kept as their text.
\<close>

definition accept :: "char \<Rightarrow> string \<Rightarrow> string option" where
  "accept c s = (case skip_ws s of [] \<Rightarrow> None | x # r \<Rightarrow> if x = c then Some r else None)"

fun parse_value :: "nat \<Rightarrow> string \<Rightarrow> (jval \<times> string) option"
  and parse_members :: "nat \<Rightarrow> string \<Rightarrow> ((string \<times> jval) list \<times> string) option"
  and parse_elems :: "nat \<Rightarrow> string \<Rightarrow> (jval list \<times> string) option" where
  "parse_value 0 s = None"
| "parse_value (Suc n) s =
     (case skip_ws s of
        [] \<Rightarrow> None
      | c # r \<Rightarrow>
          if c = CHR 0x22 then map_option (\<lambda>(v, t). (JStr v, t)) (read_string r)
          else if c = CHR ''{'' then
            (case accept (CHR ''}'') r of
               Some t \<Rightarrow> Some (JObj [], t)
             | None \<Rightarrow> map_option (\<lambda>(ms, t). (JObj ms, t)) (parse_members n r))
          else if c = CHR ''['' then
            (case accept (CHR '']'') r of
               Some t \<Rightarrow> Some (JArr [], t)
             | None \<Rightarrow> map_option (\<lambda>(vs, t). (JArr vs, t)) (parse_elems n r))
          else if starts_with ''true'' (c # r) then Some (JBool True, drop 4 (c # r))
          else if starts_with ''false'' (c # r) then Some (JBool False, drop 5 (c # r))
          else if starts_with ''null'' (c # r) then Some (JNull, drop 4 (c # r))
          else if is_digit c \<or> c = CHR ''-'' then Some (JNum (takeWhile num_char (c # r)), dropWhile num_char (c # r))
          else None)"
| "parse_members 0 s = None"
| "parse_members (Suc n) s =
     (case Option.bind (accept (CHR 0x22) s) read_string of
        None \<Rightarrow> None
      | Some (k, t) \<Rightarrow>
          (case Option.bind (accept (CHR '':'') t) (parse_value n) of
             None \<Rightarrow> None
           | Some (v, x) \<Rightarrow>
               (case accept (CHR ''}'') x of
                  Some y \<Rightarrow> Some ([(k, v)], y)
                | None \<Rightarrow>
                    map_option (\<lambda>(ms, z). ((k, v) # ms, z)) (Option.bind (accept (CHR '','') x) (parse_members n)))))"
| "parse_elems 0 s = None"
| "parse_elems (Suc n) s =
     (case parse_value n s of
        None \<Rightarrow> None
      | Some (v, x) \<Rightarrow>
          (case accept (CHR '']'') x of
             Some y \<Rightarrow> Some ([v], y)
           | None \<Rightarrow>
               map_option (\<lambda>(vs, z). (v # vs, z)) (Option.bind (accept (CHR '','') x) (parse_elems n))))"

text \<open>A whole document: one value and nothing but white space after it.\<close>

definition json_parse :: "string \<Rightarrow> jval option" where
  "json_parse s =
     (case parse_value (Suc (length s)) s of Some (v, t) \<Rightarrow> if skip_ws t = [] then Some v else None | None \<Rightarrow> None)"

fun jsize :: "jval \<Rightarrow> nat" where
  "jsize (JObj ms) = Suc (sum_list (map (\<lambda>(k, v). Suc (jsize v)) ms))"
| "jsize (JArr vs) = Suc (sum_list (map (\<lambda>v. Suc (jsize v)) vs))"
| "jsize _ = 1"

fun nums_ok :: "jval \<Rightarrow> bool" where
  "nums_ok (JNum t) = num_text t"
| "nums_ok (JObj ms) = (\<forall>(k, v) \<in> set ms. nums_ok v)"
| "nums_ok (JArr vs) = (\<forall>v \<in> set vs. nums_ok v)"
| "nums_ok _ = True"

lemma is_ws_nl: "list_all is_ws (nl p d)"
  by (auto simp: nl_def is_ws_def list_all_iff)

lemma skip_ws_append: "list_all is_ws ws \<Longrightarrow> skip_ws (ws @ s) = skip_ws s"
  by (induction ws) (simp_all add: skip_ws_def)

lemma skip_ws_Cons: "\<not> is_ws c \<Longrightarrow> skip_ws (c # s) = c # s"
  by (simp add: skip_ws_def)

lemma skip_ws_nl: "skip_ws (nl p d @ s) = skip_ws s"
  by (rule skip_ws_append [OF is_ws_nl])

lemma skip_ws_closing: "skip_ws (closing p d xs @ s) = skip_ws s"
  by (simp add: closing_def skip_ws_nl)

lemmas skip_simps = skip_ws_nl skip_ws_closing skip_ws_Cons [of "CHR 0x22"] skip_ws_Cons [of "CHR ''{''"]
  skip_ws_Cons [of "CHR ''}''"] skip_ws_Cons [of "CHR ''[''"] skip_ws_Cons [of "CHR '']''"]
  skip_ws_Cons [of "CHR '',''"] skip_ws_Cons [of "CHR '':''"] skip_ws_Cons [of "CHR ''t''"]
  skip_ws_Cons [of "CHR ''f''"] skip_ws_Cons [of "CHR ''n''"] accept_def

lemma parse_value_skip: "list_all is_ws ws \<Longrightarrow> parse_value n (ws @ s) = parse_value n s"
  by (cases n) (simp_all add: skip_ws_append)

abbreviation ends_number :: "string \<Rightarrow> bool" where
  "ends_number t \<equiv> t = [] \<or> \<not> num_char (hd t)"

lemma parse_num:
  assumes "num_text u" "ends_number t"
  shows "parse_value (Suc n) (u @ t) = Some (JNum u, t)"
proof -
  obtain c r where u: "u = c # r" "is_digit c \<or> c = CHR ''-''" "list_all num_char (c # r)"
    using assms(1) by (cases u) (auto simp: num_text_def)
  have "\<not> is_ws c" "c \<noteq> CHR 0x22" "c \<noteq> CHR ''{''" "c \<noteq> CHR ''[''" "c \<noteq> CHR ''t''" "c \<noteq> CHR ''f''" "c \<noteq> CHR ''n''"
    using u(2) by (auto simp: is_ws_def is_digit_def)
  moreover have "takeWhile num_char (u @ t) = u" "dropWhile num_char (u @ t) = t"
    using u assms(2) by (cases t; auto simp: list_all_iff)+
  ultimately show ?thesis using u by (auto simp: skip_ws_Cons starts_with_def)
qed

lemma ends_number_simps:
  "ends_number (CHR '','' # s)" "ends_number (nl p d @ CHR ''}'' # s)" "ends_number (nl p d @ CHR '']'' # s)"
  by (auto simp: nl_def num_char_def is_digit_def)

lemma parse_members_render:
  assumes IH: "\<And>k v n t. (k, v) \<in> set ms \<Longrightarrow> jsize v \<le> n \<Longrightarrow> ends_number t \<Longrightarrow>
      parse_value n (render p d v @ t) = Some (v, t)"
    and "ms \<noteq> []" "sum_list (map (\<lambda>(k, v). Suc (jsize v)) ms) \<le> n"
  shows "parse_members n (items p d (map (\<lambda>(k, v). key_text p k @ render p d v) ms) @ nl p d' @ CHR ''}'' # t) = Some (ms, t)"
  using assms
proof (induction ms arbitrary: n)
  case (Cons m ms)
  obtain k v where m: "m = (k, v)" by (cases m)
  obtain j where n: "n = Suc j" using Cons.prems(3) m by (cases n) auto
  have j: "jsize v \<le> j" "sum_list (map (\<lambda>(k, v). Suc (jsize v)) ms) \<le> j"
    using Cons.prems(3) m n by auto
  have v: "parse_value j ((if p then '' '' else []) @ render p d v @ u) = Some (v, u)" if "ends_number u" for u
    using Cons.prems(1) [of k v j u] that m j parse_value_skip [of "'' ''" j] by (auto simp: is_ws_def)
  have key: "key_text p k @ s = CHR 0x22 # json_escape k @ CHR 0x22 # CHR '':'' # (if p then '' '' else []) @ s" for s
    by (simp add: key_text_def quoted_def)
  show ?case
  proof (cases "ms = []")
    case True
    then show ?thesis
      using v [OF ends_number_simps(2)]
      by (simp add: m n key skip_simps is_ws_def read_string_escape)
  next
    case False
    have "parse_members j (items p d (map (\<lambda>(k, v). key_text p k @ render p d v) ms) @ nl p d' @ CHR ''}'' # t) = Some (ms, t)"
      using Cons.prems(1) False j by (intro Cons.IH) auto
    then show ?thesis
      using False v [OF ends_number_simps(1)]
      by (simp add: m n key items_Cons skip_simps is_ws_def read_string_escape)
  qed
qed simp

lemma parse_elems_render:
  assumes IH: "\<And>v n t. v \<in> set vs \<Longrightarrow> jsize v \<le> n \<Longrightarrow> ends_number t \<Longrightarrow>
      parse_value n (render p d v @ t) = Some (v, t)"
    and "vs \<noteq> []" "sum_list (map (\<lambda>v. Suc (jsize v)) vs) \<le> n"
  shows "parse_elems n (items p d (map (render p d) vs) @ nl p d' @ CHR '']'' # t) = Some (vs, t)"
  using assms
proof (induction vs arbitrary: n)
  case (Cons v vs)
  obtain j where n: "n = Suc j" using Cons.prems(3) by (cases n) auto
  have j: "jsize v \<le> j" "sum_list (map (\<lambda>v. Suc (jsize v)) vs) \<le> j"
    using Cons.prems(3) n by auto
  have v: "parse_value j (nl p d @ render p d v @ u) = Some (v, u)" if "ends_number u" for u
    using Cons.prems(1) [of v j u] that j parse_value_skip [OF is_ws_nl, of j p d] by simp
  show ?case
  proof (cases "vs = []")
    case True
    then show ?thesis
      using v [OF ends_number_simps(3)] by (simp add: n skip_simps is_ws_def)
  next
    case False
    have "parse_elems j (items p d (map (render p d) vs) @ nl p d' @ CHR '']'' # t) = Some (vs, t)"
      using Cons.prems(1) False j by (intro Cons.IH) auto
    then show ?thesis
      using False v [OF ends_number_simps(1)] by (simp add: n items_Cons skip_simps is_ws_def)
  qed
qed simp

text \<open>The first byte of a value is not white space and does not close a container.\<close>

lemma render_hd:
  assumes "nums_ok v"
  obtains c r where "render p d v = c # r" "\<not> is_ws c" "c \<noteq> CHR '']''"
proof (cases v)
  case (JNum u)
  obtain c r where u: "u = c # r" "is_digit c \<or> c = CHR ''-''"
    using assms JNum by (cases u) (auto simp: num_text_def)
  then have "\<not> is_ws c" "c \<noteq> CHR '']''" by (auto simp: is_ws_def is_digit_def)
  with u JNum that show thesis by simp
next
  case (JBool b)
  then show thesis using that by (cases b) (auto simp: is_ws_def)
qed (use that in \<open>auto simp: quoted_def is_ws_def\<close>)

lemma skip_items:
  assumes "xs \<noteq> []"
  shows "skip_ws (items p d (map f xs) @ s) = skip_ws (f (hd xs) @ (if tl xs = [] then s else '','' @ items p d (map f (tl xs)) @ s))"
  using assms by (cases xs) (simp_all add: items_Cons skip_ws_nl)

lemma parse_render:
  "nums_ok v \<Longrightarrow> jsize v \<le> n \<Longrightarrow> ends_number t \<Longrightarrow> parse_value n (render p d v @ t) = Some (v, t)"
proof (induction v arbitrary: n t d)
  case (JStr s)
  then show ?case by (cases n) (simp_all add: quoted_def skip_simps is_ws_def read_string_escape)
next
  case (JBool b)
  then show ?case by (cases n) (auto simp: skip_simps is_ws_def starts_with_def)
next
  case (JNum u)
  then show ?case by (cases n) (simp_all add: parse_num del: parse_value.simps)
next
  case JNull
  then show ?case by (cases n) (auto simp: skip_simps is_ws_def starts_with_def)
next
  case (JObj ms)
  obtain j where n: "n = Suc j" using JObj.prems(2) by (cases n) auto
  show ?case
  proof (cases "ms = []")
    case True
    then show ?thesis by (simp add: n skip_simps is_ws_def closing_def)
  next
    case False
    have ih: "parse_value n' (render p (Suc d) v @ t') = Some (v, t')"
      if "(k, v) \<in> set ms" "jsize v \<le> n'" "ends_number t'" for k v n' t'
      using JObj.IH [of "(k, v)" v n' t' "Suc d"] JObj.prems(1) that by auto
    obtain k v ms' where ms: "ms = (k, v) # ms'" using False by (cases ms) auto
    have "parse_members j (items p (Suc d) (map (\<lambda>(k, v). key_text p k @ render p (Suc d) v) ms) @ nl p d @ CHR ''}'' # t) = Some (ms, t)"
      using JObj.prems(2) by (intro parse_members_render [OF ih False]) (auto simp: n)
    moreover have "\<exists>r. skip_ws (items p (Suc d) (map (\<lambda>(k, v). key_text p k @ render p (Suc d) v) ms) @ nl p d @ CHR ''}'' # t) = CHR 0x22 # r"
      unfolding skip_items [OF False] by (simp add: ms key_text_def quoted_def skip_simps is_ws_def)
    ultimately show ?thesis
      using False by (auto simp: n skip_simps is_ws_def closing_def)
  qed
next
  case (JArr vs)
  obtain j where n: "n = Suc j" using JArr.prems(2) by (cases n) auto
  show ?case
  proof (cases "vs = []")
    case True
    then show ?thesis by (simp add: n skip_simps is_ws_def closing_def)
  next
    case False
    have ih: "parse_value n' (render p (Suc d) v @ t') = Some (v, t')"
      if "v \<in> set vs" "jsize v \<le> n'" "ends_number t'" for v n' t'
      using JArr.IH [of v n' t' "Suc d"] JArr.prems(1) that by auto
    have "parse_elems j (items p (Suc d) (map (render p (Suc d)) vs) @ nl p d @ CHR '']'' # t) = Some (vs, t)"
      using JArr.prems(2) by (intro parse_elems_render [OF ih False]) (auto simp: n)
    moreover have "nums_ok (hd vs)" using JArr.prems(1) False by simp
    then obtain c r where "render p (Suc d) (hd vs) = c # r" "\<not> is_ws c" "c \<noteq> CHR '']''"
      by (rule render_hd)
    then have "\<exists>c r. c \<noteq> CHR '']'' \<and> skip_ws (items p (Suc d) (map (render p (Suc d)) vs) @ nl p d @ CHR '']'' # t) = c # r"
      using False by (auto simp: skip_items skip_ws_Cons)
    ultimately show ?thesis
      using False by (auto simp: n skip_simps is_ws_def closing_def)
  qed
qed

lemma length_items: "sum_list (map length xs) + (length xs - 1) \<le> length (items p d xs)"
proof (induction xs)
  case (Cons x xs)
  then show ?case by (cases xs) (simp_all add: items_Cons)
qed simp

lemma jsize_render: "nums_ok v \<Longrightarrow> jsize v \<le> length (render p d v)"
proof (induction v arbitrary: d)
  case (JNum u)
  then show ?case by (cases u) (auto simp: num_text_def)
next
  case (JObj ms)
  have "sum_list (map (\<lambda>(k, v). Suc (jsize v)) ms) \<le>
      sum_list (map (\<lambda>x. length ((\<lambda>(k, v). key_text p k @ render p (Suc d) v) x)) ms)"
  proof (intro sum_list_mono)
    fix x assume x: "x \<in> set ms"
    then have "jsize (snd x) \<le> length (render p (Suc d) (snd x))"
      using JObj.prems JObj.IH [of x "snd x" "Suc d"] by (cases x) auto
    then show "(\<lambda>(k, v). Suc (jsize v)) x \<le> length ((\<lambda>(k, v). key_text p k @ render p (Suc d) v) x)"
      by (simp add: split_beta key_text_def quoted_def)
  qed
  then show ?case
    using length_items [of "map (\<lambda>(k, v). key_text p k @ render p (Suc d) v) ms" p "Suc d"]
    by (simp add: comp_def)
next
  case (JArr vs)
  have "sum_list (map jsize vs) \<le> sum_list (map (\<lambda>x. length (render p (Suc d) x)) vs)"
    using JArr by (intro sum_list_mono) simp
  then have "sum_list (map (\<lambda>v. Suc (jsize v)) vs) \<le> sum_list (map (\<lambda>x. length (render p (Suc d) x)) vs) + length vs"
    by (simp add: sum_list_Suc)
  then show ?case
    using length_items [of "map (render p (Suc d)) vs" p "Suc d"] by (simp add: comp_def)
qed (simp_all add: quoted_def)

lemma json_parse_render: "nums_ok v \<Longrightarrow> json_parse (render p d v) = Some v"
  using parse_render [of v "Suc (length (render p d v))" "[]" p d] jsize_render [of v p d]
  by (simp add: json_parse_def skip_ws_def del: parse_value.simps)

lemma json_parse_emit:
  "emittable v \<Longrightarrow> element v \<Longrightarrow> nums_ok v \<Longrightarrow> json_parse (emit p v) = Some v"
  by (simp add: emit_render json_parse_render)

section \<open>Integers\<close>

definition i64_text :: "64 word \<Rightarrow> string" where
  "i64_text v = take 23 (show_int (sint v))"

lemma num_int_show_nat:
  assumes "num_frac r" and "r \<noteq> [] \<Longrightarrow> \<not> is_digit (hd r)" and sg: "sg = [] \<or> sg = ''-''"
  shows "num_int (sg @ show_nat n @ r)"
proof -
  have digits: "takeWhile is_digit (show_nat n @ r) = show_nat n" "dropWhile is_digit (show_nat n @ r) = r"
    using show_nat_digitD [of _ n] assms(2) by (cases r; simp add: takeWhile_append2 dropWhile_append2)+
  obtain c s where n: "show_nat n = c # s" by (cases "show_nat n") auto
  have "is_digit c" using show_nat_digitD [of c n] n by simp
  then have c: "c \<noteq> CHR ''-''" by (auto simp: is_digit_def)
  have "c = CHR ''0'' \<Longrightarrow> s = []" using hd_show_nat_zero [of n] n by (auto simp: show_nat.simps [of 0])
  then show ?thesis using sg digits assms(1) n c by (auto simp: num_int_def)
qed

lemma num_text_show_nat:
  assumes "num_frac r" and "r \<noteq> [] \<Longrightarrow> \<not> is_digit (hd r)" and "list_all num_char r" and "sg = [] \<or> sg = ''-''"
  shows "num_text (sg @ show_nat n @ r)"
proof -
  obtain c s where n: "show_nat n = c # s" by (cases "show_nat n") auto
  have "is_digit c" using show_nat_digitD [of c n] n by simp
  moreover have "list_all num_char (show_nat n)" using show_nat_digitD [of _ n] by (auto simp: list_all_iff num_char_def)
  ultimately show ?thesis
    using num_int_show_nat [OF assms(1, 2, 4), of n] assms(3, 4) n by (auto simp: num_text_def num_char_def)
qed

lemma length_show_i64: "length (show_int (sint (v :: 64 word))) \<le> 23"
proof -
  have "- (2 ^ 63) \<le> sint v" "sint v < 2 ^ 63" using sint_range_size [of v] by (simp_all add: word_size)
  then have "nat (- sint v) < 10 ^ 22" "nat (sint v) < 10 ^ 22" by simp_all
  then have "length (show_nat (nat (- sint v))) \<le> 22" "length (show_nat (nat (sint v))) \<le> 22"
    by (simp_all add: length_show_nat)
  then show ?thesis by (simp add: show_int_def)
qed

lemma num_text_i64 [simp]: "num_text (i64_text v)"
  using num_text_show_nat [of "[]" "''-''"] num_text_show_nat [of "[]" "[]"]
  unfolding i64_text_def take_all [OF length_show_i64]
  by (simp add: num_frac_def num_exp_def show_int_def)

lemma num_text_fmt_1f:
  assumes "0 \<le> r" and "r < 10 ^ 27"
  shows "num_text (fmt_1f (Fin neg r))"
proof -
  let ?t = "nat (round_half_even (r * 10))"
  have "of_int (round_half_even (r * 10)) \<le> r * 10 + 1"
    using round_half_even_error [of "r * 10"] by linarith
  also have "\<dots> < of_int (10 ^ 29)" using assms(2) by simp
  finally have "round_half_even (r * 10) < 10 ^ 29" unfolding of_int_less_iff .
  then have "?t < 10 ^ 29" by simp
  then have "?t div 10 < 10 ^ 28" by simp
  then have "length (show_nat (?t div 10)) \<le> 28" by (rule length_show_nat) simp
  then have "fmt_1f (Fin neg r) = (if neg then ''-'' else []) @ show_nat (?t div 10) @ CHR ''.'' # [digit_char (?t mod 10)]"
    by (simp add: fmt_1f_def show_nat_small Let_def) linarith
  moreover have "num_frac (CHR ''.'' # [digit_char (?t mod 10)])" by (simp add: num_frac_def num_exp_def)
  ultimately show ?thesis
    using num_text_show_nat [of "CHR ''.'' # [digit_char (?t mod 10)]" "if neg then ''-'' else []"]
    by (simp add: num_char_def is_digit_def [of "CHR ''.''"])
qed

lemma emit_member_double: "emit_member k (JNum (fmt_1f v)) w = field_double k v w"
  by (simp add: field_double_def)

lemma emit_member_i64: "emit_member k (JNum (i64_text v)) w = field_i64 k v w"
  by (simp add: i64_text_def field_i64_def)

lemma emit_elem_str: "emit_elem (JStr s) = value_str s"
  by (simp add: fun_eq_iff)

lemmas emit_fields = emit_member_i64 field_nat_def field_int_def

section \<open>Reports\<close>

text \<open>
  What a report builder promises: the text it returns is the emission of a tree in which every
  value is one the writer can emit, and whose numbers are JSON numbers when the data are valid. What
  it then gets: the text is a JSON document that reads
  back as that tree, so two reports with the same text have the same contents.
\<close>

locale json_report =
  fixes tree :: "'a \<Rightarrow> jval" and valid :: "'a \<Rightarrow> bool" and report :: "bool \<Rightarrow> 'a \<Rightarrow> string"
  assumes report_emit: "report p x = emit p (tree x)"
    and tree_object: "\<exists>ms. tree x = JObj ms"
    and tree_emittable: "emittable (tree x)"
    and tree_nums: "valid x \<Longrightarrow> nums_ok (tree x)"
begin

lemma report_parses: "valid x \<Longrightarrow> json_parse (report p x) = Some (tree x)"
  using json_parse_emit [OF tree_emittable _ tree_nums, of x p] tree_object [of x]
  by (auto simp: report_emit)

lemma report_determines_tree: "valid x \<Longrightarrow> valid y \<Longrightarrow> report p x = report q y \<Longrightarrow> tree x = tree y"
  by (metis option.inject report_parses)

end

section \<open>The properties\<close>

text \<open>
  Escaping is lossless: for every byte string, reading the escaped text up to the closing
  quote gives the string back, control characters and quotes included.
\<close>

theorem json_escape_roundtrip: "read_string (json_escape s @ CHR 0x22 # t) = Some (s, t)"
  by (rule read_string_escape)

text \<open>
  C27: Every tree the writer can emit, in either style, reads back from the emitted document.
\<close>

theorem json_emit_roundtrip:
  assumes "emittable v" and "element v" and "nums_ok v"
  shows "json_parse (emit p v) = Some v"
  using json_parse_emit [OF assms] .

theorem json_emit_roundtrip_witness:
  "json_parse (emit True (JObj [(''a'', JArr [JStr [CHR 0x0A]]), (''b'', JNum ''-7.5'')])) =
     Some (JObj [(''a'', JArr [JStr [CHR 0x0A]]), (''b'', JNum ''-7.5'')])"
  by (rule json_emit_roundtrip) (simp_all add: num_text_def num_char_def is_digit_def num_int_def num_frac_def num_exp_def)

end
