(* ===== verification/Inventory.thy ===== *)
theory Inventory
  imports Json_Reader
begin

text \<open>
  The asset model of \<^verbatim>\<open>src/include/ns/inventory.hpp\<close> and \<^verbatim>\<open>src/src/inventory.cpp\<close>: the
  records of a host, folding the collectors' notes into the report, running every collector, and
  the JSON report. The platform's collectors and the clocks are arguments. The report implements
  the interface \<open>json_report\<close>: it is a JSON document that holds exactly the inventory.
\<close>

section \<open>The asset model\<close>

record host_info =
  hostname :: string
  os_name :: string
  os_version :: string
  kernel :: string
  arch :: string

record net_interface =
  if_name :: string
  mac :: string
  addresses :: "string list"
  up :: bool
  loopback :: bool

record listening_socket =
  proto :: string
  local_addr :: string
  local_port :: "16 word"
  sock_pid :: "64 word"
  process_name :: string
  world_reachable :: bool

record process_info =
  pid :: "64 word"
  ppid :: "64 word"
  proc_name :: string
  exe_path :: string
  user :: string

record package =
  pkg_name :: string
  pkg_version :: string
  pkg_vendor :: string
  pkg_source :: string

record inventory =
  agent_name :: string
  agent_version :: string
  agent_stage :: string
  inv_platform :: string
  collected_at_unix_ms :: "64 word"
  collect_duration_ms :: "64 word"
  host :: host_info
  interfaces :: "net_interface list"
  sockets :: "listening_socket list"
  processes :: "process_info list"
  packages :: "package list"
  warnings :: "string list"

definition kAgentName :: string where "kAgentName = ''nano-sensor''"
definition kAgentVersion :: string where "kAgentVersion = ''0.1.0''"
definition kAgentStage :: string where "kAgentStage = ''stage4-service''"

definition empty_host :: host_info where
  "empty_host = \<lparr>hostname = [], os_name = [], os_version = [], kernel = [], arch = []\<rparr>"

definition empty_inventory :: inventory where
  "empty_inventory = \<lparr>agent_name = [], agent_version = [], agent_stage = [], inv_platform = [],
     collected_at_unix_ms = 0, collect_duration_ms = 0, host = empty_host, interfaces = [],
     sockets = [], processes = [], packages = [], warnings = []\<rparr>"

section \<open>Collecting\<close>

record status =
  implemented :: bool
  st_warnings :: "string list"

text \<open>
  The compiled-in backend with its clocks: each collector returns what it filled in and its
  status.
\<close>

record platform =
  platform_name :: string
  collect_host :: "host_info \<times> status"
  collect_interfaces :: "net_interface list \<times> status"
  collect_listening_sockets :: "listening_socket list \<times> status"
  collect_processes :: "process_info list \<times> status"
  collect_packages :: "package list \<times> status"
  clock_unix_ms :: "64 word"
  clock_elapsed_ms :: "64 word"

text \<open>\<^verbatim>\<open>fold\<close> of the source: the notes of one collector, prefixed with its name.\<close>

definition fold_status :: "string \<Rightarrow> string list \<Rightarrow> string \<Rightarrow> status \<Rightarrow> string list" where
  "fold_status pname into collector st =
     (if \<not> implemented st then into @ [collector @ '': not implemented on '' @ pname @ '' yet'']
      else into @ map (\<lambda>w. collector @ '': '' @ w) (st_warnings st))"

definition collect_inventory :: "platform \<Rightarrow> inventory" where
  "collect_inventory pf =
     (let iv = empty_inventory\<lparr>agent_name := kAgentName, agent_version := kAgentVersion,
                  agent_stage := kAgentStage, inv_platform := platform_name pf,
                  collected_at_unix_ms := clock_unix_ms pf\<rparr>;
          (h, st) = collect_host pf;
          iv = iv\<lparr>host := h, warnings := fold_status (platform_name pf) (warnings iv) ''host'' st\<rparr>;
          (is, st) = collect_interfaces pf;
          iv = iv\<lparr>interfaces := is, warnings := fold_status (platform_name pf) (warnings iv) ''interfaces'' st\<rparr>;
          (ss, st) = collect_listening_sockets pf;
          iv = iv\<lparr>sockets := ss, warnings := fold_status (platform_name pf) (warnings iv) ''sockets'' st\<rparr>;
          (ps, st) = collect_processes pf;
          iv = iv\<lparr>processes := ps, warnings := fold_status (platform_name pf) (warnings iv) ''processes'' st\<rparr>;
          (ks, st) = collect_packages pf;
          iv = iv\<lparr>packages := ks, warnings := fold_status (platform_name pf) (warnings iv) ''packages'' st\<rparr>
      in iv\<lparr>collect_duration_ms := clock_elapsed_ms pf\<rparr>)"

section \<open>The report\<close>

definition interface_json :: "net_interface \<Rightarrow> json_writer \<Rightarrow> json_writer" where
  "interface_json i w =
     (let w = begin_object w;
          w = field_str ''name'' (if_name i) w;
          w = field_str ''mac'' (mac i) w;
          w = begin_array ''addresses'' w;
          w = fold value_str (addresses i) w;
          w = end_array w;
          w = field_bool ''up'' (up i) w;
          w = field_bool ''loopback'' (loopback i) w
      in end_object w)"

definition socket_json :: "listening_socket \<Rightarrow> json_writer \<Rightarrow> json_writer" where
  "socket_json s w =
     (let w = begin_object w;
          w = field_str ''proto'' (proto s) w;
          w = field_str ''local_addr'' (local_addr s) w;
          w = field_i64 ''local_port'' (ucast (local_port s)) w;
          w = (if 0 \<le> sint (sock_pid s) then field_i64 ''pid'' (sock_pid s) w else field_null ''pid'' w);
          w = field_str ''process_name'' (process_name s) w;
          w = field_bool ''world_reachable'' (world_reachable s) w
      in end_object w)"

definition process_json :: "process_info \<Rightarrow> json_writer \<Rightarrow> json_writer" where
  "process_json p w =
     (let w = begin_object w;
          w = field_i64 ''pid'' (pid p) w;
          w = field_i64 ''ppid'' (ppid p) w;
          w = field_str ''name'' (proc_name p) w;
          w = field_str ''exe_path'' (exe_path p) w;
          w = field_str ''user'' (user p) w
      in end_object w)"

definition package_json :: "package \<Rightarrow> json_writer \<Rightarrow> json_writer" where
  "package_json p w =
     (let w = begin_object w;
          w = field_str ''name'' (pkg_name p) w;
          w = field_str ''version'' (pkg_version p) w;
          w = field_str ''vendor'' (pkg_vendor p) w;
          w = field_str ''source'' (pkg_source p) w
      in end_object w)"

definition to_json :: "bool \<Rightarrow> inventory \<Rightarrow> string" where
  "to_json p iv =
     (let w = new_writer p;
          w = begin_object w;
          w = begin_object_key ''agent'' w;
          w = field_str ''name'' (agent_name iv) w;
          w = field_str ''version'' (agent_version iv) w;
          w = field_str ''stage'' (agent_stage iv) w;
          w = field_str ''platform'' (inv_platform iv) w;
          w = end_object w;
          w = field_i64 ''collected_at_unix_ms'' (collected_at_unix_ms iv) w;
          w = field_i64 ''collect_duration_ms'' (collect_duration_ms iv) w;
          w = begin_object_key ''host'' w;
          w = field_str ''hostname'' (hostname (host iv)) w;
          w = field_str ''os_name'' (os_name (host iv)) w;
          w = field_str ''os_version'' (os_version (host iv)) w;
          w = field_str ''kernel'' (kernel (host iv)) w;
          w = field_str ''arch'' (arch (host iv)) w;
          w = end_object w;
          w = end_array (fold interface_json (interfaces iv) (begin_array ''interfaces'' w));
          w = end_array (fold socket_json (sockets iv) (begin_array ''listening_sockets'' w));
          w = end_array (fold process_json (processes iv) (begin_array ''processes'' w));
          w = end_array (fold package_json (packages iv) (begin_array ''packages'' w));
          w = end_array (fold value_str (warnings iv) (begin_array ''warnings'' w));
          w = end_object w
      in out w)"

subsection \<open>The tree of an inventory\<close>

definition interface_tree :: "net_interface \<Rightarrow> jval" where
  "interface_tree i = JObj
     [(''name'', JStr (if_name i)), (''mac'', JStr (mac i)),
      (''addresses'', JArr (map JStr (addresses i))),
      (''up'', JBool (up i)), (''loopback'', JBool (loopback i))]"

definition socket_tree :: "listening_socket \<Rightarrow> jval" where
  "socket_tree s = JObj
     [(''proto'', JStr (proto s)), (''local_addr'', JStr (local_addr s)),
      (''local_port'', JNum (i64_text (ucast (local_port s)))),
      (''pid'', if 0 \<le> sint (sock_pid s) then JNum (i64_text (sock_pid s)) else JNull),
      (''process_name'', JStr (process_name s)), (''world_reachable'', JBool (world_reachable s))]"

definition process_tree :: "process_info \<Rightarrow> jval" where
  "process_tree p = JObj
     [(''pid'', JNum (i64_text (pid p))), (''ppid'', JNum (i64_text (ppid p))),
      (''name'', JStr (proc_name p)), (''exe_path'', JStr (exe_path p)), (''user'', JStr (user p))]"

definition package_tree :: "package \<Rightarrow> jval" where
  "package_tree p = JObj
     [(''name'', JStr (pkg_name p)), (''version'', JStr (pkg_version p)),
      (''vendor'', JStr (pkg_vendor p)), (''source'', JStr (pkg_source p))]"

definition inventory_tree :: "inventory \<Rightarrow> jval" where
  "inventory_tree iv = JObj
     [(''agent'', JObj [(''name'', JStr (agent_name iv)), (''version'', JStr (agent_version iv)),
         (''stage'', JStr (agent_stage iv)), (''platform'', JStr (inv_platform iv))]),
      (''collected_at_unix_ms'', JNum (i64_text (collected_at_unix_ms iv))),
      (''collect_duration_ms'', JNum (i64_text (collect_duration_ms iv))),
      (''host'', JObj [(''hostname'', JStr (hostname (host iv))), (''os_name'', JStr (os_name (host iv))),
         (''os_version'', JStr (os_version (host iv))), (''kernel'', JStr (kernel (host iv))),
         (''arch'', JStr (arch (host iv)))]),
      (''interfaces'', JArr (map interface_tree (interfaces iv))),
      (''listening_sockets'', JArr (map socket_tree (sockets iv))),
      (''processes'', JArr (map process_tree (processes iv))),
      (''packages'', JArr (map package_tree (packages iv))),
      (''warnings'', JArr (map JStr (warnings iv)))]"

lemma element_json:
  "emit_elem (interface_tree i) = interface_json i" "emit_elem (socket_tree s) = socket_json s"
  "emit_elem (process_tree p) = process_json p" "emit_elem (package_tree k) = package_json k"
  by (simp_all add: fun_eq_iff interface_tree_def interface_json_def socket_tree_def socket_json_def
      process_tree_def process_json_def package_tree_def package_json_def emit_member_i64
      fold_map comp_def emit_elem_str del: emit_member.simps(3))

interpretation inv_report: json_report inventory_tree "\<lambda>_. True" to_json
proof
  fix p iv
  show "to_json p iv = emit p (inventory_tree iv)"
    by (simp add: to_json_def emit_def inventory_tree_def emit_member_i64 fold_map comp_def
        emit_elem_str element_json del: emit_member.simps(3))
  show "\<exists>ms. inventory_tree iv = JObj ms" by (simp add: inventory_tree_def)
  show "emittable (inventory_tree iv)" "nums_ok (inventory_tree iv)"
    by (auto simp: inventory_tree_def interface_tree_def socket_tree_def process_tree_def package_tree_def)
qed

section \<open>The properties\<close>

text \<open>
  The report of an inventory is, in both styles, a JSON document that reads back as exactly
  the tree of that inventory: no field is lost, renamed or mangled, whatever bytes the
  collectors put into the strings.
\<close>

theorem inventory_report_roundtrip: "json_parse (to_json p iv) = Some (inventory_tree iv)"
  by (rule inv_report.report_parses) simp

end
