(* ===== verification/Cve.thy ===== *)
theory Cve
  imports Vercmp Inventory "HOL-Library.AList"
begin

text \<open>
  The vulnerability matcher, \<^verbatim>\<open>src/src/cve.cpp\<close>: loading the rule index and the alias table,
  reducing package names, resolving them to products, matching a package against the rules and
  scanning an inventory. Files are their contents, with \<^const>\<open>None\<close> for one that cannot be
  opened. What the language leaves open (the order in which a hash table is walked, the result of
  \<^verbatim>\<open>std::sort\<close> on equal elements) is an argument of type \<open>unspecified\<close>.
\<close>

section \<open>Lines, fields and tokens\<close>

text \<open>Repeated \<^verbatim>\<open>std::getline\<close>: a last empty field is not returned.\<close>

function getline_all :: "char \<Rightarrow> string \<Rightarrow> string list" where
  "getline_all c s =
     (if s = [] then []
      else takeWhile (\<lambda>x. x \<noteq> c) s # getline_all c (tl (dropWhile (\<lambda>x. x \<noteq> c) s)))"
  by pat_completeness auto
termination
proof (relation "measure (\<lambda>(c, s). length s)")
  show "((c, tl (dropWhile (\<lambda>x. x \<noteq> c) s)), c, s) \<in> measure (\<lambda>(c, s). length s)" if "s \<noteq> []" for c s
    using that length_dropWhile_le [of "\<lambda>x. x \<noteq> c" s] by (cases s) auto
qed simp

declare getline_all.simps [simp del]

abbreviation TAB :: char where "TAB \<equiv> CHR 0x09"
abbreviation NL :: char where "NL \<equiv> CHR 0x0A"

definition split_tabs :: "string \<Rightarrow> string list" where
  "split_tabs line = getline_all TAB line"

definition is_trim :: "char \<Rightarrow> bool" where
  "is_trim c \<longleftrightarrow> c \<in> {CHR '' '', CHR 0x09, CHR 0x0D, CHR 0x0A}"

definition trim :: "string \<Rightarrow> string" where
  "trim s = rev (dropWhile is_trim (rev (dropWhile is_trim s)))"

definition token_is_version :: "string \<Rightarrow> bool" where
  "token_is_version t =
     (let r = (if length t > 1 \<and> hd t = CHR ''v'' then tl t else t)
      in list_all (\<lambda>c. is_digit c \<or> c = CHR ''.'' \<or> c = CHR '','') r \<and> list_ex is_digit r)"

definition kNoise :: "string list" where
  "kNoise = [''x64'', ''x86'', ''amd64'', ''arm64'', ''win32'', ''win64'', ''64-bit'', ''32-bit'',
     ''(64-bit)'', ''(32-bit)'', ''en-us'', ''en_us'', ''bit'', ''edition'', ''-'']"

definition token_is_noise :: "string \<Rightarrow> bool" where
  "token_is_noise t \<longleftrightarrow> t \<in> set kNoise"

definition dnum :: "nat \<Rightarrow> cdouble" where
  "dnum n = Fin False (of_nat n)"

definition severity_bucket :: "string \<Rightarrow> cdouble \<Rightarrow> string" where
  "severity_bucket sev score =
     (if sev \<noteq> [] then map tolower sev
      else if dle (dnum 9) score then ''critical''
      else if dle (dnum 7) score then ''high''
      else if dle (dnum 4) score then ''medium''
      else if dless (dnum 0) score then ''low''
      else ''none'')"

text \<open>\<^verbatim>\<open>ss >> tok\<close> until it fails: the words between white space.\<close>

function stream_words :: "string \<Rightarrow> string list" where
  "stream_words s =
     (let t = dropWhile is_space s in
      if t = [] then [] else takeWhile (\<lambda>c. \<not> is_space c) t # stream_words (dropWhile (\<lambda>c. \<not> is_space c) t))"
  by pat_completeness auto
termination
proof (relation "measure length")
  show "(dropWhile (\<lambda>c. \<not> is_space c) t, s) \<in> measure length"
    if t_def: "t = dropWhile is_space s" and t_ne: "t \<noteq> []" for s t
  proof -
    obtain c r where t: "t = c # r" using t_ne by (cases t) auto
    then have "\<not> is_space c" using t_def t_ne hd_dropWhile [of is_space s] by simp
    have "length (dropWhile (\<lambda>c. \<not> is_space c) t) < length t"
      using t \<open>\<not> is_space c\<close> length_dropWhile_le [of "\<lambda>c. \<not> is_space c" r] by simp
    also have "length t \<le> length s" using t_def length_dropWhile_le by simp
    finally show ?thesis by simp
  qed
qed simp

declare stream_words.simps [simp del]

fun strip_brackets :: "nat \<Rightarrow> string \<Rightarrow> string" where
  "strip_brackets d [] = []"
| "strip_brackets d (c # s) =
     (if c = CHR ''('' \<or> c = CHR ''['' then strip_brackets (d + 1) s
      else if c = CHR '')'' \<or> c = CHR '']'' then strip_brackets (if d > 0 then d - 1 else d) s
      else if d > 0 then strip_brackets d s
      else tolower c # strip_brackets d s)"

definition join_words :: "string list \<Rightarrow> string" where
  "join_words ws = (case ws of [] \<Rightarrow> [] | w # r \<Rightarrow> w @ concat (map (\<lambda>x. CHR '' '' # x) r))"

definition normalize_name :: "string \<Rightarrow> string" where
  "normalize_name raw =
     (let lowered = strip_brackets 0 raw;
          keep = filter (\<lambda>tok. \<not> (token_is_version tok \<or> token_is_noise tok)) (stream_words lowered)
      in trim (join_words keep))"

section \<open>The index\<close>

record cve_rule =
  r_cve_id :: string
  r_vendor :: string
  r_product :: string
  r_version :: string
  start_incl :: string
  start_excl :: string
  end_incl :: string
  end_excl :: string
  r_score :: cdouble
  r_severity :: string
  r_cvss_version :: string

record finding =
  cve_id :: string
  package_name :: string
  package_version :: string
  matched_version :: string
  f_vendor :: string
  f_product :: string
  cvss_score :: cdouble
  cvss_severity :: string
  cvss_version :: string
  network_exposed :: bool

record scan_summary =
  packages_total :: nat
  packages_mapped :: nat
  packages_unmapped :: nat
  packages_no_version :: nat
  findings :: nat
  critical :: nat
  high :: nat
  medium :: nat
  low :: nat
  exposed_findings :: nat
  unmapped_names :: "string list"

record cve_index =
  by_product :: "(string \<times> cve_rule list) list"
  exact_aliases :: "(string \<times> string) list"
  prefixes :: "(string \<times> string) list"
  rule_count :: nat

definition empty_index :: cve_index where
  "empty_index = \<lparr>by_product = [], exact_aliases = [], prefixes = [], rule_count = 0\<rparr>"

definition product_count :: "cve_index \<Rightarrow> nat" where
  "product_count ix = length (by_product ix)"

definition alias_count :: "cve_index \<Rightarrow> nat" where
  "alias_count ix = length (exact_aliases ix) + length (prefixes ix)"

datatype load_error = Cannot_open | Index_empty | Unexpected_header

record unspecified =
  hash_order :: "(string \<times> finding) list \<Rightarrow> (string \<times> finding) list"
  sort_prefixes :: "(string \<times> string) list \<Rightarrow> (string \<times> string) list"
  sort_findings :: "finding list \<Rightarrow> finding list"

subsection \<open>Loading\<close>

definition rule_of_fields :: "string list \<Rightarrow> cve_rule" where
  "rule_of_fields c = \<lparr>r_cve_id = c ! 0, r_vendor = c ! 1, r_product = c ! 2, r_version = c ! 3,
     start_incl = c ! 5, start_excl = c ! 6, end_incl = c ! 7, end_excl = c ! 8,
     r_score = (if c ! 9 = [] then dnum 0 else strtod (c ! 9)),
     r_severity = c ! 10, r_cvss_version = c ! 11\<rparr>"

definition product_key :: "cve_rule \<Rightarrow> string" where
  "product_key r = r_vendor r @ '':'' @ r_product r"

definition add_rule :: "cve_rule \<Rightarrow> cve_index \<Rightarrow> cve_index" where
  "add_rule r ix =
     ix\<lparr>by_product := AList.update (product_key r)
           ((case map_of (by_product ix) (product_key r) of None \<Rightarrow> [] | Some rs \<Rightarrow> rs) @ [r]) (by_product ix),
        rule_count := rule_count ix + 1\<rparr>"

definition load_rule_line :: "string \<Rightarrow> cve_index \<Rightarrow> cve_index" where
  "load_rule_line line ix =
     (if line = [] \<or> hd line = CHR ''#'' then ix
      else let c = split_tabs line in
        if length c < 12 then ix else add_rule (rule_of_fields c) ix)"

definition rules_header :: string where
  "rules_header = ''cve_id'' @ [TAB] @ ''vendor'' @ [TAB] @ ''product'' @ [TAB] @ ''version''"

definition load_rules :: "string option \<Rightarrow> cve_index \<Rightarrow> (load_error + unit) \<times> cve_index" where
  "load_rules file ix =
     (case file of
        None \<Rightarrow> (Inl Cannot_open, ix)
      | Some txt \<Rightarrow>
          (case getline_all NL txt of
             [] \<Rightarrow> (Inl Index_empty, ix)
           | header # lines \<Rightarrow>
               if \<not> starts_with rules_header header then (Inl Unexpected_header, ix)
               else (Inr (), fold load_rule_line lines ix)))"

definition load_alias_line :: "string \<Rightarrow> cve_index \<Rightarrow> cve_index" where
  "load_alias_line line ix =
     (let line = trim line in
      if line = [] \<or> hd line = CHR ''#'' then ix
      else let c = split_tabs line in
        if length c < 4 then ix
        else let kind = trim (c ! 0); pattern = trim (c ! 1); target = trim (c ! 2) @ '':'' @ trim (c ! 3)
             in if kind = ''exact'' then ix\<lparr>exact_aliases := AList.update pattern target (exact_aliases ix)\<rparr>
                else if kind = ''prefix'' then ix\<lparr>prefixes := prefixes ix @ [(pattern, target)]\<rparr>
                else ix)"

definition load_aliases :: "unspecified \<Rightarrow> string option \<Rightarrow> cve_index \<Rightarrow> (load_error + unit) \<times> cve_index" where
  "load_aliases u file ix =
     (case file of
        None \<Rightarrow> (Inl Cannot_open, ix)
      | Some txt \<Rightarrow>
          let ix = fold load_alias_line (getline_all NL txt) ix
          in (Inr (), ix\<lparr>prefixes := sort_prefixes u (prefixes ix)\<rparr>))"

subsection \<open>Resolving names\<close>

definition split_target :: "string \<Rightarrow> string \<times> string" where
  "split_target target =
     (case find_char (CHR '':'') target of
        Some colon \<Rightarrow> (take colon target, drop (colon + 1) target)
      | None \<Rightarrow> (target, target))"

function drop_words :: "cve_index \<Rightarrow> string \<Rightarrow> (string \<times> string) option" where
  "drop_words ix trimmed =
     (case rfind_char (CHR '' '') trimmed of
        None \<Rightarrow> None
      | Some space \<Rightarrow>
          (case map_of (exact_aliases ix) (take space trimmed) of
             Some target \<Rightarrow> Some (split_target target)
           | None \<Rightarrow> drop_words ix (take space trimmed)))"
  by pat_completeness auto
termination
  by (relation "measure (\<lambda>(ix, s). length s)") (auto dest: rfind_char_SomeD)

declare drop_words.simps [simp del]

definition resolve :: "cve_index \<Rightarrow> string \<Rightarrow> (string \<times> string) option" where
  "resolve ix raw_name =
     (let norm = normalize_name raw_name in
      if norm = [] then None
      else case map_of (exact_aliases ix) norm of
        Some target \<Rightarrow> Some (split_target target)
      | None \<Rightarrow>
          (case List.find (\<lambda>(prefix, target). starts_with prefix norm) (prefixes ix) of
             Some (prefix, target) \<Rightarrow> Some (split_target target)
           | None \<Rightarrow> drop_words ix norm))"

subsection \<open>Matching\<close>

definition has_range :: "cve_rule \<Rightarrow> bool" where
  "has_range r \<longleftrightarrow> start_incl r \<noteq> [] \<or> start_excl r \<noteq> [] \<or> end_incl r \<noteq> [] \<or> end_excl r \<noteq> []"

definition rule_hit :: "string \<Rightarrow> cve_rule \<Rightarrow> bool" where
  "rule_hit v r =
     (if r_version r \<noteq> ''*'' \<and> r_version r \<noteq> ''-'' \<and> r_version r \<noteq> [] then version_compare v (r_version r) = 0
      else if has_range r then version_in_range v (start_incl r) (start_excl r) (end_incl r) (end_excl r)
      else True)"

definition make_finding :: "package \<Rightarrow> string \<Rightarrow> string \<Rightarrow> string \<Rightarrow> cve_rule \<Rightarrow> finding" where
  "make_finding pkg v vendor product r = \<lparr>cve_id = r_cve_id r, package_name = pkg_name pkg,
     package_version = pkg_version pkg, matched_version = v, f_vendor = vendor, f_product = product,
     cvss_score = r_score r, cvss_severity = severity_bucket (r_severity r) (r_score r),
     cvss_version = r_cvss_version r, network_exposed = False\<rparr>"

definition keep_best :: "finding \<Rightarrow> (string \<times> finding) list \<Rightarrow> (string \<times> finding) list" where
  "keep_best fnd best =
     (case map_of best (cve_id fnd) of
        None \<Rightarrow> AList.update (cve_id fnd) fnd best
      | Some old \<Rightarrow> if dless (cvss_score old) (cvss_score fnd) then AList.update (cve_id fnd) fnd best else best)"

definition match_package :: "unspecified \<Rightarrow> cve_index \<Rightarrow> package \<Rightarrow> finding list" where
  "match_package u ix pkg =
     (case resolve ix (pkg_name pkg) of
        None \<Rightarrow> []
      | Some (vendor, product) \<Rightarrow>
          if pkg_version pkg = [] then []
          else case map_of (by_product ix) (vendor @ '':'' @ product) of
            None \<Rightarrow> []
          | Some rules \<Rightarrow>
              let v = version_upstream_part (pkg_version pkg) in
              if v = [] then []
              else map snd (hash_order u
                     (fold (\<lambda>r best. if rule_hit v r then keep_best (make_finding pkg v vendor product r) best else best)
                        rules [])))"

section \<open>Scanning\<close>

definition empty_summary :: scan_summary where
  "empty_summary = \<lparr>packages_total = 0, packages_mapped = 0, packages_unmapped = 0,
     packages_no_version = 0, findings = 0, critical = 0, high = 0, medium = 0, low = 0,
     exposed_findings = 0, unmapped_names = []\<rparr>"

definition exposed_products :: "cve_index \<Rightarrow> listening_socket list \<Rightarrow> string set" where
  "exposed_products ix ss =
     fold (\<lambda>s acc.
             if \<not> world_reachable s \<or> process_name s = [] then acc
             else case resolve ix (process_name s) of
               None \<Rightarrow> acc
             | Some (vendor, product) \<Rightarrow> insert (vendor @ '':'' @ product) acc) ss {}"

definition scan_package ::
  "unspecified \<Rightarrow> cve_index \<Rightarrow> string set \<Rightarrow> package \<Rightarrow> finding list \<times> scan_summary \<Rightarrow> finding list \<times> scan_summary" where
  "scan_package u ix exposed pkg st =
     (let (all, summary) = st in
      case resolve ix (pkg_name pkg) of
        None \<Rightarrow>
          (all, summary\<lparr>packages_unmapped := packages_unmapped summary + 1,
                        unmapped_names := (if length (unmapped_names summary) < 50
                                           then unmapped_names summary @ [pkg_name pkg]
                                           else unmapped_names summary)\<rparr>)
      | Some (vendor, product) \<Rightarrow>
          let summary = summary\<lparr>packages_mapped := packages_mapped summary + 1\<rparr> in
          if pkg_version pkg = []
          then (all, summary\<lparr>packages_no_version := packages_no_version summary + 1\<rparr>)
          else (all @ map (\<lambda>f. f\<lparr>network_exposed := (vendor @ '':'' @ product \<in> exposed)\<rparr>) (match_package u ix pkg),
                summary))"

definition count_finding :: "finding \<Rightarrow> scan_summary \<Rightarrow> scan_summary" where
  "count_finding f summary =
     (let summary = (if cvss_severity f = ''critical'' then summary\<lparr>critical := critical summary + 1\<rparr>
                     else if cvss_severity f = ''high'' then summary\<lparr>high := high summary + 1\<rparr>
                     else if cvss_severity f = ''medium'' then summary\<lparr>medium := medium summary + 1\<rparr>
                     else if cvss_severity f = ''low'' then summary\<lparr>low := low summary + 1\<rparr>
                     else summary)
      in if network_exposed f then summary\<lparr>exposed_findings := exposed_findings summary + 1\<rparr> else summary)"

definition scan :: "unspecified \<Rightarrow> cve_index \<Rightarrow> inventory \<Rightarrow> scan_summary \<Rightarrow> finding list \<times> scan_summary" where
  "scan u ix iv summary =
     (let exposed = exposed_products ix (sockets iv);
          summary = summary\<lparr>packages_total := length (packages iv)\<rparr>;
          (all, summary) = fold (scan_package u ix exposed) (packages iv) ([], summary);
          all = sort_findings u all;
          summary = summary\<lparr>findings := length all\<rparr>
      in (all, fold count_finding all summary))"

text \<open>The comparator of the final sort: by score, then by id, both descending.\<close>

definition finding_before :: "finding \<Rightarrow> finding \<Rightarrow> bool" where
  "finding_before a b =
     (if \<not> deq (cvss_score a) (cvss_score b) then dless (cvss_score b) (cvss_score a)
      else cve_id b < cve_id a)"

definition longer_prefix :: "string \<times> string \<Rightarrow> string \<times> string \<Rightarrow> bool" where
  "longer_prefix a b \<longleftrightarrow> length (fst a) > length (fst b)"

section \<open>The report\<close>

definition finding_json :: "finding \<Rightarrow> json_writer \<Rightarrow> json_writer" where
  "finding_json f w =
     (let w = begin_object w;
          w = field_str ''cve'' (cve_id f) w;
          w = field_str ''package'' (package_name f) w;
          w = field_str ''installed_version'' (package_version f) w;
          w = field_str ''matched_version'' (matched_version f) w;
          w = field_str ''cpe_vendor'' (f_vendor f) w;
          w = field_str ''cpe_product'' (f_product f) w;
          w = field_double ''cvss_score'' (cvss_score f) w;
          w = field_str ''cvss_severity'' (cvss_severity f) w;
          w = field_str ''cvss_version'' (cvss_version f) w;
          w = field_bool ''network_exposed'' (network_exposed f) w
      in end_object w)"

definition findings_to_json :: "finding list \<Rightarrow> scan_summary \<Rightarrow> inventory \<Rightarrow> bool \<Rightarrow> string" where
  "findings_to_json fs summary iv p =
     (let w = new_writer p;
          w = begin_object w;
          w = begin_object_key ''agent'' w;
          w = field_str ''name'' kAgentName w;
          w = field_str ''version'' kAgentVersion w;
          w = field_str ''stage'' kAgentStage w;
          w = field_str ''platform'' (inv_platform iv) w;
          w = end_object w;
          w = field_str ''hostname'' (hostname (host iv)) w;
          w = field_str ''os_name'' (os_name (host iv)) w;
          w = field_i64 ''collected_at_unix_ms'' (collected_at_unix_ms iv) w;
          w = begin_object_key ''summary'' w;
          w = field_nat ''packages_total'' (packages_total summary) w;
          w = field_nat ''packages_mapped'' (packages_mapped summary) w;
          w = field_nat ''packages_unmapped'' (packages_unmapped summary) w;
          w = field_nat ''packages_no_version'' (packages_no_version summary) w;
          w = field_nat ''findings'' (findings summary) w;
          w = field_nat ''critical'' (critical summary) w;
          w = field_nat ''high'' (high summary) w;
          w = field_nat ''medium'' (medium summary) w;
          w = field_nat ''low'' (low summary) w;
          w = field_nat ''network_exposed_findings'' (exposed_findings summary) w;
          w = end_object w;
          w = end_array (fold finding_json fs (begin_array ''findings'' w));
          w = end_array (fold value_str (unmapped_names summary) (begin_array ''unmapped_packages'' w));
          w = end_object w
      in out w)"

end
