(* ===== verification/Cve_Match.thy ===== *)
theory Cve_Match
  imports Cve "HOL-Library.Multiset"
begin

text \<open>
  The correctness of the vulnerability matcher: what an index file loads to, which alias a name
  resolves to, which findings a package gets, and that the scan reports every one of them, in
  order, with a summary that adds up.
\<close>

section \<open>The order of scores\<close>

lemma not_dless: "a \<noteq> NaN \<Longrightarrow> b \<noteq> NaN \<Longrightarrow> \<not> dless a b \<longleftrightarrow> dle b a"
  by (cases a; cases b) (auto simp: dle_def)

lemma dle_refl [simp]: "a \<noteq> NaN \<Longrightarrow> dle a a"
  by (cases a) (auto simp: dle_def)

lemma dle_trans: "dle a b \<Longrightarrow> dle b c \<Longrightarrow> dle a c"
  by (cases a; cases b; cases c) (auto simp: dle_def)

lemma dless_imp_dle: "dless a b \<Longrightarrow> dle a b"
  by (simp add: dle_def)

text \<open>
  What the language promises of the unspecified parts: walking a hash table meets every entry
  once, and sorting returns a permutation in which no later element precedes an earlier one. The
  comparator of findings is a strict weak order only when no score is NaN.
\<close>

definition unspecified_ok :: "unspecified \<Rightarrow> bool" where
  "unspecified_ok u \<longleftrightarrow>
     (\<forall>b. mset (hash_order u b) = mset b) \<and>
     (\<forall>ps. mset (sort_prefixes u ps) = mset ps \<and>
            sorted_wrt (\<lambda>a b. \<not> longer_prefix b a) (sort_prefixes u ps)) \<and>
     (\<forall>fs. (\<forall>f \<in> set fs. cvss_score f \<noteq> NaN) \<longrightarrow>
            mset (sort_findings u fs) = mset fs \<and>
            sorted_wrt (\<lambda>a b. \<not> finding_before b a) (sort_findings u fs))"

text \<open>An instance: the tables in insertion order, insertion sort.\<close>

definition insert_before :: "('a \<Rightarrow> 'a \<Rightarrow> bool) \<Rightarrow> 'a \<Rightarrow> 'a list \<Rightarrow> 'a list" where
  "insert_before lt x xs = takeWhile (\<lambda>y. \<not> lt x y) xs @ x # dropWhile (\<lambda>y. \<not> lt x y) xs"

definition insertion_sort :: "('a \<Rightarrow> 'a \<Rightarrow> bool) \<Rightarrow> 'a list \<Rightarrow> 'a list" where
  "insertion_sort lt xs = fold (insert_before lt) xs []"

definition stable_library :: unspecified where
  "stable_library = \<lparr>hash_order = (\<lambda>b. b), sort_prefixes = insertion_sort longer_prefix,
     sort_findings = insertion_sort finding_before\<rparr>"

lemma mset_insert_before: "mset (insert_before lt x xs) = add_mset x (mset xs)"
proof -
  have "mset (takeWhile P xs) + mset (dropWhile P xs) = mset xs" for P
    by (metis mset_append takeWhile_dropWhile_id)
  then show ?thesis by (simp add: insert_before_def)
qed

lemma mset_insertion_sort: "mset (insertion_sort lt xs) = mset xs"
proof -
  have "mset (fold (insert_before lt) xs acc) = mset xs + mset acc" for acc
    by (induction xs arbitrary: acc) (simp_all add: mset_insert_before)
  then show ?thesis by (simp add: insertion_sort_def)
qed

lemma sorted_insert_before:
  assumes asym: "\<And>a b. lt a b \<Longrightarrow> \<not> lt b a"
    and trans: "\<And>a b c. a \<in> A \<Longrightarrow> b \<in> A \<Longrightarrow> c \<in> A \<Longrightarrow> \<not> lt b a \<Longrightarrow> \<not> lt c b \<Longrightarrow> \<not> lt c a"
    and "sorted_wrt (\<lambda>a b. \<not> lt b a) xs" and "insert x (set xs) \<subseteq> A"
  shows "sorted_wrt (\<lambda>a b. \<not> lt b a) (insert_before lt x xs)"
  using assms(3, 4)
proof (induction xs)
  case (Cons y ys)
  then have IH: "sorted_wrt (\<lambda>a b. \<not> lt b a) (insert_before lt x ys)" by simp
  have set_ib: "set (insert_before lt x ys) = insert x (set ys)"
    using mset_insert_before [of lt x ys] by (metis set_mset_add_mset_insert set_mset_mset)
  show ?case
  proof (cases "lt x y")
    case True
    then have "\<not> lt z x" if "z \<in> set (y # ys)" for z
      using that Cons.prems asym [OF True] trans [of x y z] by auto
    then show ?thesis using True Cons.prems(1) by (simp add: insert_before_def)
  next
    case False
    then show ?thesis using IH Cons.prems(1) set_ib by (simp add: insert_before_def)
  qed
qed (simp add: insert_before_def)

lemma sorted_insertion_sort:
  assumes asym: "\<And>a b. lt a b \<Longrightarrow> \<not> lt b a"
    and trans: "\<And>a b c. a \<in> set xs \<Longrightarrow> b \<in> set xs \<Longrightarrow> c \<in> set xs \<Longrightarrow> \<not> lt b a \<Longrightarrow> \<not> lt c b \<Longrightarrow> \<not> lt c a"
  shows "sorted_wrt (\<lambda>a b. \<not> lt b a) (insertion_sort lt xs)"
proof -
  have "sorted_wrt (\<lambda>a b. \<not> lt b a) (fold (insert_before lt) ys acc)"
    if "sorted_wrt (\<lambda>a b. \<not> lt b a) acc" "set ys \<union> set acc \<subseteq> set xs" for ys acc
    using that
  proof (induction ys arbitrary: acc)
    case (Cons y ys)
    have "set (insert_before lt y acc) = insert y (set acc)"
      using mset_insert_before [of lt y acc] by (metis set_mset_add_mset_insert set_mset_mset)
    with Cons show ?case using sorted_insert_before [OF asym trans, where xs = acc and x = y and A = "set xs"] by simp
  qed simp
  then show ?thesis by (simp add: insertion_sort_def)
qed

lemma dless_asym: "dless a b \<Longrightarrow> \<not> dless b a"
  by (cases a; cases b) auto

lemma finding_before_asym: "finding_before a b \<Longrightarrow> \<not> finding_before b a"
proof -
  have "deq x y = deq y x" for x y by (cases x; cases y) auto
  then show "finding_before a b \<Longrightarrow> \<not> finding_before b a"
    using dless_asym by (auto simp: finding_before_def split: if_splits)
qed

lemma not_finding_before:
  "cvss_score a \<noteq> NaN \<Longrightarrow> cvss_score b \<noteq> NaN \<Longrightarrow>
     \<not> finding_before b a \<longleftrightarrow> dless (cvss_score b) (cvss_score a) \<or> deq (cvss_score a) (cvss_score b) \<and> cve_id b \<le> cve_id a"
  by (cases "cvss_score a"; cases "cvss_score b") (auto simp: finding_before_def)

lemma stable_library_ok: "unspecified_ok stable_library"
proof -
  have "sorted_wrt (\<lambda>a b. \<not> finding_before b a) (insertion_sort finding_before fs)"
    if nan: "\<forall>f \<in> set fs. cvss_score f \<noteq> NaN" for fs
  proof (rule sorted_insertion_sort [OF finding_before_asym])
    fix a b c assume "a \<in> set fs" "b \<in> set fs" "c \<in> set fs" and ab: "\<not> finding_before b a" "\<not> finding_before c b"
    then have n: "cvss_score a \<noteq> NaN" "cvss_score b \<noteq> NaN" "cvss_score c \<noteq> NaN" using nan by auto
    then show "\<not> finding_before c a"
      using ab by (cases "cvss_score a"; cases "cvss_score b"; cases "cvss_score c") (auto simp: not_finding_before)
  qed
  moreover have "sorted_wrt (\<lambda>a b. \<not> longer_prefix b a) (insertion_sort longer_prefix ps)" for ps
    by (rule sorted_insertion_sort) (auto simp: longer_prefix_def)
  ultimately show ?thesis by (simp add: unspecified_ok_def stable_library_def mset_insertion_sort)
qed

section \<open>The best hit of each advisory\<close>

definition dominates :: "finding list \<Rightarrow> finding \<Rightarrow> bool" where
  "dominates fs f \<longleftrightarrow> f \<in> set fs \<and> (\<forall>g \<in> set fs. cve_id g = cve_id f \<longrightarrow> dle (cvss_score g) (cvss_score f))"

definition best_for :: "finding list \<Rightarrow> (string \<times> finding) list \<Rightarrow> bool" where
  "best_for fs B \<longleftrightarrow>
     distinct (map fst B) \<and> (\<forall>q \<in> set B. cve_id (snd q) = fst q \<and> dominates fs (snd q)) \<and>
     cve_id ` set fs \<subseteq> fst ` set B"

lemma set_update_distinct:
  "distinct (map fst B) \<Longrightarrow> set (AList.update k v B) = insert (k, v) {p \<in> set B. fst p \<noteq> k}"
  by (induction B) (auto simp: image_iff)

lemma dominates_snoc:
  "dominates fs g \<Longrightarrow> cve_id g = cve_id f \<longrightarrow> dle (cvss_score f) (cvss_score g) \<Longrightarrow> dominates (fs @ [f]) g"
  by (auto simp: dominates_def)

lemma best_for_update:
  assumes "best_for fs B" and "dominates (fs @ [f]) f"
  shows "best_for (fs @ [f]) (AList.update (cve_id f) f B)"
proof -
  have dist: "distinct (map fst B)" and sub: "cve_id ` set fs \<subseteq> fst ` set B" using assms(1) by (simp_all add: best_for_def)
  have dom: "cve_id (snd q) = fst q \<and> dominates fs (snd q)" if "q \<in> set B" for q
    using assms(1) that by (simp add: best_for_def)
  have "cve_id (snd q) = fst q \<and> dominates (fs @ [f]) (snd q)" if "q \<in> set (AList.update (cve_id f) f B)" for q
    using that assms(2) dom [of q] dominates_snoc [of fs "snd q" f] by (auto simp: set_update_distinct [OF dist])
  moreover have "fst ` set (AList.update (cve_id f) f B) = insert (cve_id f) (fst ` set B)"
    by (auto simp: set_update_distinct [OF dist])
  ultimately show ?thesis
    using dist sub by (auto simp: best_for_def distinct_update)
qed

lemma best_for_keep:
  assumes B: "best_for fs B" and "cvss_score f \<noteq> NaN" and "\<forall>g \<in> set fs. cvss_score g \<noteq> NaN"
  shows "best_for (fs @ [f]) (keep_best f B)"
proof (cases "map_of B (cve_id f)")
  case None
  then have "cve_id f \<notin> fst ` set B" by (simp add: map_of_eq_None_iff)
  then have "cve_id f \<notin> cve_id ` set fs" using B by (auto simp: best_for_def)
  then have "\<forall>g \<in> set fs. cve_id g \<noteq> cve_id f" by (metis image_eqI)
  then have "dominates (fs @ [f]) f" using assms(2) by (auto simp: dominates_def)
  then show ?thesis using best_for_update [OF B] None by (simp add: keep_best_def)
next
  case (Some old)
  then have old: "(cve_id f, old) \<in> set B" by (rule map_of_SomeD)
  then have o: "cve_id old = cve_id f" "dominates fs old" using B by (auto simp: best_for_def)
  show ?thesis
  proof (cases "dless (cvss_score old) (cvss_score f)")
    case True
    then have "dle (cvss_score old) (cvss_score f)" by (rule dless_imp_dle)
    then have "dominates (fs @ [f]) f"
      using o dle_trans [of _ "cvss_score old" "cvss_score f"] assms(2) by (auto simp: dominates_def)
    then show ?thesis using best_for_update [OF B] Some True by (simp add: keep_best_def)
  next
    case False
    then have low: "dle (cvss_score f) (cvss_score old)"
      using not_dless [of "cvss_score old" "cvss_score f"] assms(2, 3) o(2) by (simp add: dominates_def)
    have "dominates (fs @ [f]) (snd q)" if q: "q \<in> set B" for q
    proof -
      have "snd q = old" if "cve_id (snd q) = cve_id f"
        using that q old B by (metis best_for_def eq_key_imp_eq_value prod.collapse)
      then show ?thesis using B q low dominates_snoc [of fs "snd q" f] by (auto simp: best_for_def)
    qed
    moreover have "cve_id f \<in> fst ` set B" using old by force
    ultimately show ?thesis using B Some False by (simp add: best_for_def keep_best_def)
  qed
qed

lemma best_for_fold: "\<forall>g \<in> set fs. cvss_score g \<noteq> NaN \<Longrightarrow> best_for fs (fold keep_best fs [])"
proof (induction fs rule: rev_induct)
  case (snoc f fs)
  then show ?case using best_for_keep [of fs "fold keep_best fs []" f] by simp
qed (simp add: best_for_def)

definition hits :: "package \<Rightarrow> string \<Rightarrow> string \<Rightarrow> string \<Rightarrow> cve_rule list \<Rightarrow> finding list" where
  "hits pkg v vendor product rules = map (make_finding pkg v vendor product) (filter (rule_hit v) rules)"

lemma fold_hits:
  "fold (\<lambda>r best. if rule_hit v r then keep_best (make_finding pkg v ven prd r) best else best) rules B =
     fold keep_best (hits pkg v ven prd rules) B"
  by (induction rules arbitrary: B) (simp_all add: hits_def)

lemma match_package_fold:
  assumes "resolve ix (pkg_name pkg) = Some (ven, prd)" and "pkg_version pkg \<noteq> []"
    and "map_of (by_product ix) (ven @ '':'' @ prd) = Some rules"
    and "version_upstream_part (pkg_version pkg) = v" and "v \<noteq> []"
  shows "match_package u ix pkg = map snd (hash_order u (fold keep_best (hits pkg v ven prd rules) []))"
  using assms by (simp add: match_package_def Let_def fold_hits)

lemma best_for_order:
  assumes "best_for fs B" and "mset B' = mset B"
  shows "distinct (map cve_id (map snd B'))" and "set (map snd B') = snd ` set B"
proof -
  have "map cve_id (map snd B) = map fst B" using assms(1) by (auto simp: best_for_def)
  then have "mset (map cve_id (map snd B')) = mset (map fst B)"
    using assms(2) by (metis mset_map)
  then show "distinct (map cve_id (map snd B'))"
    using assms(1) mset_eq_imp_distinct_iff by (metis best_for_def)
  show "set (map snd B') = snd ` set B" using mset_eq_setD [OF assms(2)] by simp
qed

lemma match_package_hits:
  assumes "unspecified_ok u" and "resolve ix (pkg_name pkg) = Some (ven, prd)" and "pkg_version pkg \<noteq> []"
    and "map_of (by_product ix) (ven @ '':'' @ prd) = Some rules"
    and "version_upstream_part (pkg_version pkg) = v" and "v \<noteq> []"
    and nan: "\<forall>r \<in> set rules. r_score r \<noteq> NaN"
  shows "distinct (map cve_id (match_package u ix pkg))"
    and "f \<in> set (match_package u ix pkg) \<Longrightarrow>
      dominates (hits pkg v ven prd rules) f"
    and "cve_id ` set (match_package u ix pkg) = cve_id ` set (hits pkg v ven prd rules)"
proof -
  let ?B = "fold keep_best (hits pkg v ven prd rules) []"
  have B: "best_for (hits pkg v ven prd rules) ?B"
    using nan by (intro best_for_fold) (auto simp: hits_def make_finding_def)
  have m: "mset (hash_order u ?B) = mset ?B" using assms(1) by (simp add: unspecified_ok_def)
  note mp = match_package_fold [OF assms(2-6), of u]
  show "distinct (map cve_id (match_package u ix pkg))" using best_for_order(1) [OF B m] mp by simp
  have s: "set (match_package u ix pkg) = snd ` set ?B" using best_for_order(2) [OF B m] mp by simp
  show "f \<in> set (match_package u ix pkg) \<Longrightarrow>
      dominates (hits pkg v ven prd rules) f"
    using B unfolding s best_for_def by auto
  have "cve_id (snd q) = fst q \<and> snd q \<in> set (hits pkg v ven prd rules)" if "q \<in> set ?B" for q
    using B that by (simp add: best_for_def dominates_def)
  then have "cve_id ` snd ` set ?B = fst ` set ?B" "snd ` set ?B \<subseteq> set (hits pkg v ven prd rules)"
    by (simp_all add: image_image image_subset_iff)
  then show "cve_id ` set (match_package u ix pkg) = cve_id ` set (hits pkg v ven prd rules)"
    using B unfolding s best_for_def by (metis (no_types, lifting) image_mono subset_antisym)
qed

section \<open>Resolving names\<close>

lemma split_target_vendor: "split_target t = (v, p) \<Longrightarrow> CHR '':'' \<notin> set v"
proof (cases "find_char (CHR '':'') t")
  case (Some i)
  have "find_char c s = Some i \<Longrightarrow> c \<notin> set (take i s)" for c s i
    by (induction s arbitrary: i) (auto split: if_splits)
  with Some show "split_target t = (v, p) \<Longrightarrow> CHR '':'' \<notin> set v" by (auto simp: split_target_def)
qed (simp add: split_target_def)

definition space_at :: "string \<Rightarrow> nat \<Rightarrow> bool" where
  "space_at s i \<longleftrightarrow> i < length s \<and> s ! i = CHR '' ''"

text \<open>\<open>i\<close> ends the longest proper word prefix of \<open>s\<close> that is an alias.\<close>

definition longest_alias :: "cve_index \<Rightarrow> string \<Rightarrow> nat \<Rightarrow> bool" where
  "longest_alias ix s i \<longleftrightarrow>
     space_at s i \<and> map_of (exact_aliases ix) (take i s) \<noteq> None \<and>
     (\<forall>j > i. space_at s j \<longrightarrow> map_of (exact_aliases ix) (take j s) = None)"

lemma rfind_space:
  assumes "rfind_char (CHR '' '') s = Some k"
  shows "space_at s k" and "space_at s j \<Longrightarrow> j \<le> k"
proof -
  have k: "k < length s" "s ! k = CHR '' ''" "CHR '' '' \<notin> set (drop (Suc k) s)"
    using rfind_char_SomeD [OF assms] by simp_all
  show "space_at s k" using k by (simp add: space_at_def)
  show "j \<le> k" if "space_at s j"
  proof (rule ccontr)
    assume "\<not> j \<le> k"
    then have "s ! j \<in> set (drop (Suc k) s)"
      using that by (auto simp: space_at_def in_set_conv_nth intro!: exI [of _ "j - Suc k"])
    with that k(3) show False by (simp add: space_at_def)
  qed
qed

lemma longest_alias_take:
  assumes "rfind_char (CHR '' '') s = Some k" and "map_of (exact_aliases ix) (take k s) = None"
  shows "longest_alias ix s i \<longleftrightarrow> longest_alias ix (take k s) i"
proof -
  note k = rfind_space [OF assms(1)]
  have sp: "space_at (take k s) j \<longleftrightarrow> space_at s j \<and> j < k" for j
    using k(1) by (auto simp: space_at_def)
  have tk: "take j (take k s) = take j s" if "j < k" for j using that by (simp add: min_def)
  have lt: "j = k \<or> j < k" if "space_at s j" for j using k(2) [OF that] by linarith
  show ?thesis
    unfolding longest_alias_def sp using lt tk assms(2) by metis
qed

lemma drop_words_longest:
  "drop_words ix s = Some vp \<longleftrightarrow>
     (\<exists>i. longest_alias ix s i \<and> vp = split_target (the (map_of (exact_aliases ix) (take i s))))"
proof (induction ix s rule: drop_words.induct)
  case (1 ix s)
  show ?case
  proof (cases "rfind_char (CHR '' '') s")
    case None
    then have "\<not> space_at s i" for i by (auto simp: space_at_def in_set_conv_nth)
    with None show ?thesis by (simp add: drop_words.simps [of ix s] longest_alias_def)
  next
    case k: (Some k)
    show ?thesis
    proof (cases "map_of (exact_aliases ix) (take k s)")
      case t: (Some t)
      have "longest_alias ix s i \<longleftrightarrow> i = k" for i
        using rfind_space [OF k] t unfolding longest_alias_def
        by (metis le_neq_implies_less leD option.distinct(1))
      then show ?thesis using k t by (auto simp: drop_words.simps [of ix s])
    next
      case None
      have "longest_alias ix (take k s) i \<Longrightarrow> i < k" for i by (simp add: longest_alias_def space_at_def)
      then have "longest_alias ix (take k s) i \<Longrightarrow> take i (take k s) = take i s" for i by (simp add: min.absorb1 less_imp_le)
      then have "(\<exists>i. longest_alias ix s i \<and> vp = split_target (the (map_of (exact_aliases ix) (take i s)))) \<longleftrightarrow>
          (\<exists>i. longest_alias ix (take k s) i \<and> vp = split_target (the (map_of (exact_aliases ix) (take i (take k s)))))"
        unfolding longest_alias_take [OF k None] by metis
      moreover have "drop_words ix s = drop_words ix (take k s)"
        using k None by (simp add: drop_words.simps [of ix s])
      ultimately show ?thesis using 1 [OF k None] by simp
    qed
  qed
qed

lemma resolve_vendor_no_colon: "resolve ix n = Some (v, p) \<Longrightarrow> CHR '':'' \<notin> set v"
  by (auto simp: resolve_def drop_words_longest Let_def split: if_splits option.splits dest: split_target_vendor split_target_vendor [OF sym])

lemma product_key_inj:
  "CHR '':'' \<notin> set v \<Longrightarrow> CHR '':'' \<notin> set v' \<Longrightarrow> v @ '':'' @ p = v' @ '':'' @ p' \<longleftrightarrow> v = v' \<and> p = p'"
proof (induction v arbitrary: v')
  case Nil then show ?case by (cases v') auto
next
  case (Cons c v) then show ?case by (cases v') auto
qed

lemma find_sorted:
  assumes "sorted_wrt R xs" and "x \<in> set xs" and "P x"
  obtains y where "List.find P xs = Some y" "y \<in> set xs" "P y" "\<forall>z \<in> set xs. P z \<longrightarrow> z = y \<or> R y z"
  using assms
proof (induction xs arbitrary: thesis)
  case (Cons a xs)
  show ?case
  proof (cases "P a")
    case True
    then show ?thesis using Cons.prems by simp
  next
    case False
    then obtain y where "List.find P xs = Some y" "y \<in> set xs" "P y" "\<forall>z \<in> set xs. P z \<longrightarrow> z = y \<or> R y z"
      using Cons by (metis set_ConsD sorted_wrt.simps(2))
    then show ?thesis using False Cons.prems(1) by simp
  qed
qed simp

section \<open>The scan\<close>

definition package_findings :: "unspecified \<Rightarrow> cve_index \<Rightarrow> string set \<Rightarrow> package \<Rightarrow> finding list" where
  "package_findings u ix exposed pkg =
     (case resolve ix (pkg_name pkg) of
        None \<Rightarrow> []
      | Some (vendor, product) \<Rightarrow>
          map (\<lambda>f. f\<lparr>network_exposed := (vendor @ '':'' @ product \<in> exposed)\<rparr>) (match_package u ix pkg))"

definition unmapped :: "cve_index \<Rightarrow> package list \<Rightarrow> package list" where
  "unmapped ix ps = filter (\<lambda>p. resolve ix (pkg_name p) = None) ps"

definition mapped :: "cve_index \<Rightarrow> package list \<Rightarrow> package list" where
  "mapped ix ps = filter (\<lambda>p. resolve ix (pkg_name p) \<noteq> None) ps"

lemma fold_scan_package:
  "length (unmapped_names sm) \<le> 50 \<Longrightarrow>
   fold (scan_package u ix ex) ps (all, sm) =
     (all @ concat (map (package_findings u ix ex) ps),
      sm\<lparr>packages_mapped := packages_mapped sm + length (mapped ix ps),
         packages_unmapped := packages_unmapped sm + length (unmapped ix ps),
         packages_no_version := packages_no_version sm + length (filter (\<lambda>p. pkg_version p = []) (mapped ix ps)),
         unmapped_names := take 50 (unmapped_names sm @ map pkg_name (unmapped ix ps))\<rparr>)"
proof (induction ps arbitrary: all sm)
  case Nil
  then show ?case by (cases sm) (simp add: mapped_def unmapped_def)
next
  case (Cons p ps)
  show ?case
  proof (cases "resolve ix (pkg_name p)")
    case None
    have "take 50 (take 50 xs @ ys) = take 50 (xs @ ys)" for xs ys :: "string list" by (cases "length xs \<le> 50") simp_all
    moreover have "scan_package u ix ex p (all, sm) =
      (all, sm\<lparr>packages_unmapped := packages_unmapped sm + 1,
               unmapped_names := take 50 (unmapped_names sm @ [pkg_name p])\<rparr>)"
      using None Cons.prems by (auto simp: scan_package_def)
    ultimately show ?thesis
      using None by (simp add: Cons.IH mapped_def unmapped_def package_findings_def del: take_append)
  next
    case (Some vp)
    moreover have "scan_package u ix ex p (all, sm) =
      (all @ package_findings u ix ex p,
       sm\<lparr>packages_mapped := packages_mapped sm + 1,
          packages_no_version := packages_no_version sm + (if pkg_version p = [] then 1 else 0)\<rparr>)"
      using Some
      by (cases vp; cases sm) (auto simp: scan_package_def package_findings_def match_package_def)
    ultimately show ?thesis
      using Cons.prems by (simp add: Cons.IH mapped_def unmapped_def)
  qed
qed

definition with_severity :: "string \<Rightarrow> finding list \<Rightarrow> nat" where
  "with_severity s fs = length (filter (\<lambda>f. cvss_severity f = s) fs)"

lemma fold_count_finding:
  "fold count_finding fs sm =
     sm\<lparr>critical := critical sm + with_severity ''critical'' fs, high := high sm + with_severity ''high'' fs,
        medium := medium sm + with_severity ''medium'' fs, low := low sm + with_severity ''low'' fs,
        exposed_findings := exposed_findings sm + length (filter network_exposed fs)\<rparr>"
proof (induction fs arbitrary: sm)
  case Nil then show ?case by (cases sm) (simp add: with_severity_def)
next
  case (Cons f fs)
  have "count_finding f sm =
     sm\<lparr>critical := critical sm + with_severity ''critical'' [f], high := high sm + with_severity ''high'' [f],
        medium := medium sm + with_severity ''medium'' [f], low := low sm + with_severity ''low'' [f],
        exposed_findings := exposed_findings sm + length (filter network_exposed [f])\<rparr>"
    by (cases sm) (simp add: count_finding_def with_severity_def)
  then show ?case by (simp add: Cons.IH with_severity_def)
qed

lemma exposed_products_iff:
  "k \<in> exposed_products ix ss \<longleftrightarrow>
     (\<exists>s \<in> set ss. \<exists>v p. world_reachable s \<and> process_name s \<noteq> [] \<and>
        resolve ix (process_name s) = Some (v, p) \<and> k = v @ '':'' @ p)"
proof -
  let ?f = "\<lambda>s acc. if \<not> world_reachable s \<or> process_name s = [] then acc
             else case resolve ix (process_name s) of
               None \<Rightarrow> acc
             | Some (vendor, product) \<Rightarrow> insert (vendor @ '':'' @ product) acc"
  have "k \<in> fold ?f ss acc \<longleftrightarrow> k \<in> acc \<or>
     (\<exists>s \<in> set ss. \<exists>v p. world_reachable s \<and> process_name s \<noteq> [] \<and>
        resolve ix (process_name s) = Some (v, p) \<and> k = v @ '':'' @ p)" for acc
    by (induction ss arbitrary: acc) (auto split: if_splits option.splits)
  then show ?thesis by (simp add: exposed_products_def)
qed

definition exposed :: "cve_index \<Rightarrow> inventory \<Rightarrow> string \<times> string \<Rightarrow> bool" where
  "exposed ix iv vp \<longleftrightarrow>
     (\<exists>s \<in> set (sockets iv). world_reachable s \<and> process_name s \<noteq> [] \<and> resolve ix (process_name s) = Some vp)"

lemma exposed_products_resolve:
  assumes "resolve ix n = Some (v, p)"
  shows "v @ '':'' @ p \<in> exposed_products ix (sockets iv) \<longleftrightarrow> exposed ix iv (v, p)"
  using assms product_key_inj resolve_vendor_no_colon unfolding exposed_products_iff exposed_def by metis

lemma scan_eq:
  "scan u ix iv empty_summary =
     (let fs = sort_findings u (concat (map (package_findings u ix (exposed_products ix (sockets iv))) (packages iv)));
          ps = packages iv
      in (fs, \<lparr>packages_total = length ps, packages_mapped = length (mapped ix ps),
           packages_unmapped = length (unmapped ix ps),
           packages_no_version = length (filter (\<lambda>p. pkg_version p = []) (mapped ix ps)),
           findings = length fs, critical = with_severity ''critical'' fs, high = with_severity ''high'' fs,
           medium = with_severity ''medium'' fs, low = with_severity ''low'' fs,
           exposed_findings = length (filter network_exposed fs),
           unmapped_names = take 50 (map pkg_name (unmapped ix ps))\<rparr>))"
  by (simp add: scan_def empty_summary_def fold_scan_package fold_count_finding Let_def)

lemma deq_sym: "deq a b = deq b a"
  by (cases a; cases b) auto

lemma match_package_scores:
  assumes "unspecified_ok u" and "\<forall>(k, rs) \<in> set (by_product ix). \<forall>r \<in> set rs. r_score r \<noteq> NaN"
    and f: "f \<in> set (match_package u ix pkg)"
  shows "cvss_score f \<noteq> NaN"
proof -
  obtain ven prd where r: "resolve ix (pkg_name pkg) = Some (ven, prd)"
    using f by (cases "resolve ix (pkg_name pkg)") (auto simp: match_package_def)
  obtain rules where rs: "map_of (by_product ix) (ven @ '':'' @ prd) = Some rules"
    using f r by (cases "map_of (by_product ix) (ven @ '':'' @ prd)") (auto simp: match_package_def split: if_splits)
  have v: "pkg_version pkg \<noteq> []" "version_upstream_part (pkg_version pkg) \<noteq> []"
    using f r rs by (auto simp: match_package_def split: if_splits)
  have nan: "\<forall>r \<in> set rules. r_score r \<noteq> NaN" using assms(2) map_of_SomeD [OF rs] by auto
  show ?thesis
    using match_package_hits(2) [OF assms(1) r v(1) rs refl v(2) nan f] nan by (auto simp: dominates_def hits_def make_finding_def)
qed

lemma with_severity_sum:
  "length (filter (\<lambda>f. cvss_severity f = ''critical'') fs) + length (filter (\<lambda>f. cvss_severity f = ''high'') fs) +
   length (filter (\<lambda>f. cvss_severity f = ''medium'') fs) + length (filter (\<lambda>f. cvss_severity f = ''low'') fs) \<le> length fs"
  by (induction fs) auto

section \<open>Reading index files\<close>

fun tsv_line :: "string list \<Rightarrow> string" where
  "tsv_line [] = []"
| "tsv_line [f] = f"
| "tsv_line (f # fs) = f @ TAB # tsv_line fs"

definition file_lines :: "string list \<Rightarrow> string" where
  "file_lines ls = concat (map (\<lambda>l. l @ [NL]) ls)"

lemma getline_all_Nil [simp]: "getline_all c [] = []"
  by (simp add: getline_all.simps)

lemma getline_all_sep: "c \<notin> set f \<Longrightarrow> getline_all c (f @ c # s) = f # getline_all c s"
proof -
  assume "c \<notin> set f"
  then have "takeWhile (\<lambda>x. x \<noteq> c) (f @ c # s) = f" "dropWhile (\<lambda>x. x \<noteq> c) (f @ c # s) = c # s"
    by (auto simp: takeWhile_append dropWhile_append)
  then show ?thesis by (simp add: getline_all.simps [of c "f @ c # s"])
qed

lemma getline_all_last: "c \<notin> set f \<Longrightarrow> f \<noteq> [] \<Longrightarrow> getline_all c f = [f]"
proof -
  assume "c \<notin> set f" "f \<noteq> []"
  then have e: "takeWhile (\<lambda>x. x \<noteq> c) f = f" "dropWhile (\<lambda>x. x \<noteq> c) f = []" by (auto simp: dropWhile_eq_Nil_conv)
  show ?thesis unfolding getline_all.simps [of c f] e using \<open>f \<noteq> []\<close> by simp
qed

lemma getline_file_lines: "\<forall>l \<in> set ls. NL \<notin> set l \<Longrightarrow> getline_all NL (file_lines ls) = ls"
  by (induction ls) (simp_all add: file_lines_def getline_all_sep)

lemma split_tsv_line:
  "\<forall>f \<in> set fs. TAB \<notin> set f \<Longrightarrow> fs \<noteq> [] \<Longrightarrow>
     split_tabs (tsv_line fs) = (if last fs = [] then butlast fs else fs)"
  unfolding split_tabs_def
  by (induction fs rule: tsv_line.induct) (auto simp: getline_all_sep getline_all_last)

definition rules_for :: "cve_index \<Rightarrow> string \<Rightarrow> cve_rule list" where
  "rules_for ix pk = (case map_of (by_product ix) pk of None \<Rightarrow> [] | Some rs \<Rightarrow> rs)"

lemma rules_for_add_rule:
  "rules_for (add_rule r ix) pk = rules_for ix pk @ (if product_key r = pk then [r] else [])"
  by (simp add: rules_for_def add_rule_def update_conv')

lemma fold_add_rule:
  "rules_for (fold add_rule rs ix) pk = rules_for ix pk @ filter (\<lambda>r. product_key r = pk) rs"
  "rule_count (fold add_rule rs ix) = rule_count ix + length rs"
  by (induction rs arbitrary: ix) (simp_all add: rules_for_add_rule, simp add: add_rule_def)

text \<open>A row of twelve columns whose first column opens a data line.\<close>

definition data_row :: "string list \<Rightarrow> bool" where
  "data_row row \<longleftrightarrow> length row = 12 \<and> list_all (\<lambda>f. TAB \<notin> set f \<and> NL \<notin> set f) row \<and>
     hd row \<noteq> [] \<and> hd (hd row) \<noteq> CHR ''#''"

lemma data_row_line:
  assumes "data_row row"
  shows "tsv_line row \<noteq> []" "hd (tsv_line row) \<noteq> CHR ''#''" "NL \<notin> set (tsv_line row)"
proof -
  obtain a b r where row: "row = a # b # r" using assms by (auto simp: data_row_def numeral_eq_Suc length_Suc_conv)
  have "set (tsv_line fs) \<subseteq> insert TAB (\<Union> (set ` set fs))" for fs by (induction fs rule: tsv_line.induct) auto
  then show "NL \<notin> set (tsv_line row)" using assms by (force simp: data_row_def list_all_iff)
  show "tsv_line row \<noteq> []" "hd (tsv_line row) \<noteq> CHR ''#''" using assms row by (auto simp: data_row_def)
qed

lemma load_rule_line_row:
  assumes "data_row row"
  shows "load_rule_line (tsv_line row) ix = (if last row = [] then ix else add_rule (rule_of_fields row) ix)"
proof -
  have "\<forall>f \<in> set row. TAB \<notin> set f" "row \<noteq> []" "length row = 12"
    using assms by (auto simp: data_row_def list_all_iff)
  then show ?thesis using data_row_line [OF assms] by (simp add: load_rule_line_def split_tsv_line)
qed

lemma load_rules_rows:
  assumes "list_all data_row rows" and "NL \<notin> set header" and "starts_with rules_header header"
  shows "load_rules (Some (file_lines (header # map tsv_line rows))) ix =
     (Inr (), fold add_rule (map rule_of_fields (filter (\<lambda>row. last row \<noteq> []) rows)) ix)"
proof -
  have "getline_all NL (file_lines (header # map tsv_line rows)) = header # map tsv_line rows"
    using assms(1, 2) data_row_line(3) by (intro getline_file_lines) (auto simp: list_all_iff)
  moreover have "fold load_rule_line (map tsv_line rows) ix =
     fold add_rule (map rule_of_fields (filter (\<lambda>row. last row \<noteq> []) rows)) ix"
    using assms(1) by (induction rows arbitrary: ix) (simp_all add: load_rule_line_row)
  ultimately show ?thesis using assms(3) by (simp add: load_rules_def)
qed

section \<open>The report\<close>

definition finding_tree :: "finding \<Rightarrow> jval" where
  "finding_tree f = JObj
     [(''cve'', JStr (cve_id f)), (''package'', JStr (package_name f)),
      (''installed_version'', JStr (package_version f)), (''matched_version'', JStr (matched_version f)),
      (''cpe_vendor'', JStr (f_vendor f)), (''cpe_product'', JStr (f_product f)),
      (''cvss_score'', JNum (fmt_1f (cvss_score f))), (''cvss_severity'', JStr (cvss_severity f)),
      (''cvss_version'', JStr (cvss_version f)), (''network_exposed'', JBool (network_exposed f))]"

definition nat_tree :: "nat \<Rightarrow> jval" where
  "nat_tree n = JNum (i64_text (word_of_nat n))"

definition findings_tree :: "finding list \<times> scan_summary \<times> inventory \<Rightarrow> jval" where
  "findings_tree x = (case x of (fs, sm, iv) \<Rightarrow> JObj
     [(''agent'', JObj [(''name'', JStr kAgentName), (''version'', JStr kAgentVersion),
         (''stage'', JStr kAgentStage), (''platform'', JStr (inv_platform iv))]),
      (''hostname'', JStr (hostname (host iv))), (''os_name'', JStr (os_name (host iv))),
      (''collected_at_unix_ms'', JNum (i64_text (collected_at_unix_ms iv))),
      (''summary'', JObj [(''packages_total'', nat_tree (packages_total sm)),
         (''packages_mapped'', nat_tree (packages_mapped sm)),
         (''packages_unmapped'', nat_tree (packages_unmapped sm)),
         (''packages_no_version'', nat_tree (packages_no_version sm)),
         (''findings'', nat_tree (findings sm)), (''critical'', nat_tree (critical sm)),
         (''high'', nat_tree (high sm)), (''medium'', nat_tree (medium sm)), (''low'', nat_tree (low sm)),
         (''network_exposed_findings'', nat_tree (exposed_findings sm))]),
      (''findings'', JArr (map finding_tree fs)),
      (''unmapped_packages'', JArr (map JStr (unmapped_names sm)))])"

definition plain_score :: "cdouble \<Rightarrow> bool" where
  "plain_score v = (case v of Fin _ r \<Rightarrow> 0 \<le> r \<and> r < 10 ^ 27 | _ \<Rightarrow> False)"

lemma plain_score_text: "plain_score v \<Longrightarrow> num_text (fmt_1f v)"
  by (cases v) (simp_all add: plain_score_def num_text_fmt_1f)

lemma emit_finding: "emit_elem (finding_tree f) = finding_json f"
  by (simp add: fun_eq_iff finding_tree_def finding_json_def emit_member_double del: emit_member.simps(3))

lemma emit_member_nat: "emit_member k (nat_tree n) w = field_nat k n w"
  by (simp add: nat_tree_def field_nat_def emit_member_i64 del: emit_member.simps(3))

lemma nat_tree_ok [simp]: "emittable (nat_tree n)" "nums_ok (nat_tree n)"
  by (simp_all add: nat_tree_def)

interpretation cve_report: json_report findings_tree
  "\<lambda>(fs, sm, iv). \<forall>f \<in> set fs. plain_score (cvss_score f)"
  "\<lambda>p (fs, sm, iv). findings_to_json fs sm iv p"
proof
  fix p and x :: "finding list \<times> scan_summary \<times> inventory"
  show "(case x of (fs, sm, iv) \<Rightarrow> findings_to_json fs sm iv p) = emit p (findings_tree x)"
    by (cases x) (simp add: findings_to_json_def emit_def findings_tree_def emit_member_i64 emit_member_nat
        fold_map comp_def emit_elem_str emit_finding del: emit_member.simps(3))
  show "\<exists>ms. findings_tree x = JObj ms" by (cases x) (simp add: findings_tree_def)
  show "emittable (findings_tree x)" by (cases x) (auto simp: findings_tree_def finding_tree_def)
  show "(case x of (fs, sm, iv) \<Rightarrow> \<forall>f \<in> set fs. plain_score (cvss_score f)) \<Longrightarrow> nums_ok (findings_tree x)"
    by (cases x) (auto simp: findings_tree_def finding_tree_def plain_score_text)
qed

section \<open>A small index\<close>

definition demo_rules :: "cve_rule list" where
  "demo_rules =
     [\<lparr>r_cve_id = ''CVE-1'', r_vendor = ''openbsd'', r_product = ''openssh'', r_version = ''*'', start_incl = [],
       start_excl = [], end_incl = [], end_excl = ''9.3'', r_score = dnum 5, r_severity = [], r_cvss_version = ''2.0''\<rparr>,
      \<lparr>r_cve_id = ''CVE-1'', r_vendor = ''openbsd'', r_product = ''openssh'', r_version = ''8.9'', start_incl = [],
       start_excl = [], end_incl = [], end_excl = [], r_score = dnum 9, r_severity = ''HIGH'', r_cvss_version = ''3.1''\<rparr>]"

definition demo_index :: cve_index where
  "demo_index = \<lparr>by_product = [(''openbsd:openssh'', demo_rules)], exact_aliases = [(''sshd'', ''openbsd:openssh'')],
     prefixes = [(''openssh-'', ''openbsd:openssh''), (''open'', ''other:thing'')], rule_count = 2\<rparr>"

definition demo_package :: package where
  "demo_package = \<lparr>pkg_name = ''openssh-server'', pkg_version = ''1:8.9'', pkg_vendor = [], pkg_source = ''dpkg''\<rparr>"

definition demo_inventory :: inventory where
  "demo_inventory = empty_inventory\<lparr>packages := [demo_package]\<rparr>"

lemma demo_resolve: "resolve demo_index ''openssh-server'' = Some (''openbsd'', ''openssh'')"
  by code_simp

lemma demo_version: "version_upstream_part ''1:8.9'' = ''8.9''"
  by code_simp

definition demo_alias_file :: string where
  "demo_alias_file = file_lines [''# comment'', tsv_line [''prefix'', ''open'', ''other'', ''thing''],
     tsv_line [''prefix'', ''openssh-'', ''openbsd'', ''openssh'']]"

definition demo_aliases :: cve_index where
  "demo_aliases = empty_index\<lparr>prefixes := [(''openssh-'', ''openbsd:openssh''), (''open'', ''other:thing'')]\<rparr>"

lemma demo_aliases_load: "load_aliases stable_library (Some demo_alias_file) empty_index = (Inr (), demo_aliases)"
  by code_simp

lemma demo_normalize: "normalize_name ''OpenSSH-Server 9.3 (64-bit)'' = ''openssh-server''"
  by code_simp

lemma demo_hit: "rule_hit ''8.9'' (demo_rules ! 1)"
  by code_simp

lemma demo_scores: "\<forall>r \<in> set demo_rules. r_score r \<noteq> NaN"
  by (simp add: demo_rules_def dnum_def)

text \<open>Dropping trailing words goes all the way down to the first word of a name.\<close>

lemma resolve_collapses_to_first_word:
  "resolve (empty_index\<lparr>exact_aliases := [(''microsoft'', ''microsoft:windows'')]\<rparr>) ''Microsoft Visual Studio'' =
     Some (''microsoft'', ''windows'')"
  by code_simp

section \<open>The properties\<close>

text \<open>
  C9: The findings of a package are sound, complete and free of duplicates: every finding comes
  from a rule of the resolved product that hits the installed version, every rule that hits is
  represented by a finding of its advisory that scores at least as high, and no advisory is
  listed twice.
\<close>

theorem match_package_best:
  assumes "unspecified_ok u" and "resolve ix (pkg_name pkg) = Some (ven, prd)" and "pkg_version pkg \<noteq> []"
    and "map_of (by_product ix) (ven @ '':'' @ prd) = Some rules"
    and "version_upstream_part (pkg_version pkg) = v" and "v \<noteq> []"
    and "\<forall>r \<in> set rules. r_score r \<noteq> NaN"
  shows "distinct (map cve_id (match_package u ix pkg)) \<and>
    (\<forall>f \<in> set (match_package u ix pkg). \<exists>r \<in> set rules. rule_hit v r \<and> f = make_finding pkg v ven prd r) \<and>
    (\<forall>r \<in> set rules. rule_hit v r \<longrightarrow>
       (\<exists>f \<in> set (match_package u ix pkg). cve_id f = r_cve_id r \<and> dle (r_score r) (cvss_score f)))"
proof (intro conjI ballI impI)
  note m = match_package_hits [OF assms]
  show "distinct (map cve_id (match_package u ix pkg))" by (rule m(1))
  show "\<exists>r \<in> set rules. rule_hit v r \<and> f = make_finding pkg v ven prd r" if "f \<in> set (match_package u ix pkg)" for f
    using m(2) [OF that] by (auto simp: dominates_def hits_def)
  show "\<exists>f \<in> set (match_package u ix pkg). cve_id f = r_cve_id r \<and> dle (r_score r) (cvss_score f)"
    if "r \<in> set rules" "rule_hit v r" for r
  proof -
    have g: "make_finding pkg v ven prd r \<in> set (hits pkg v ven prd rules)" using that by (simp add: hits_def)
    then obtain f where "f \<in> set (match_package u ix pkg)" "cve_id f = cve_id (make_finding pkg v ven prd r)"
      using m(3) by (metis imageE imageI)
    then show ?thesis using m(2) [of f] g by (auto simp: dominates_def make_finding_def intro!: bexI [of _ f])
  qed
qed

theorem match_package_best_witness:
  "\<exists>f \<in> set (match_package stable_library demo_index demo_package). cve_id f = ''CVE-1'' \<and> dle (dnum 9) (cvss_score f)"
proof -
  have "resolve demo_index (pkg_name demo_package) = Some (''openbsd'', ''openssh'')"
    using demo_resolve by (simp add: demo_package_def)
  from match_package_best [OF stable_library_ok this, of demo_rules "''8.9''"] demo_version demo_scores demo_hit
  have "\<exists>f \<in> set (match_package stable_library demo_index demo_package).
      cve_id f = r_cve_id (demo_rules ! 1) \<and> dle (r_score (demo_rules ! 1)) (cvss_score f)"
    by (simp add: demo_package_def demo_index_def demo_rules_def)
  then show ?thesis by (simp add: demo_rules_def)
qed

text \<open>
  C22: After loading an alias table, a name without an exact alias resolves to the target of a
  longest matching prefix, whatever the order of the lines in the file was.
\<close>

theorem resolve_longest_prefix:
  assumes "unspecified_ok u" and "load_aliases u (Some txt) ix0 = (Inr (), ix)"
    and "normalize_name raw \<noteq> []" and "map_of (exact_aliases ix) (normalize_name raw) = None"
    and "(p, t) \<in> set (prefixes ix)" and "starts_with p (normalize_name raw)"
  shows "\<exists>q s. (q, s) \<in> set (prefixes ix) \<and> starts_with q (normalize_name raw) \<and>
      resolve ix raw = Some (split_target s) \<and>
      (\<forall>(q', s') \<in> set (prefixes ix). starts_with q' (normalize_name raw) \<longrightarrow> length q' \<le> length q)"
proof -
  let ?P = "\<lambda>(q, s). starts_with q (normalize_name raw)"
  have "sorted_wrt (\<lambda>a b. \<not> longer_prefix b a) (prefixes ix)"
    using assms(1, 2) by (auto simp: load_aliases_def unspecified_ok_def Let_def)
  then obtain y where y: "List.find ?P (prefixes ix) = Some y" "y \<in> set (prefixes ix)" "?P y"
    "\<forall>z \<in> set (prefixes ix). ?P z \<longrightarrow> z = y \<or> \<not> longer_prefix z y"
    using find_sorted [of _ "prefixes ix" "(p, t)" ?P] assms(5, 6) by auto
  obtain q s where qs: "y = (q, s)" by (cases y)
  have "resolve ix raw = Some (split_target s)"
    using y(1) assms(3, 4) by (simp add: resolve_def qs Let_def)
  moreover have "\<forall>(q', s') \<in> set (prefixes ix). starts_with q' (normalize_name raw) \<longrightarrow> length q' \<le> length q"
    using y(4) by (auto simp: longer_prefix_def qs)
  ultimately show ?thesis using y(2, 3) qs by auto
qed

theorem resolve_longest_prefix_witness:
  "\<exists>q s. (q, s) \<in> set (prefixes demo_aliases) \<and> starts_with q ''openssh-server'' \<and>
      resolve demo_aliases ''OpenSSH-Server 9.3 (64-bit)'' = Some (split_target s) \<and>
      (\<forall>(q', s') \<in> set (prefixes demo_aliases). starts_with q' ''openssh-server'' \<longrightarrow> length q' \<le> length q)"
  using resolve_longest_prefix [OF stable_library_ok demo_aliases_load,
      of "''OpenSSH-Server 9.3 (64-bit)''" "''open''" "''other:thing''"]
  by (simp add: demo_normalize demo_aliases_def empty_index_def starts_with_def)

text \<open>
  C21: The scan reports exactly the findings of the inventory's packages, each marked exposed when
  its product owns a world-reachable listening socket, and in descending order of score.
\<close>

theorem scan_reports_all:
  assumes "unspecified_ok u" and "\<forall>(k, rs) \<in> set (by_product ix). \<forall>r \<in> set rs. r_score r \<noteq> NaN"
  shows "mset (fst (scan u ix iv empty_summary)) =
      mset (concat (map (\<lambda>p. case resolve ix (pkg_name p) of None \<Rightarrow> []
        | Some vp \<Rightarrow> map (\<lambda>f. f\<lparr>network_exposed := exposed ix iv vp\<rparr>) (match_package u ix p)) (packages iv))) \<and>
    sorted_wrt (\<lambda>a b. dle (cvss_score b) (cvss_score a)) (fst (scan u ix iv empty_summary))"
proof -
  let ?all = "concat (map (package_findings u ix (exposed_products ix (sockets iv))) (packages iv))"
  have nan: "\<forall>f \<in> set ?all. cvss_score f \<noteq> NaN"
    using match_package_scores [OF assms] by (auto simp: package_findings_def split: option.splits)
  then have fs: "mset (sort_findings u ?all) = mset ?all"
    "sorted_wrt (\<lambda>a b. \<not> finding_before b a) (sort_findings u ?all)"
    using assms(1) by (simp_all add: unspecified_ok_def)
  have "\<forall>f \<in> set (sort_findings u ?all). cvss_score f \<noteq> NaN" using nan mset_eq_setD [OF fs(1)] by simp
  then have "sorted_wrt (\<lambda>a b. dle (cvss_score b) (cvss_score a)) (sort_findings u ?all)"
    by (intro sorted_wrt_mono_rel [OF _ fs(2)]) (auto simp: not_finding_before dle_def deq_sym)
  moreover have "package_findings u ix (exposed_products ix (sockets iv)) =
    (\<lambda>p. case resolve ix (pkg_name p) of None \<Rightarrow> []
        | Some vp \<Rightarrow> map (\<lambda>f. f\<lparr>network_exposed := exposed ix iv vp\<rparr>) (match_package u ix p))"
    by (auto simp: package_findings_def fun_eq_iff exposed_products_resolve [simplified] split: option.splits)
  ultimately show ?thesis using fs(1) by (simp add: scan_eq Let_def)
qed

theorem scan_reports_all_witness:
  "sorted_wrt (\<lambda>a b. dle (cvss_score b) (cvss_score a)) (fst (scan stable_library demo_index demo_inventory empty_summary))"
  using scan_reports_all [OF stable_library_ok, of demo_index demo_inventory] demo_scores
  by (simp add: demo_index_def)

text \<open>
  The summary of a scan adds up: every package is either mapped or unmapped, the severity and
  exposure counters count the reported findings, and the unmapped names are the first fifty.
\<close>

theorem scan_summary_adds_up:
  "let (fs, sm) = scan u ix iv empty_summary in
     packages_total sm = length (packages iv) \<and>
     packages_mapped sm + packages_unmapped sm = packages_total sm \<and>
     packages_no_version sm \<le> packages_mapped sm \<and>
     findings sm = length fs \<and>
     critical sm + high sm + medium sm + low sm \<le> findings sm \<and>
     critical sm = length (filter (\<lambda>f. cvss_severity f = ''critical'') fs) \<and>
     exposed_findings sm = length (filter network_exposed fs) \<and>
     unmapped_names sm = take 50 (map pkg_name (filter (\<lambda>p. resolve ix (pkg_name p) = None) (packages iv)))"
proof -
  have "length (mapped ix ps) + length (unmapped ix ps) = length ps" for ps
    using sum_length_filter_compl [of "\<lambda>p. resolve ix (pkg_name p) \<noteq> None" ps] by (simp add: mapped_def unmapped_def del: not_None_eq)
  then show ?thesis
    using with_severity_sum by (simp add: scan_eq Let_def with_severity_def unmapped_def)
qed

text \<open>
  C28: The findings report is, in both styles, a JSON document that reads back as exactly the tree
  of the findings, the summary and the host, whatever bytes the package names hold.
\<close>

theorem findings_report_roundtrip:
  assumes "\<forall>f \<in> set fs. plain_score (cvss_score f)"
  shows "json_parse (findings_to_json fs sm iv p) = Some (findings_tree (fs, sm, iv))"
  using cve_report.report_parses [of "(fs, sm, iv)" p] assms by simp

theorem findings_report_roundtrip_witness:
  "json_parse (findings_to_json [make_finding demo_package ''8.9'' ''v'' ''p'' (demo_rules ! 0)] empty_summary demo_inventory True)
     = Some (findings_tree ([make_finding demo_package ''8.9'' ''v'' ''p'' (demo_rules ! 0)], empty_summary, demo_inventory))"
  by (rule findings_report_roundtrip) (simp add: make_finding_def demo_rules_def plain_score_def dnum_def)

end
