(* ===== verification/Nvd_Index.thy ===== *)
theory Nvd_Index
  imports Cve_Match
begin

text \<open>
  The builder of the rule index, \<^verbatim>\<open>src/tools/nvd_build_index.py\<close>: the choice of the CVSS metric, the
  rows of one advisory and the index file, composed with the loader of the agent. An advisory is
  the JSON object the NVD service returns, restricted to the members the script reads; a missing
  list is an empty one, a missing string is \<^const>\<open>None\<close>.
\<close>

section \<open>Advisories\<close>

record cvss_data =
  base_score :: string
  base_severity :: string

record cvss_v2 =
  v2_score :: string
  v2_severity :: "string option"

record metrics =
  cvssMetricV31 :: "cvss_data list"
  cvssMetricV30 :: "cvss_data list"
  cvssMetricV2 :: "cvss_v2 list"

record cpe_match =
  vulnerable :: "bool option"
  criteria :: string
  versionStartIncluding :: "string option"
  versionStartExcluding :: "string option"
  versionEndIncluding :: "string option"
  versionEndExcluding :: "string option"

record nvd_cve =
  nvd_id :: string
  nvd_metrics :: metrics
  configurations :: "cpe_match list list list"

section \<open>Rows\<close>

definition COLUMNS :: "string list" where
  "COLUMNS = [''cve_id'', ''vendor'', ''product'', ''version'', ''update'', ''start_incl'', ''start_excl'',
     ''end_incl'', ''end_excl'', ''cvss_score'', ''cvss_severity'', ''cvss_version'']"

definition get_or :: "'a \<Rightarrow> 'a option \<Rightarrow> 'a" where
  "get_or d x = (case x of None \<Rightarrow> d | Some v \<Rightarrow> v)"

definition pick_cvss :: "metrics \<Rightarrow> string \<times> string \<times> string" where
  "pick_cvss m =
     (case cvssMetricV31 m of
        d # _ \<Rightarrow> (base_score d, base_severity d, ''3.1'')
      | [] \<Rightarrow>
          (case cvssMetricV30 m of
             d # _ \<Rightarrow> (base_score d, base_severity d, ''3.0'')
           | [] \<Rightarrow>
               (case cvssMetricV2 m of
                  e # _ \<Rightarrow> (v2_score e, get_or [] (v2_severity e), ''2.0'')
                | [] \<Rightarrow> ([], [], []))))"

text \<open>\<^verbatim>\<open>str.split\<close> with a separator keeps empty parts.\<close>

fun py_split :: "char \<Rightarrow> string \<Rightarrow> string list" where
  "py_split c [] = [[]]"
| "py_split c (x # s) =
     (if x = c then [] # py_split c s
      else case py_split c s of p # ps \<Rightarrow> (x # p) # ps | [] \<Rightarrow> [[x]])"

definition match_row :: "(string \<times> string) set \<Rightarrow> nvd_cve \<Rightarrow> cpe_match \<Rightarrow> string list list" where
  "match_row wanted cve mt =
     (let (score, severity, cvss_ver) = pick_cvss (nvd_metrics cve); parts = py_split (CHR '':'') (criteria mt) in
      if \<not> get_or False (vulnerable mt) then []
      else if length parts < 6 \<or> parts ! 2 \<noteq> ''a'' then []
      else if (parts ! 3, parts ! 4) \<notin> wanted then []
      else [[nvd_id cve, parts ! 3, parts ! 4, parts ! 5, (if length parts > 6 then parts ! 6 else ''*''),
             get_or [] (versionStartIncluding mt), get_or [] (versionStartExcluding mt),
             get_or [] (versionEndIncluding mt), get_or [] (versionEndExcluding mt),
             score, severity, cvss_ver]])"

definition rows_for_cve :: "(string \<times> string) set \<Rightarrow> nvd_cve \<Rightarrow> string list list" where
  "rows_for_cve wanted cve =
     concat (map (\<lambda>config. concat (map (\<lambda>node. concat (map (match_row wanted cve) node)) config)) (configurations cve))"

definition add_row :: "string list \<Rightarrow> string list set \<times> string list list \<Rightarrow> string list set \<times> string list list" where
  "add_row row acc = (let (seen, rows) = acc in if row \<in> seen then acc else (insert row seen, rows @ [row]))"

definition index_rows :: "(string \<times> string) set \<Rightarrow> nvd_cve list \<Rightarrow> string list list" where
  "index_rows wanted cves =
     sort_key (\<lambda>r. (r ! 1, r ! 2, r ! 0)) (snd (fold add_row (concat (map (rows_for_cve wanted) cves)) ({}, [])))"

definition index_file :: "(string \<times> string) set \<Rightarrow> nvd_cve list \<Rightarrow> string" where
  "index_file wanted cves = file_lines (tsv_line COLUMNS # map tsv_line (index_rows wanted cves))"

section \<open>The loaded index\<close>

definition scored :: "nvd_cve \<Rightarrow> bool" where
  "scored c \<longleftrightarrow> cvssMetricV31 (nvd_metrics c) \<noteq> [] \<or> cvssMetricV30 (nvd_metrics c) \<noteq> [] \<or>
     cvssMetricV2 (nvd_metrics c) \<noteq> []"

definition clean :: "string \<Rightarrow> bool" where
  "clean s \<longleftrightarrow> TAB \<notin> set s \<and> NL \<notin> set s"

text \<open>The texts of an advisory hold no separators, and its identifier does not look like a comment.\<close>

definition clean_match :: "cpe_match \<Rightarrow> bool" where
  "clean_match m \<longleftrightarrow> clean (criteria m) \<and>
     list_all (\<lambda>f. clean (get_or [] (f m)))
       [versionStartIncluding, versionStartExcluding, versionEndIncluding, versionEndExcluding]"

definition clean_cve :: "nvd_cve \<Rightarrow> bool" where
  "clean_cve c \<longleftrightarrow> clean (nvd_id c) \<and> nvd_id c \<noteq> [] \<and> hd (nvd_id c) \<noteq> CHR ''#'' \<and>
     list_all (\<lambda>d. clean (base_score d) \<and> clean (base_severity d)) (cvssMetricV31 (nvd_metrics c)) \<and>
     list_all (\<lambda>d. clean (base_score d) \<and> clean (base_severity d)) (cvssMetricV30 (nvd_metrics c)) \<and>
     list_all (\<lambda>d. clean (v2_score d) \<and> clean (get_or [] (v2_severity d))) (cvssMetricV2 (nvd_metrics c)) \<and>
     list_all (list_all (list_all clean_match)) (configurations c)"

lemma clean_Nil [simp]: "clean []"
  by (simp add: clean_def)

lemma py_split_clean: "clean s \<Longrightarrow> p \<in> set (py_split c s) \<Longrightarrow> clean p"
proof -
  have "\<forall>p \<in> set (py_split c s). set p \<subseteq> set s"
  proof (induction s)
    case (Cons x s)
    then show ?case by (cases "py_split c s") auto
  qed simp
  then show "clean s \<Longrightarrow> p \<in> set (py_split c s) \<Longrightarrow> clean p" unfolding clean_def by blast
qed

lemma pick_cvss_clean:
  assumes "clean_cve c" and "pick_cvss (nvd_metrics c) = (score, sev, ver)"
  shows "clean score" "clean sev" "clean ver" "ver \<noteq> [] \<longleftrightarrow> scored c"
  using assms by (auto simp: pick_cvss_def clean_cve_def scored_def clean_def split: list.splits)

lemma match_row_data:
  assumes "clean_cve c" and "clean_match m" and row: "row \<in> set (match_row wanted c m)"
  shows "data_row row" and "last row \<noteq> [] \<longleftrightarrow> scored c"
proof -
  obtain score sev ver where p: "pick_cvss (nvd_metrics c) = (score, sev, ver)" by (cases "pick_cvss (nvd_metrics c)")
  note pc = pick_cvss_clean [OF assms(1) p]
  let ?ps = "py_split (CHR '':'') (criteria m)"
  have len: "6 \<le> length ?ps" using row by (auto simp: match_row_def p Let_def split: if_splits)
  have parts: "clean (?ps ! i)" if "i < length ?ps" for i
    using assms(2) by (auto simp: clean_match_def intro: py_split_clean [OF _ nth_mem [OF that]])
  have row': "row = [nvd_id c, ?ps ! 3, ?ps ! 4, ?ps ! 5, (if length ?ps > 6 then ?ps ! 6 else ''*''),
      get_or [] (versionStartIncluding m), get_or [] (versionStartExcluding m),
      get_or [] (versionEndIncluding m), get_or [] (versionEndExcluding m), score, sev, ver]"
    using row by (auto simp: match_row_def p Let_def split: if_splits)
  have "list_all clean row"
    using assms(1, 2) pc len parts [of 3] parts [of 4] parts [of 5] parts [of 6]
    by (simp add: row' clean_cve_def clean_match_def) (simp add: clean_def)
  then show "data_row row" using assms(1) by (simp add: row' data_row_def clean_cve_def clean_def)
  show "last row \<noteq> [] \<longleftrightarrow> scored c" using pc(4) by (simp add: row')
qed

lemma rows_for_cve_data:
  assumes "clean_cve c" and "row \<in> set (rows_for_cve wanted c)"
  shows "data_row row" and "last row \<noteq> [] \<longleftrightarrow> scored c"
proof -
  obtain config node m where m: "config \<in> set (configurations c)" "node \<in> set config" "m \<in> set node"
    and row: "row \<in> set (match_row wanted c m)"
    using assms(2) by (auto simp: rows_for_cve_def)
  have "clean_match m" using assms(1) m by (auto simp: clean_cve_def list_all_iff)
  with row show "data_row row" "last row \<noteq> [] \<longleftrightarrow> scored c" using match_row_data [OF assms(1)] by blast+
qed

lemma fold_add_row: "seen = set rows \<Longrightarrow> set (snd (fold add_row rs (seen, rows))) = set rows \<union> set rs"
proof (induction rs arbitrary: seen rows)
  case (Cons r rs)
  have "set (snd (fold add_row rs (insert r seen, rows @ [r]))) = set (rows @ [r]) \<union> set rs"
    using Cons.prems by (intro Cons.IH) simp
  moreover have "set (snd (fold add_row rs (seen, rows))) = set rows \<union> set rs" by (rule Cons.IH [OF Cons.prems])
  ultimately show ?case using Cons.prems by (auto simp: add_row_def [of r])
qed simp

lemma set_index_rows: "set (index_rows wanted cves) = (\<Union>c \<in> set cves. set (rows_for_cve wanted c))"
  by (simp add: index_rows_def fold_add_row)

lemma header_ok: "starts_with rules_header (tsv_line COLUMNS)" "NL \<notin> set (tsv_line COLUMNS)"
  by (simp_all add: rules_header_def COLUMNS_def starts_with_def)

lemma index_file_rules:
  assumes "list_all clean_cve cves"
  shows "load_rules (Some (index_file wanted cves)) ix =
    (Inr (), fold add_rule (map rule_of_fields (filter (\<lambda>row. last row \<noteq> []) (index_rows wanted cves))) ix)"
  unfolding index_file_def
proof (rule load_rules_rows [OF _ header_ok(2) header_ok(1)])
  show "list_all data_row (index_rows wanted cves)"
    using assms rows_for_cve_data(1) by (auto simp: list_all_iff set_index_rows)
qed

section \<open>The properties\<close>

definition demo_cve :: "nat \<Rightarrow> cvss_v2 list \<Rightarrow> nvd_cve" where
  "demo_cve n ms = \<lparr>nvd_id = ''CVE-'' @ replicate n (CHR ''1''),
     nvd_metrics = \<lparr>cvssMetricV31 = [], cvssMetricV30 = [], cvssMetricV2 = ms\<rparr>,
     configurations = [[[\<lparr>vulnerable = Some True, criteria = ''cpe:2.3:a:git:git:*'', versionStartIncluding = None,
        versionStartExcluding = None, versionEndIncluding = None, versionEndExcluding = Some ''2.0''\<rparr>]]]\<rparr>"

text \<open>
  C29: What the builder writes the agent loads: every rule the loaded index holds for a product is a
  row of an advisory with a CVSS metric, and every such row is there. The rows of an advisory
  without any metric are all dropped: their last column is empty, and the loader then counts
  eleven fields.
\<close>

theorem index_file_loads:
  assumes "list_all clean_cve cves"
  shows "\<exists>ix. load_rules (Some (index_file wanted cves)) empty_index = (Inr (), ix) \<and>
    (\<forall>pk r. r \<in> set (rules_for ix pk) \<longleftrightarrow>
       product_key r = pk \<and> (\<exists>c \<in> set cves. scored c \<and> (\<exists>row \<in> set (rows_for_cve wanted c). r = rule_of_fields row)))"
proof (intro exI conjI allI)
  let ?rows = "filter (\<lambda>row. last row \<noteq> []) (index_rows wanted cves)"
  let ?ix = "fold add_rule (map rule_of_fields ?rows) empty_index"
  show "load_rules (Some (index_file wanted cves)) empty_index = (Inr (), ?ix)" by (rule index_file_rules [OF assms])
  have rows: "row \<in> set ?rows \<longleftrightarrow> (\<exists>c \<in> set cves. scored c \<and> row \<in> set (rows_for_cve wanted c))" for row
  proof -
    have "last row \<noteq> [] \<longleftrightarrow> scored c" if "c \<in> set cves" "row \<in> set (rows_for_cve wanted c)" for c
      using that assms by (intro rows_for_cve_data(2)) (simp_all add: list_all_iff)
    then show ?thesis unfolding set_filter set_index_rows by blast
  qed
  fix pk r
  have "rules_for empty_index pk = []" by (simp add: rules_for_def empty_index_def)
  then have "set (rules_for ?ix pk) = {r \<in> rule_of_fields ` set ?rows. product_key r = pk}"
    unfolding fold_add_rule by auto
  then have "r \<in> set (rules_for ?ix pk) \<longleftrightarrow> product_key r = pk \<and> (\<exists>row. row \<in> set ?rows \<and> r = rule_of_fields row)"
    by (auto simp del: set_filter)
  then show "r \<in> set (rules_for ?ix pk) \<longleftrightarrow>
       product_key r = pk \<and> (\<exists>c \<in> set cves. scored c \<and> (\<exists>row \<in> set (rows_for_cve wanted c). r = rule_of_fields row))"
    unfolding rows by blast
qed

theorem index_file_loads_witness:
  "\<exists>ix. load_rules (Some (index_file {(''git'', ''git'')}
       [demo_cve 1 [\<lparr>v2_score = ''7.5'', v2_severity = None\<rparr>], demo_cve 2 []])) empty_index = (Inr (), ix) \<and>
     (\<forall>pk r. r \<in> set (rules_for ix pk) \<longleftrightarrow> product_key r = pk \<and>
       (\<exists>c \<in> set [demo_cve 1 [\<lparr>v2_score = ''7.5'', v2_severity = None\<rparr>], demo_cve 2 []].
          scored c \<and> (\<exists>row \<in> set (rows_for_cve {(''git'', ''git'')} c). r = rule_of_fields row)))"
  by (rule index_file_loads) (simp add: demo_cve_def clean_cve_def clean_match_def clean_def get_or_def)

end
