(* ===== verification/CInt.thy ===== *)
theory CInt
  imports CDouble "HOL-Library.Word"
begin

text \<open>
  The integer conversions of the C library the sources call: \<^verbatim>\<open>strtoll\<close> and \<^verbatim>\<open>strtol\<close> with saturation at
  64 bits, \<^verbatim>\<open>atoi\<close> as the truncation of \<^verbatim>\<open>strtol\<close> to 32 bits (what the platform does where the
  standard leaves overflow open), and \<^verbatim>\<open>strtoul\<close> with base 16.
\<close>

definition strtoll :: "string \<Rightarrow> int" where
  "strtoll s =
     (let (neg, u) = split_sign (dropWhile is_space s);
          v = int (dec_val (takeWhile is_digit u))
      in if neg then max (- v) (- (2 ^ 63)) else min v (2 ^ 63 - 1))"

definition atoi :: "string \<Rightarrow> int" where
  "atoi s = sint (word_of_int (strtoll s) :: 32 word)"

definition strtoul16 :: "string \<Rightarrow> nat" where
  "strtoul16 s =
     (let (neg, u) = split_sign (dropWhile is_space s);
          u = (if starts_with_ci ''0x'' u \<and> takeWhile is_hex (drop 2 u) \<noteq> [] then drop 2 u else u);
          v = based_val 16 (takeWhile is_hex u)
      in if u64_max < v then u64_max
         else if neg then (u64_max + 1 - v) mod (u64_max + 1) else v)"

lemma strtoll_digits:
  assumes "list_all is_digit ds" "ds \<noteq> []" "dec_val ds < 2 ^ 63" and "t = [] \<or> \<not> is_digit (hd t)"
  shows "strtoll (ds @ t) = int (dec_val ds)"
proof -
  from assms obtain c r where ds: "ds = c # r" and c: "is_digit c" by (cases ds) auto
  have "dropWhile is_space (ds @ t) = ds @ t" using c ds is_digit_not_space by auto
  moreover have "split_sign (ds @ t) = (False, ds @ t)" using c ds by (simp add: split_sign_digit)
  moreover have "takeWhile is_digit (ds @ t) = ds"
    using assms(1,4) by (cases t) (auto simp: list_all_iff takeWhile_append)
  ultimately show ?thesis using assms(3) by (simp add: strtoll_def Let_def)
qed

lemma atoi_digits:
  assumes "list_all is_digit ds" "ds \<noteq> []" "dec_val ds < 2 ^ 31" and "t = [] \<or> \<not> is_digit (hd t)"
  shows "atoi (ds @ t) = int (dec_val ds)"
proof -
  have "strtoll (ds @ t) = int (dec_val ds)" using assms by (intro strtoll_digits) simp_all
  moreover have "sint (word_of_int k :: 32 word) = k" if "0 \<le> k" "k < 2 ^ 31" for k
    using that by (subst sint_sbintrunc') (simp add: signed_take_bit_int_eq_self)
  ultimately show ?thesis using assms(3) by (simp add: atoi_def del: of_int_of_nat_eq)
qed

lemma atoi_show_nat: "n < 2 ^ 31 \<Longrightarrow> t = [] \<or> \<not> is_digit (hd t) \<Longrightarrow> atoi (show_nat n @ t) = int n"
  using atoi_digits [of "show_nat n" t] show_nat_digits [of n] by simp

end
