(* ===== verification/Log.thy ===== *)
theory Log
  imports Json_Reader
begin

text \<open>
  The logger, \<^verbatim>\<open>src/src/log.cpp\<close>: levels, the time stamp and one JSON object per line. The broken
  down time of \<^verbatim>\<open>gmtime_r\<close> is an argument.
\<close>

datatype log_level = Debug | Info | Warn | Error

definition level_rank :: "log_level \<Rightarrow> nat" where
  "level_rank l = (case l of Debug \<Rightarrow> 0 | Info \<Rightarrow> 1 | Warn \<Rightarrow> 2 | Error \<Rightarrow> 3)"

definition level_name :: "log_level \<Rightarrow> string" where
  "level_name l = (case l of Debug \<Rightarrow> ''debug'' | Info \<Rightarrow> ''info'' | Warn \<Rightarrow> ''warn'' | Error \<Rightarrow> ''error'')"

definition log_set_level_by_name :: "string \<Rightarrow> log_level \<Rightarrow> bool \<times> log_level" where
  "log_set_level_by_name n l =
     (if n = ''debug'' then (True, Debug)
      else if n = ''info'' then (True, Info)
      else if n = ''warn'' then (True, Warn)
      else if n = ''error'' then (True, Error)
      else (False, l))"

record tm =
  tm_year :: nat
  tm_mon :: nat
  tm_mday :: nat
  tm_hour :: nat
  tm_min :: nat
  tm_sec :: nat
  tm_ms :: nat

definition padded :: "nat \<Rightarrow> nat \<Rightarrow> string" where
  "padded w n = replicate (w - length (show_nat n)) (CHR ''0'') @ show_nat n"

text \<open>\<^verbatim>\<open>snprintf\<close> into a buffer of 40 bytes.\<close>

definition utc_timestamp :: "tm \<Rightarrow> string" where
  "utc_timestamp t = take 39
     (padded 4 (tm_year t + 1900) @ ''-'' @ padded 2 (tm_mon t + 1) @ ''-'' @ padded 2 (tm_mday t) @ ''T'' @
      padded 2 (tm_hour t) @ '':'' @ padded 2 (tm_min t) @ '':'' @ padded 2 (tm_sec t) @ ''.'' @
      padded 3 (tm_ms t) @ ''Z'')"

text \<open>The line written to the standard error stream, or nothing below the threshold.\<close>

definition log_event :: "log_level \<Rightarrow> tm \<Rightarrow> log_level \<Rightarrow> string \<Rightarrow> (string \<times> string) list \<Rightarrow> string option" where
  "log_event threshold now lvl msg kvs =
     (if level_rank lvl < level_rank threshold then None
      else
        let w = begin_object (new_writer False);
            w = field_str ''ts'' (utc_timestamp now) w;
            w = field_cstr ''level'' (Some (level_name lvl)) w;
            w = field_str ''msg'' msg w;
            w = fold (\<lambda>(k, v). field_str k v) kvs w;
            w = end_object w
        in Some (out w @ [CHR 0x0A]))"

section \<open>One JSON object per line\<close>

definition event_tree :: "tm \<times> log_level \<times> string \<times> (string \<times> string) list \<Rightarrow> jval" where
  "event_tree x = (case x of (now, lvl, msg, kvs) \<Rightarrow> JObj
     ([(''ts'', JStr (utc_timestamp now)), (''level'', JStr (level_name lvl)), (''msg'', JStr msg)] @
      map (\<lambda>(k, v). (k, JStr v)) kvs))"

definition event_text :: "bool \<Rightarrow> tm \<times> log_level \<times> string \<times> (string \<times> string) list \<Rightarrow> string" where
  "event_text p x = (case x of (now, lvl, msg, kvs) \<Rightarrow>
     out (end_object (fold (\<lambda>(k, v). field_str k v) kvs (field_str ''msg'' msg (field_cstr ''level'' (Some (level_name lvl))
       (field_str ''ts'' (utc_timestamp now) (begin_object (new_writer p))))))))"

lemma fold_fields: "fold (\<lambda>(k, v). emit_member k v) (map (\<lambda>(k, v). (k, JStr v)) fs) w = fold (\<lambda>(k, v). field_str k v) fs w"
  by (induction fs arbitrary: w) (auto simp: fun_eq_iff)

interpretation log_line: json_report event_tree "\<lambda>_. True" event_text
proof
  fix p and x :: "tm \<times> log_level \<times> string \<times> (string \<times> string) list"
  obtain now lvl msg kvs where x: "x = (now, lvl, msg, kvs)" by (cases x)
  show "event_text p x = emit p (event_tree x)"
    by (simp add: x event_text_def event_tree_def emit_def fold_fields field_cstr_def)
  show "\<exists>ms. event_tree x = JObj ms" by (simp add: x event_tree_def)
  show "emittable (event_tree x)" "nums_ok (event_tree x)" by (auto simp: x event_tree_def)
qed

lemma log_event_line:
  "level_rank threshold \<le> level_rank lvl \<Longrightarrow>
     log_event threshold now lvl msg kvs = Some (event_text False (now, lvl, msg, kvs) @ [CHR 0x0A])"
  by (simp add: log_event_def event_text_def Let_def)

lemma escape_no_newline: "CHR 0x0A \<notin> set (json_escape s)"
proof -
  have hex: "kHex ! (n AND 15) \<noteq> CHR 0x0A" for n
  proof -
    have "n AND 15 < 16" by (simp add: and_15)
    then have "kHex ! (n AND 15) \<in> set kHex" by (intro nth_mem) (simp add: kHex_def)
    then show ?thesis by (auto simp: kHex_def)
  qed
  have "CHR 0x0A \<notin> set (escape_char c)" for c
    using hex [symmetric] by (simp add: escape_char_def)
  then show ?thesis by (simp add: json_escape_def)
qed

lemma items_no_newline: "\<forall>x \<in> set xs. CHR 0x0A \<notin> set x \<Longrightarrow> CHR 0x0A \<notin> set (items False d xs)"
  by (induction xs) (auto simp: items_Cons nl_def)

lemma render_no_newline: "nums_ok v \<Longrightarrow> CHR 0x0A \<notin> set (render False d v)"
proof (induction v arbitrary: d)
  case (JNum t)
  then have "list_all num_char t" by (simp add: num_text_def)
  then show ?case by (auto simp: list_all_iff num_char_def is_digit_def)
next
  case (JObj ms)
  have "CHR 0x0A \<notin> set (key_text False k @ render False (Suc d) v)" if "(k, v) \<in> set ms" for k v
  proof -
    have "CHR 0x0A \<notin> set (render False (Suc d) v)" using JObj.prems that by (intro JObj.IH [OF that]) (auto simp: prod_set_simps)
    then show ?thesis using escape_no_newline [of k] by (simp add: key_text_def quoted_def)
  qed
  then have "CHR 0x0A \<notin> set (items False (Suc d) (map (\<lambda>(k, v). key_text False k @ render False (Suc d) v) ms))"
    by (intro items_no_newline) auto
  then show ?case by (simp add: closing_def nl_def)
next
  case (JArr vs)
  then show ?case by (auto simp: closing_def nl_def split: if_splits intro!: items_no_newline)
qed (auto simp: quoted_def escape_no_newline)

lemma log_event_one_object:
  assumes "level_rank threshold \<le> level_rank lvl"
  shows "\<exists>line. log_event threshold now lvl msg kvs = Some (line @ [CHR 0x0A]) \<and> CHR 0x0A \<notin> set line \<and>
     json_parse line = Some (event_tree (now, lvl, msg, kvs))"
proof -
  let ?x = "(now, lvl, msg, kvs)"
  have "event_text False ?x = render False 0 (event_tree ?x)"
    using log_line.report_emit [where p = False and x = ?x] log_line.tree_object [where x = ?x] emit_render [OF log_line.tree_emittable [where x = ?x], of False]
    by auto
  moreover have "CHR 0x0A \<notin> set (render False 0 (event_tree ?x))" by (rule render_no_newline [OF log_line.tree_nums]) simp
  ultimately show ?thesis
    using log_event_line [OF assms] log_line.report_parses [where x = ?x and p = False] by auto
qed

end
