(* ===== verification/Cli.thy ===== *)
theory Cli
  imports CInt Log
begin

text \<open>
  The command line: options, flags and dispatch of \<^verbatim>\<open>src/src/main.cpp\<close>, the command line the Windows
  service is registered with, and the client \<^verbatim>\<open>src/src/nsctl.cpp\<close>. \<open>windows_argv\<close> is the rule by which
  the C runtime splits such a command line into arguments.
\<close>

section \<open>Options\<close>

abbreviation BS :: char where "BS \<equiv> CHR 0x5C"
abbreviation DQ :: char where "DQ \<equiv> CHR 0x22"

definition kDefaultPipe :: string where
  "kDefaultPipe = [BS, BS] @ ''.'' @ [BS] @ ''pipe'' @ [BS] @ ''nano-sensor''"

record options =
  opt_pretty :: bool
  index_path :: string
  alias_path :: string
  packages_path :: string
  opt_url :: string
  client_cert :: string
  client_key :: string
  opt_pin :: string
  pin_file :: string
  spool_dir :: string
  spool_max_bytes :: nat
  batch_size :: nat
  max_attempts :: int
  synthetic :: int
  drain_only :: bool
  interval_s :: int
  opt_db :: string
  state_dir :: string
  log_file :: string
  opt_pipe :: string
  opt_fault :: string
  hang_timeout_s :: int

definition default_options :: options where
  "default_options = \<lparr>opt_pretty = False, index_path = ''data/cve_index.tsv'',
     alias_path = ''data/cpe_aliases.tsv'', packages_path = [], opt_url = [], client_cert = [],
     client_key = [], opt_pin = [], pin_file = [], spool_dir = ''spool'',
     spool_max_bytes = 64 * 1024 * 1024, batch_size = 32, max_attempts = 6, synthetic = 0,
     drain_only = False, interval_s = 300, opt_db = [], state_dir = [], log_file = [],
     opt_pipe = kDefaultPipe, opt_fault = ''none'', hang_timeout_s = 120\<rparr>"

text \<open>A flag that takes a value, applied to it.\<close>

definition set_option :: "string \<Rightarrow> string \<Rightarrow> options \<Rightarrow> options option" where
  "set_option arg v opt =
     (if arg = ''--index'' then Some (opt\<lparr>index_path := v\<rparr>)
      else if arg = ''--aliases'' then Some (opt\<lparr>alias_path := v\<rparr>)
      else if arg = ''--packages'' then Some (opt\<lparr>packages_path := v\<rparr>)
      else if arg = ''--url'' then Some (opt\<lparr>opt_url := v\<rparr>)
      else if arg = ''--client-cert'' then Some (opt\<lparr>client_cert := v\<rparr>)
      else if arg = ''--client-key'' then Some (opt\<lparr>client_key := v\<rparr>)
      else if arg = ''--pin'' then Some (opt\<lparr>opt_pin := v\<rparr>)
      else if arg = ''--pin-file'' then Some (opt\<lparr>pin_file := v\<rparr>)
      else if arg = ''--spool'' then Some (opt\<lparr>spool_dir := v\<rparr>)
      else if arg = ''--spool-max-bytes'' then Some (opt\<lparr>spool_max_bytes := strtoull v\<rparr>)
      else if arg = ''--batch-size'' then Some (opt\<lparr>batch_size := strtoull v\<rparr>)
      else if arg = ''--max-attempts'' then Some (opt\<lparr>max_attempts := atoi v\<rparr>)
      else if arg = ''--synthetic'' then Some (opt\<lparr>synthetic := atoi v\<rparr>)
      else if arg = ''--interval'' then Some (opt\<lparr>interval_s := atoi v\<rparr>)
      else if arg = ''--db'' then Some (opt\<lparr>opt_db := v\<rparr>)
      else if arg = ''--state-dir'' then Some (opt\<lparr>state_dir := v\<rparr>)
      else if arg = ''--log-file'' then Some (opt\<lparr>log_file := v\<rparr>)
      else if arg = ''--pipe'' then Some (opt\<lparr>opt_pipe := v\<rparr>)
      else if arg = ''--hang-timeout'' then Some (opt\<lparr>hang_timeout_s := atoi v\<rparr>)
      else if arg = ''--inject-fault'' then Some (opt\<lparr>opt_fault := v\<rparr>)
      else None)"

text \<open>The loop over the flags: an exit code, or the options and the log level.\<close>

fun parse_flags :: "string list \<Rightarrow> options \<Rightarrow> log_level \<Rightarrow> int + options \<times> log_level" where
  "parse_flags [] opt lvl = Inr (opt, lvl)"
| "parse_flags (arg # rst) opt lvl =
     (if arg = ''--pretty'' then parse_flags rst (opt\<lparr>opt_pretty := True\<rparr>) lvl
      else if arg = ''--log-level'' then
        (case rst of
           [] \<Rightarrow> Inl 2
         | v # rst' \<Rightarrow> let (known, lvl') = log_set_level_by_name v lvl
                      in if known then parse_flags rst' opt lvl' else Inl 2)
      else if arg = ''--drain-only'' then parse_flags rst (opt\<lparr>drain_only := True\<rparr>) lvl
      else if arg = ''-h'' \<or> arg = ''--help'' then Inl 0
      else if set_option arg [] opt = None then Inl 2
      else
        (case rst of
           [] \<Rightarrow> Inl 2
         | v # rst' \<Rightarrow> parse_flags rst' (the (set_option arg v opt)) lvl))"

datatype action = Exit int | Cmd_inventory options | Cmd_vuln options | Cmd_report options
  | Cmd_run options | Cmd_service options string | Cmd_version

text \<open>\<open>argv\<close> from its second element on.\<close>

definition main_dispatch :: "string list \<Rightarrow> action" where
  "main_dispatch args =
     (case args of
        [] \<Rightarrow> Exit 2
      | command # rst \<Rightarrow>
          (case parse_flags (if command = ''service'' then tl rst else rst) default_options Info of
             Inl rc \<Rightarrow> Exit rc
           | Inr (opt, lvl) \<Rightarrow>
               if command = ''inventory'' then Cmd_inventory opt
               else if command = ''vuln'' then Cmd_vuln opt
               else if command = ''report'' then Cmd_report opt
               else if command = ''run'' then Cmd_run opt
               else if command = ''service'' then (if rst = [] then Exit 2 else Cmd_service opt (hd rst))
               else if command = ''version'' then Cmd_version
               else if command = ''-h'' \<or> command = ''--help'' then Exit 0
               else Exit 2))"

section \<open>The service's command line\<close>

definition is_blank :: "char \<Rightarrow> bool" where
  "is_blank c \<longleftrightarrow> c = CHR '' '' \<or> c = CHR 0x09"

definition quote_arg :: "string \<Rightarrow> string" where
  "quote_arg s =
     (if s \<noteq> [] \<and> list_all (\<lambda>c. \<not> is_blank c \<and> c \<noteq> DQ) s then s
      else [DQ] @ concat (map (\<lambda>c. if c = DQ then [BS, c] else [c]) s) @ [DQ])"

text \<open>\<open>absolute\<close> is \<^verbatim>\<open>std::filesystem::absolute\<close>.\<close>

definition service_args :: "(string \<Rightarrow> string) \<Rightarrow> options \<Rightarrow> string" where
  "service_args absolute opt =
     ''run'' @ '' --index '' @ quote_arg (absolute (index_path opt)) @
     '' --aliases '' @ quote_arg (absolute (alias_path opt)) @
     '' --interval '' @ show_int (interval_s opt) @
     (if state_dir opt = [] then []
      else '' --state-dir '' @ quote_arg (absolute (state_dir opt)) @
           '' --log-file '' @ quote_arg (absolute (state_dir opt @ ''/agent.log''))) @
     (if opt_db opt = [] then [] else '' --db '' @ quote_arg (opt_db opt)) @
     (if opt_url opt = [] then []
      else '' --url '' @ quote_arg (opt_url opt) @ '' --spool '' @ quote_arg (absolute (spool_dir opt)) @
           (if pin_file opt = [] then [] else '' --pin-file '' @ quote_arg (absolute (pin_file opt))) @
           (if client_cert opt = [] then [] else '' --client-cert '' @ quote_arg (absolute (client_cert opt))))"

datatype service_outcome = Install string string | Uninstall | Unknown_action

definition cmd_service :: "string \<Rightarrow> (string \<Rightarrow> string) \<Rightarrow> options \<Rightarrow> string \<Rightarrow> service_outcome" where
  "cmd_service exe absolute opt act =
     (if act = ''install'' then Install exe (service_args absolute opt)
      else if act = ''uninstall'' then Uninstall
      else Unknown_action)"

text \<open>
  The arguments of a Windows command line. A run of backslashes is literal unless a quote follows:
  then each pair gives one backslash, and an odd one makes the quote literal. Other quotes switch
  quoting; a doubled quote inside quotes is literal.
\<close>

fun scan_arg :: "bool \<Rightarrow> nat \<Rightarrow> string \<Rightarrow> string \<Rightarrow> string \<times> string" where
  "scan_arg q b acc [] = (acc @ replicate b BS, [])"
| "scan_arg q b acc (c # s) =
     (if c = BS then scan_arg q (Suc b) acc s
      else if c = DQ then
        (if odd b then scan_arg q 0 (acc @ replicate (b div 2) BS @ [DQ]) s
         else if q \<and> s \<noteq> [] \<and> hd s = DQ then scan_arg q 0 (acc @ replicate (b div 2) BS @ [DQ]) (tl s)
         else scan_arg (\<not> q) 0 (acc @ replicate (b div 2) BS) s)
      else if is_blank c \<and> \<not> q then (acc @ replicate b BS, s)
      else scan_arg q 0 (acc @ replicate b BS @ [c]) s)"

lemma scan_arg_shorter: "length (snd (scan_arg q b acc s)) \<le> length s"
proof (induction q b acc s rule: scan_arg.induct)
  case (2 q b acc c s)
  have le: "n \<le> length s - 1 \<Longrightarrow> n \<le> Suc (length s)" "n \<le> length s \<Longrightarrow> n \<le> Suc (length s)" for n by linarith+
  show ?case using 2 by (simp add: le)
qed simp

function windows_argv :: "string \<Rightarrow> string list" where
  "windows_argv s =
     (let t = dropWhile is_blank s in
      if t = [] then [] else fst (scan_arg False 0 [] t) # windows_argv (snd (scan_arg False 0 [] t)))"
  by pat_completeness auto
termination
proof (relation "measure length")
  fix s t assume t: "t = dropWhile is_blank s" "t \<noteq> []"
  obtain c r where c: "t = c # r" using t(2) by (cases t) auto
  then have "\<not> is_blank c" using t hd_dropWhile [of is_blank s] by simp
  then have "length (snd (scan_arg False 0 [] t)) < length t"
    using scan_arg_shorter c by (auto simp: less_Suc_eq_le)
  also have "\<dots> \<le> length s" using t(1) length_dropWhile_le by simp
  finally show "(snd (scan_arg False 0 [] t), s) \<in> measure length" by simp
qed simp

declare windows_argv.simps [simp del]

section \<open>Quoting\<close>

fun bs_safe :: "string \<Rightarrow> bool" where
  "bs_safe [] = True"
| "bs_safe [c] = (c \<noteq> BS)"
| "bs_safe (c # d # s) = (\<not> (c = BS \<and> d = DQ) \<and> bs_safe (d # s))"

definition plain_arg :: "string \<Rightarrow> bool" where
  "plain_arg s \<longleftrightarrow> s \<noteq> [] \<and> list_all (\<lambda>c. \<not> is_blank c \<and> c \<noteq> DQ) s"

text \<open>An argument that needs no quotes, or in which no backslash stands before a quote or at the end.\<close>

definition safe_arg :: "string \<Rightarrow> bool" where
  "safe_arg s \<longleftrightarrow> plain_arg s \<or> bs_safe s"

definition quoted_text :: "string \<Rightarrow> string" where
  "quoted_text s = concat (map (\<lambda>c. if c = DQ then [BS, c] else [c]) s)"

lemma bs_safe_tail: "bs_safe (c # s) \<Longrightarrow> bs_safe s"
  by (cases s) auto

lemma bs_safe_replicate: "bs_safe (replicate b BS @ s) \<Longrightarrow> bs_safe s"
  by (induction b) (auto dest: bs_safe_tail)

lemma bs_safe_replicate_end: "bs_safe (replicate b BS) \<Longrightarrow> b = 0"
proof (induction b)
  case (Suc b) then show ?case by (cases b) auto
qed simp

lemma bs_safe_replicate_quote: "bs_safe (replicate b BS @ DQ # s) \<Longrightarrow> b = 0"
proof (induction b)
  case (Suc b) then show ?case by (cases b) auto
qed simp

lemma scan_arg_quoted:
  "bs_safe (replicate b BS @ s) \<Longrightarrow> t = [] \<or> hd t \<noteq> DQ \<Longrightarrow>
     scan_arg True b acc (quoted_text s @ DQ # t) = scan_arg False 0 (acc @ replicate b BS @ s) t"
proof (induction s arbitrary: b acc)
  case Nil
  then show ?case using bs_safe_replicate_end [of b] by (auto simp: quoted_text_def)
next
  case (Cons c s)
  have safe: "bs_safe s" using bs_safe_replicate [OF Cons.prems(1)] bs_safe_tail by blast
  consider "c = DQ" | "c = BS" | "c \<noteq> DQ" "c \<noteq> BS" by blast
  then show ?case
  proof cases
    case 1
    then have "b = 0" using Cons.prems(1) bs_safe_replicate_quote by blast
    then show ?thesis using Cons.IH [of 0 "acc @ [DQ]"] Cons.prems(2) safe 1 by (simp add: quoted_text_def)
  next
    case 2
    then show ?thesis
      using Cons.IH [of "Suc b" acc] Cons.prems by (simp add: quoted_text_def replicate_app_Cons_same)
  next
    case 3
    then show ?thesis
      using Cons.IH [of 0 "acc @ replicate b BS @ [c]"] Cons.prems(2) safe by (simp add: quoted_text_def)
  qed
qed

lemma scan_arg_plain:
  "list_all (\<lambda>c. \<not> is_blank c \<and> c \<noteq> DQ) s \<Longrightarrow> t = [] \<or> is_blank (hd t) \<Longrightarrow>
     scan_arg False b acc (s @ t) = (acc @ replicate b BS @ s, tl t)"
proof (induction s arbitrary: b acc)
  case Nil
  then show ?case by (cases t) (auto simp: is_blank_def)
next
  case (Cons c s)
  then show ?case by (cases "c = BS") (simp_all add: replicate_app_Cons_same)
qed

lemma scan_arg_quote:
  assumes "safe_arg s" and "t = [] \<or> is_blank (hd t)"
  shows "scan_arg False 0 [] (quote_arg s @ t) = (s, tl t)"
proof (cases "plain_arg s")
  case True
  then show ?thesis using scan_arg_plain [of s t 0 "[]"] assms(2) by (simp add: quote_arg_def plain_arg_def)
next
  case False
  then have safe: "bs_safe s" using assms(1) by (simp add: safe_arg_def)
  have t: "t = [] \<or> hd t \<noteq> DQ" using assms(2) by (auto simp: is_blank_def)
  have "scan_arg False 0 [] (quote_arg s @ t) = scan_arg True 0 [] (quoted_text s @ DQ # t)"
    using False by (auto simp: quote_arg_def plain_arg_def quoted_text_def)
  also have "\<dots> = scan_arg False 0 s t" using scan_arg_quoted [of 0 s t "[]"] safe t by simp
  also have "\<dots> = (s, tl t)" using scan_arg_plain [of "[]" t 0 s] assms(2) by simp
  finally show ?thesis .
qed

lemma hd_quote_arg: "quote_arg s \<noteq> [] \<and> \<not> is_blank (hd (quote_arg s))"
  by (cases s) (auto simp: quote_arg_def is_blank_def)

text \<open>Arguments separated by single spaces.\<close>

fun join_args :: "string list \<Rightarrow> string" where
  "join_args [] = []"
| "join_args [a] = a"
| "join_args (a # as) = a @ CHR '' '' # join_args as"

lemma windows_argv_join: "list_all safe_arg as \<Longrightarrow> windows_argv (join_args (map quote_arg as)) = as"
proof (induction as rule: join_args.induct)
  case 1 then show ?case by (simp add: windows_argv.simps)
next
  case (2 a)
  have "dropWhile is_blank (quote_arg a) = quote_arg a" using hd_quote_arg [of a] by (cases "quote_arg a") auto
  moreover have "scan_arg False 0 [] (quote_arg a) = (a, [])" using scan_arg_quote [of a "[]"] 2 by simp
  moreover have "windows_argv [] = []" by (simp add: windows_argv.simps)
  ultimately show ?case using hd_quote_arg [of a] by (simp add: windows_argv.simps [of "quote_arg a"] Let_def)
next
  case (3 a b as)
  let ?t = "CHR '' '' # join_args (quote_arg b # map quote_arg as)"
  have "dropWhile is_blank (quote_arg a @ ?t) = quote_arg a @ ?t" using hd_quote_arg [of a] by (cases "quote_arg a") auto
  moreover have "scan_arg False 0 [] (quote_arg a @ ?t) = (a, join_args (quote_arg b # map quote_arg as))"
    using scan_arg_quote [of a ?t] 3(2) by (simp add: is_blank_def)
  ultimately have "windows_argv (quote_arg a @ ?t) = a # windows_argv (join_args (quote_arg b # map quote_arg as))"
    unfolding windows_argv.simps [of "quote_arg a @ ?t"] Let_def by simp
  then show ?case using 3 by simp
qed

section \<open>The installed command line\<close>

definition service_words :: "(string \<Rightarrow> string) \<Rightarrow> options \<Rightarrow> string list" where
  "service_words absolute opt =
     [''run'', ''--index'', absolute (index_path opt), ''--aliases'', absolute (alias_path opt),
      ''--interval'', show_int (interval_s opt)] @
     (if state_dir opt = [] then []
      else [''--state-dir'', absolute (state_dir opt), ''--log-file'', absolute (state_dir opt @ ''/agent.log'')]) @
     (if opt_db opt = [] then [] else [''--db'', opt_db opt]) @
     (if opt_url opt = [] then []
      else [''--url'', opt_url opt, ''--spool'', absolute (spool_dir opt)] @
           (if pin_file opt = [] then [] else [''--pin-file'', absolute (pin_file opt)]) @
           (if client_cert opt = [] then [] else [''--client-cert'', absolute (client_cert opt)]))"

lemma join_args_Cons: "join_args (a # as) = a @ concat (map (\<lambda>x. CHR '' '' # x) as)"
  by (induction as arbitrary: a) simp_all

lemma quote_show_int: "quote_arg (show_int i) = show_int i" and safe_show_int: "safe_arg (show_int i)"
proof -
  have "\<not> is_blank c \<and> c \<noteq> DQ" if "c \<in> set (show_nat n)" for c n
    using show_nat_digitD [OF that] by (auto simp: is_digit_def is_blank_def)
  then have "plain_arg (show_int i)" by (auto simp: plain_arg_def show_int_def list_all_iff is_blank_def)
  then show "quote_arg (show_int i) = show_int i" "safe_arg (show_int i)"
    by (simp_all add: plain_arg_def quote_arg_def safe_arg_def)
qed

lemma service_args_words: "service_args absolute opt = join_args (map quote_arg (service_words absolute opt))"
proof -
  have flags: "quote_arg f = f" if "f \<in> {''run'', ''--index'', ''--aliases'', ''--interval'', ''--state-dir'', ''--log-file'',
      ''--db'', ''--url'', ''--spool'', ''--pin-file'', ''--client-cert''}" for f
    using that by (auto simp: quote_arg_def is_blank_def)
  show ?thesis by (simp add: service_args_def service_words_def join_args_Cons quote_show_int flags)
qed

lemma parse_flags_service:
  "parse_flags (''--index'' # v # r) opt lvl = parse_flags r (opt\<lparr>index_path := v\<rparr>) lvl"
  "parse_flags (''--aliases'' # v # r) opt lvl = parse_flags r (opt\<lparr>alias_path := v\<rparr>) lvl"
  "parse_flags (''--interval'' # v # r) opt lvl = parse_flags r (opt\<lparr>interval_s := atoi v\<rparr>) lvl"
  "parse_flags (''--state-dir'' # v # r) opt lvl = parse_flags r (opt\<lparr>state_dir := v\<rparr>) lvl"
  "parse_flags (''--log-file'' # v # r) opt lvl = parse_flags r (opt\<lparr>log_file := v\<rparr>) lvl"
  "parse_flags (''--db'' # v # r) opt lvl = parse_flags r (opt\<lparr>opt_db := v\<rparr>) lvl"
  "parse_flags (''--url'' # v # r) opt lvl = parse_flags r (opt\<lparr>opt_url := v\<rparr>) lvl"
  "parse_flags (''--spool'' # v # r) opt lvl = parse_flags r (opt\<lparr>spool_dir := v\<rparr>) lvl"
  "parse_flags (''--pin-file'' # v # r) opt lvl = parse_flags r (opt\<lparr>pin_file := v\<rparr>) lvl"
  "parse_flags (''--client-cert'' # v # r) opt lvl = parse_flags r (opt\<lparr>client_cert := v\<rparr>) lvl"
  by (simp_all add: set_option_def)

lemma atoi_show_int: "- (2 ^ 31) \<le> i \<Longrightarrow> i < 2 ^ 31 \<Longrightarrow> atoi (show_int i) = i"
proof -
  assume i: "- (2 ^ 31) \<le> i" "i < 2 ^ 31"
  have w: "sint (word_of_int k :: 32 word) = k" if "- (2 ^ 31) \<le> k" "k < 2 ^ 31" for k
    using that by (subst sint_sbintrunc') (simp add: signed_take_bit_int_eq_self)
  have "strtoll (show_int i) = i"
  proof (cases "i < 0")
    case True
    have tw: "takeWhile is_digit (show_nat n) = show_nat n" for n
      using show_nat_digits by (simp add: takeWhile_eq_all_conv list_all_iff)
    show ?thesis using True i by (simp add: strtoll_def show_int_def split_sign_def is_space_def tw)
  next
    case False
    then show ?thesis
      using strtoll_digits [of "show_nat (nat i)" "[]"] show_nat_digits [of "nat i"] i by (simp add: show_int_def)
  qed
  then show ?thesis using w [OF i] by (simp add: atoi_def)
qed

lemma dispatch_service_words:
  assumes "- (2 ^ 31) \<le> interval_s opt" and "interval_s opt < 2 ^ 31"
  shows "main_dispatch (service_words absolute opt) = Cmd_run (default_options\<lparr>
     index_path := absolute (index_path opt), alias_path := absolute (alias_path opt), interval_s := interval_s opt,
     state_dir := (if state_dir opt = [] then [] else absolute (state_dir opt)),
     log_file := (if state_dir opt = [] then [] else absolute (state_dir opt @ ''/agent.log'')),
     opt_db := opt_db opt, opt_url := opt_url opt,
     spool_dir := (if opt_url opt = [] then ''spool'' else absolute (spool_dir opt)),
     pin_file := (if opt_url opt = [] \<or> pin_file opt = [] then [] else absolute (pin_file opt)),
     client_cert := (if opt_url opt = [] \<or> client_cert opt = [] then [] else absolute (client_cert opt))\<rparr>)"
  using atoi_show_int [OF assms]
  by (cases "state_dir opt = []"; cases "opt_db opt = []"; cases "opt_url opt = []"; cases "pin_file opt = []";
      cases "client_cert opt = []")
    (simp_all add: main_dispatch_def service_words_def parse_flags_service default_options_def del: parse_flags.simps(2))

section \<open>The client\<close>

text \<open>The client is built for Windows, where \<^verbatim>\<open>unsigned long\<close> has 32 bits.\<close>

definition strtoul :: "string \<Rightarrow> nat" where
  "strtoul s =
     (let (neg, u) = split_sign (dropWhile is_space s);
          v = dec_val (takeWhile is_digit u)
      in if 2 ^ 32 \<le> v then 2 ^ 32 - 1 else if neg then (2 ^ 32 - v) mod 2 ^ 32 else v)"

definition nsctl_default_timeout :: nat where
  "nsctl_default_timeout = 10000"

fun nsctl_args :: "string list \<Rightarrow> string \<Rightarrow> nat \<Rightarrow> string \<Rightarrow> int + string \<times> nat \<times> string" where
  "nsctl_args [] pip timeout request = Inr (pip, timeout, request)"
| "nsctl_args (a # rst) pip timeout request =
     (if a = ''--pipe'' \<and> rst \<noteq> [] then nsctl_args (tl rst) (hd rst) timeout request
      else if a = ''--timeout'' \<and> rst \<noteq> [] then nsctl_args (tl rst) pip (strtoul (hd rst)) request
      else if a = ''-h'' \<or> a = ''--help'' then Inl 0
      else nsctl_args rst pip timeout ((if request = [] then [] else request @ '' '') @ a))"

definition scan_timeout :: "string \<Rightarrow> nat \<Rightarrow> nat" where
  "scan_timeout request timeout =
     (if starts_with ''scan'' request then
        (let wait = (case find_char (CHR '' '') request of None \<Rightarrow> 30000 | Some sp \<Rightarrow> strtoul (drop (sp + 1) request))
         in if (wait + 5000) mod 2 ^ 32 > timeout then (wait + 5000) mod 2 ^ 32 else timeout)
      else timeout)"

text \<open>\<open>call\<close> is the pipe client: the response, or nothing on failure.\<close>

definition nsctl_main :: "(string \<Rightarrow> string \<Rightarrow> nat \<Rightarrow> string option) \<Rightarrow> string list \<Rightarrow> int \<times> string" where
  "nsctl_main call args =
     (if args = [] then (2, [])
      else case nsctl_args args kDefaultPipe nsctl_default_timeout [] of
        Inl rc \<Rightarrow> (rc, [])
      | Inr (pip, timeout, request) \<Rightarrow>
          (case call pip request (scan_timeout request timeout) of
             None \<Rightarrow> (1, [])
           | Some response \<Rightarrow>
               ((if starts_with ([CHR ''{'', DQ] @ ''error'' @ [DQ]) response then 1 else 0), response @ [CHR 0x0A])))"

section \<open>The properties\<close>

text \<open>
  The command line the service is registered with starts the agent with the options that were
  given at installation: split by the C runtime and parsed again it yields the paths made
  absolute, the interval, the connection string and the URL. Every option it does not mention
  comes back as its default, the pin among them.
\<close>

theorem service_args_roundtrip:
  assumes "list_all safe_arg (service_words absolute opt)"
    and "- (2 ^ 31) \<le> interval_s opt" and "interval_s opt < 2 ^ 31"
  shows "main_dispatch (windows_argv (service_args absolute opt)) = Cmd_run (default_options\<lparr>
     index_path := absolute (index_path opt), alias_path := absolute (alias_path opt), interval_s := interval_s opt,
     state_dir := (if state_dir opt = [] then [] else absolute (state_dir opt)),
     log_file := (if state_dir opt = [] then [] else absolute (state_dir opt @ ''/agent.log'')),
     opt_db := opt_db opt, opt_url := opt_url opt,
     spool_dir := (if opt_url opt = [] then ''spool'' else absolute (spool_dir opt)),
     pin_file := (if opt_url opt = [] \<or> pin_file opt = [] then [] else absolute (pin_file opt)),
     client_cert := (if opt_url opt = [] \<or> client_cert opt = [] then [] else absolute (client_cert opt))\<rparr>)"
  using dispatch_service_words [OF assms(2, 3)] windows_argv_join [OF assms(1)] by (simp add: service_args_words)

theorem service_args_roundtrip_witness:
  "main_dispatch (windows_argv (service_args (\<lambda>p. ''C:'' @ [BS] @ p) (default_options\<lparr>opt_db := ''DSN=a b'', opt_pin := ''ab''\<rparr>))) =
     Cmd_run (default_options\<lparr>index_path := ''C:'' @ [BS] @ ''data/cve_index.tsv'',
       alias_path := ''C:'' @ [BS] @ ''data/cpe_aliases.tsv'', opt_db := ''DSN=a b''\<rparr>)"
  using service_args_roundtrip [of "\<lambda>p. ''C:'' @ [BS] @ p" "default_options\<lparr>opt_db := ''DSN=a b'', opt_pin := ''ab''\<rparr>"]
    safe_show_int [of 300]
  by (simp add: default_options_def service_words_def safe_arg_def)

text \<open>A directory that ends in a backslash and has a space in it breaks the quoting.\<close>

lemma quote_arg_trailing_backslash:
  "windows_argv (quote_arg (''C:'' @ [BS] @ ''my dir'' @ [BS]) @ '' --next'') = [''C:'' @ [BS] @ ''my dir'' @ [DQ] @ '' --next'']"
  by code_simp

end
