(* ===== verification/Commands.thy ===== *)
theory Commands
  imports Nvd_Index Cli
begin

text \<open>
  The commands of \<^verbatim>\<open>src/src/main.cpp\<close> that print a report: \<^verbatim>\<open>version\<close>, \<^verbatim>\<open>inventory\<close> and \<^verbatim>\<open>vuln\<close>, with the
  fixed package list of \<^verbatim>\<open>--packages\<close>. Each gives its exit code and standard output; files are
  looked up in an argument.
\<close>

definition cmd_version :: "platform \<Rightarrow> int \<times> string" where
  "cmd_version pf = (0, kAgentName @ '' '' @ kAgentVersion @ '' ('' @ kAgentStage @ '', '' @ platform_name pf @ '' backend)'' @ [NL])"

definition cmd_inventory :: "platform \<Rightarrow> options \<Rightarrow> int \<times> string" where
  "cmd_inventory pf opt = (0, to_json (opt_pretty opt) (collect_inventory pf) @ [NL])"

text \<open>One line of the package list: the first two tab-separated fields.\<close>

definition package_line :: "string \<Rightarrow> package list" where
  "package_line line =
     (if line = [] \<or> hd line = CHR ''#'' then []
      else let c = getline_all TAB line; n = (case c of [] \<Rightarrow> [] | x # _ \<Rightarrow> x); v = (case c of _ # y # _ \<Rightarrow> y | _ \<Rightarrow> []) in
        if n = [] then []
        else [\<lparr>pkg_name = n, pkg_version = v, pkg_vendor = [], pkg_source = ''package-list''\<rparr>])"

definition load_package_list :: "string option \<Rightarrow> inventory \<Rightarrow> bool \<times> inventory" where
  "load_package_list file iv =
     (case file of
        None \<Rightarrow> (False, iv)
      | Some txt \<Rightarrow> (True, iv\<lparr>packages := packages iv @ concat (map package_line (getline_all NL txt))\<rparr>))"

definition cmd_vuln :: "unspecified \<Rightarrow> platform \<Rightarrow> (string \<Rightarrow> string option) \<Rightarrow> options \<Rightarrow> int \<times> string" where
  "cmd_vuln u pf files opt =
     (case load_rules (files (index_path opt)) empty_index of
        (Inl _, _) \<Rightarrow> (1, [])
      | (Inr _, ix) \<Rightarrow>
          (case load_aliases u (files (alias_path opt)) ix of
             (Inl _, _) \<Rightarrow> (1, [])
           | (Inr _, ix) \<Rightarrow>
               let (read_ok, iv) =
                 (if packages_path opt \<noteq> []
                  then load_package_list (files (packages_path opt))
                         (empty_inventory\<lparr>inv_platform := platform_name pf, collected_at_unix_ms := clock_unix_ms pf\<rparr>)
                  else (True, collect_inventory pf))
               in if \<not> read_ok then (1, [])
                  else let (fs, sm) = scan u ix iv empty_summary
                       in (0, findings_to_json fs sm iv (opt_pretty opt) @ [NL])))"

text \<open>A package list written with one name and version per line is read back.\<close>

definition listed :: "string \<times> string \<Rightarrow> package" where
  "listed p = \<lparr>pkg_name = fst p, pkg_version = snd p, pkg_vendor = [], pkg_source = ''package-list''\<rparr>"

lemma package_line_tsv:
  assumes "n \<noteq> []" "hd n \<noteq> CHR ''#''" "TAB \<notin> set n" "TAB \<notin> set v" "v \<noteq> []"
  shows "package_line (n @ TAB # v) = [listed (n, v)]"
  using assms by (simp add: package_line_def listed_def getline_all_sep getline_all_last hd_append)

lemma load_package_list_file:
  assumes "\<And>n v. (n, v) \<in> set ps \<Longrightarrow> n \<noteq> [] \<and> hd n \<noteq> CHR ''#'' \<and> v \<noteq> [] \<and> {TAB, NL} \<inter> (set n \<union> set v) = {}"
  shows "load_package_list (Some (file_lines (map (\<lambda>(n, v). n @ TAB # v) ps))) iv =
    (True, iv\<lparr>packages := packages iv @ map listed ps\<rparr>)"
proof -
  have "getline_all NL (file_lines (map (\<lambda>(n, v). n @ TAB # v) ps)) = map (\<lambda>(n, v). n @ TAB # v) ps"
    using assms by (intro getline_file_lines) fastforce
  moreover have "concat (map package_line (map (\<lambda>(n, v). n @ TAB # v) ps)) = concat (map (\<lambda>p. [listed p]) ps)"
    by (intro arg_cong [of _ _ concat]) (use assms package_line_tsv in fastforce)
  ultimately show ?thesis by (simp add: load_package_list_def del: map_map)
qed

end
