(* ===== verification/Frame_Codec.thy ===== *)
theory Frame_Codec
  imports NS_Prelude
begin

unbundle bit_operations_syntax

text \<open>
  The record frame of \<^verbatim>\<open>src/src/spool.cpp\<close>: the table-driven CRC-32, the little-endian
  32-bit fields and the frame \<^verbatim>\<open>magic | length | crc | payload\<close>. The lemmas show that the table
  computes the bitwise CRC, that the checksum separates payloads which differ inside a window of
  four bytes, that a frame reads back exactly, and that a torn prefix of a frame never reads as
  a record.
\<close>

section \<open>CRC-32\<close>

definition kMagic :: "32 word" where
  "kMagic = 0x4E535031"

definition kHeaderBytes :: nat where
  "kHeaderBytes = 12"

definition crc_shift :: "32 word \<Rightarrow> 32 word" where
  "crc_shift c = (if c AND 1 \<noteq> 0 then 0xEDB88320 XOR drop_bit 1 c else drop_bit 1 c)"

definition crc_table :: "32 word list" where
  "crc_table = map (\<lambda>i. (crc_shift ^^ 8) (of_nat i)) [0..<256]"

definition crc_update :: "32 word \<Rightarrow> char \<Rightarrow> 32 word" where
  "crc_update c p = crc_table ! unat ((c XOR of_char p) AND 0xFF) XOR drop_bit 8 c"

definition crc32 :: "string \<Rightarrow> 32 word" where
  "crc32 data = foldl crc_update 0xFFFFFFFF data XOR 0xFFFFFFFF"

section \<open>Frames\<close>

definition put_u32 :: "32 word \<Rightarrow> string" where
  "put_u32 v =
     [char_of (unat (v AND 0xFF)),
      char_of (unat (drop_bit 8 v AND 0xFF)),
      char_of (unat (drop_bit 16 v AND 0xFF)),
      char_of (unat (drop_bit 24 v AND 0xFF))]"

definition get_u32 :: "string \<Rightarrow> 32 word" where
  "get_u32 src =
     of_char (src ! 0) OR push_bit 8 (of_char (src ! 1)) OR
     push_bit 16 (of_char (src ! 2)) OR push_bit 24 (of_char (src ! 3))"

definition frame :: "string \<Rightarrow> string" where
  "frame payload =
     put_u32 kMagic @ put_u32 (of_nat (length payload)) @ put_u32 (crc32 payload) @ payload"

text \<open>One round of the reading loop of \<^verbatim>\<open>peek\<close>: what the next bytes of a segment are.\<close>

datatype frame_read =
    Short_header
  | Bad_magic
  | Short_payload
  | Bad_crc
  | Frame (frame_payload: string) (frame_rest: string)

definition read_frame :: "string \<Rightarrow> frame_read" where
  "read_frame s =
     (if length s < kHeaderBytes then Short_header
      else if get_u32 s \<noteq> kMagic then Bad_magic
      else let len = unat (get_u32 (drop 4 s));
               want_crc = get_u32 (drop 8 s);
               body = drop kHeaderBytes s
           in if length body < len then Short_payload
              else if crc32 (take len body) \<noteq> want_crc then Bad_crc
              else Frame (take len body) (drop len body))"

text \<open>The bit-at-a-time CRC-32 (reflected polynomial \<open>0xEDB88320\<close>), as the reference.\<close>

definition crc_byte :: "32 word \<Rightarrow> char \<Rightarrow> 32 word" where
  "crc_byte c p = (crc_shift ^^ 8) (c XOR of_char p)"

definition crc32_bitwise :: "string \<Rightarrow> 32 word" where
  "crc32_bitwise data = foldl crc_byte 0xFFFFFFFF data XOR 0xFFFFFFFF"

definition frames :: "string list \<Rightarrow> string" where
  "frames ps = concat (map frame ps)"

text \<open>Payloads whose length fits the 32-bit length field.\<close>

abbreviation fits :: "string \<Rightarrow> bool" where
  "fits p \<equiv> length p \<le> 0xFFFFFFFF"

section \<open>The checksum\<close>

lemma xor_cancel: "(a :: 32 word) XOR b = a XOR c \<longleftrightarrow> b = c"
  by (metis xor.left_neutral xor.assoc xor_self_eq)

lemma xor_cancel_right: "(b :: 32 word) XOR a = c XOR a \<longleftrightarrow> b = c"
  by (metis xor.commute xor_cancel)

lemma ff_mask: "(0xFF :: 32 word) = mask 8"
  by (simp add: mask_eq_exp_minus_1)

lemma u32_bytes:
  "(v :: 32 word) AND 0xFF OR push_bit 8 (drop_bit 8 v AND 0xFF) OR
   push_bit 16 (drop_bit 16 v AND 0xFF) OR push_bit 24 (drop_bit 24 v AND 0xFF) = v"
  unfolding ff_mask
proof (rule bit_word_eqI)
  fix n :: nat
  assume "n < LENGTH(32)"
  then consider "n < 8" | "8 \<le> n" "n < 16" | "16 \<le> n" "n < 24" | "24 \<le> n" "n < 32"
    by force
  then show "bit (v AND mask 8 OR push_bit 8 (drop_bit 8 v AND mask 8) OR
      push_bit 16 (drop_bit 16 v AND mask 8) OR push_bit 24 (drop_bit 24 v AND mask 8)) n = bit v n"
    by cases (auto simp: bit_simps)
qed

lemma crc_shift_alt:
  "crc_shift c = (if odd c then 0xEDB88320 else 0) XOR drop_bit 1 c"
  by (cases "even c") (auto simp: crc_shift_def and_one_eq even_iff_mod_2_eq_zero)

lemma crc_shift_xor: "crc_shift (a XOR b) = crc_shift a XOR crc_shift b"
  by (auto simp: crc_shift_alt even_xor_iff xor.assoc xor.commute xor.left_commute)

lemma crc_shift_pow_xor: "(crc_shift ^^ k) (a XOR b) = (crc_shift ^^ k) a XOR (crc_shift ^^ k) b"
  by (induction k) (simp_all add: crc_shift_xor)

lemma crc_shift_pow_low_zero:
  "take_bit k c = 0 \<Longrightarrow> (crc_shift ^^ k) c = drop_bit k c"
proof (induction k)
  case 0 then show ?case by simp
next
  case (Suc k)
  have "take_bit k c = take_bit k (take_bit (Suc k) c)"
    by (simp add: take_bit_take_bit)
  then have "take_bit k c = 0"
    by (simp only: Suc.prems take_bit_of_0)
  with Suc.IH have *: "(crc_shift ^^ k) c = drop_bit k c" by blast
  have "bit (take_bit (Suc k) c) k = bit c k"
    by (simp add: bit_take_bit_iff)
  then have "\<not> bit c k" by (simp only: Suc.prems) simp
  then have "even (drop_bit k c)" by (simp add: bit_iff_odd_drop_bit)
  with * show ?case by (simp add: crc_shift_alt [of "drop_bit k c"] drop_bit_drop_bit)
qed

lemma crc_shift_inj: "crc_shift a = crc_shift b \<Longrightarrow> a = b"
proof -
  assume eq: "crc_shift a = crc_shift b"
  have top: "bit (crc_shift c) 31 = odd c" for c
    by (auto simp: crc_shift_alt bit_simps dest: bit_imp_le_length)
  have "odd a = odd b" using top [of a] top [of b] eq by simp
  moreover from this eq have "drop_bit 1 a = drop_bit 1 b"
    by (simp add: crc_shift_alt xor_cancel)
  ultimately have "bit a n = bit b n" for n
    by (cases n) (auto simp: bit_0 bit_Suc drop_bit_eq_div)
  then show "a = b" by (simp add: bit_eq_iff)
qed

lemma crc_shift_pow_inj: "(crc_shift ^^ k) a = (crc_shift ^^ k) b \<Longrightarrow> a = b"
  by (induction k) (auto dest: crc_shift_inj)

lemma unat_of_char [simp]: "unat (of_char p :: 32 word) = byte p"
proof -
  have "unat (of_nat (byte p) :: 32 word) = byte p"
    by (subst unat_of_nat, subst mod_less) (simp_all add: order.strict_trans [OF byte_less_256])
  then show ?thesis by (simp only: of_nat_of_char)
qed

lemma drop_bit_of_char: "drop_bit 8 (of_char p :: 32 word) = 0"
proof -
  have "unat (drop_bit 8 (of_char p :: 32 word)) = 0"
    by (simp only: unat_drop_bit_eq unat_of_char) (simp add: drop_bit_eq_div)
  then show ?thesis by (simp only: unat_0_iff)
qed

lemma crc_table_nth:
  "i < 256 \<Longrightarrow> crc_table ! i = (crc_shift ^^ 8) (of_nat i)"
  by (simp add: crc_table_def)

lemma unat_low_byte: "unat ((w :: 32 word) AND 0xFF) < 256"
proof -
  have "w AND 0xFF \<le> 0xFF" by (rule word_and_le1)
  then have "unat (w AND 0xFF) \<le> unat (0xFF :: 32 word)" by (simp add: word_le_nat_alt)
  then show ?thesis by simp
qed

lemma crc_update_eq_crc_byte: "crc_update c p = crc_byte c p"
proof -
  let ?x = "c XOR of_char p"
  have split: "?x = (?x AND mask 8) XOR (?x AND NOT (mask 8))"
    by (rule bit_word_eqI) (auto simp: bit_simps)
  have "take_bit 8 (?x AND NOT (mask 8)) = 0"
    by (rule bit_word_eqI) (auto simp: bit_simps)
  then have high: "(crc_shift ^^ 8) (?x AND NOT (mask 8)) = drop_bit 8 (?x AND NOT (mask 8))"
    by (rule crc_shift_pow_low_zero)
  have "drop_bit 8 (?x AND NOT (mask 8)) = drop_bit 8 ?x"
    by (rule bit_word_eqI) (auto simp: bit_simps dest: bit_imp_le_length)
  also have "\<dots> = drop_bit 8 c"
    by (simp add: drop_bit_of_char)
  finally have "(crc_shift ^^ 8) (?x AND NOT (mask 8)) = drop_bit 8 c"
    using high by simp
  then have "crc_byte c p = (crc_shift ^^ 8) (?x AND mask 8) XOR drop_bit 8 c"
    unfolding crc_byte_def by (subst split) (simp only: crc_shift_pow_xor)
  moreover have "crc_table ! unat (?x AND 0xFF) = (crc_shift ^^ 8) (?x AND 0xFF)"
    by (subst crc_table_nth) (simp_all add: unat_low_byte)
  ultimately show ?thesis
    by (simp only: crc_update_def ff_mask)
qed

text \<open>
  C25: the table-driven \<^verbatim>\<open>crc32\<close> of the spool computes, on every input, the bit-at-a-time
  CRC-32 with the reflected polynomial \<open>0xEDB88320\<close>, initial value and final complement
  \<open>0xFFFFFFFF\<close>: precomputing the 256 entries and folding the upper bits with a shift by eight
  changes nothing.
\<close>

theorem crc32_table_correct: "crc32 data = crc32_bitwise data"
  by (simp add: crc32_def crc32_bitwise_def crc_update_eq_crc_byte [abs_def])

subsection \<open>Which corruptions the checksum separates\<close>

text \<open>Up to four bytes enter the register like one little-endian word.\<close>

fun le_word :: "string \<Rightarrow> 32 word" where
  "le_word [] = 0"
| "le_word (b # bs) = of_char b XOR push_bit 8 (le_word bs)"

lemma bit_of_char_less: "bit (of_char b :: 32 word) n \<Longrightarrow> n < 8"
proof (rule ccontr)
  assume b: "bit (of_char b :: 32 word) n" and "\<not> n < 8"
  then have "bit (drop_bit 8 (of_char b :: 32 word)) (n - 8)"
    by (simp add: bit_drop_bit_eq)
  then show False by (simp add: drop_bit_of_char)
qed

lemma bit_le_word_less: "bit (le_word bs) n \<Longrightarrow> n < 8 * length bs"
proof (induction bs arbitrary: n)
  case (Cons b bs)
  from Cons.prems consider "bit (of_char b :: 32 word) n" | "8 \<le> n" "bit (le_word bs) (n - 8)"
    by (auto simp: bit_simps)
  then show ?case
  proof cases
    case 1
    then show ?thesis using bit_of_char_less [of b n] by simp
  next
    case 2
    then show ?thesis using Cons.IH [of "n - 8"] by simp
  qed
qed simp

lemma drop_push_le_word:
  assumes "length bs \<le> 3"
  shows "drop_bit 8 (push_bit 8 (le_word bs)) = le_word bs"
proof (rule bit_word_eqI)
  fix n
  have "n < 24" if "bit (le_word bs) n"
    using bit_le_word_less [OF that] assms by linarith
  then show "bit (drop_bit 8 (push_bit 8 (le_word bs))) n = bit (le_word bs) n"
    by (auto simp: bit_simps)
qed

lemma crc_byte_absorb:
  assumes "length bs \<le> 3"
  shows "(crc_shift ^^ 8) (c XOR le_word (b # bs)) = crc_byte c b XOR le_word bs"
proof -
  have "take_bit 8 (push_bit 8 (le_word bs)) = 0"
    by (rule bit_word_eqI) (auto simp: bit_simps)
  then have "(crc_shift ^^ 8) (push_bit 8 (le_word bs)) = drop_bit 8 (push_bit 8 (le_word bs))"
    by (rule crc_shift_pow_low_zero)
  then have "(crc_shift ^^ 8) (push_bit 8 (le_word bs)) = le_word bs"
    by (simp only: drop_push_le_word [OF assms])
  then show ?thesis
    unfolding crc_byte_def
    by (simp only: le_word.simps xor.assoc [symmetric] crc_shift_pow_xor)
qed

lemma foldl_crc_byte:
  "length bs \<le> 4 \<Longrightarrow> foldl crc_byte c bs = (crc_shift ^^ (8 * length bs)) (c XOR le_word bs)"
proof (induction bs arbitrary: c)
  case (Cons b bs)
  then have "foldl crc_byte c (b # bs) = (crc_shift ^^ (8 * length bs)) (crc_byte c b XOR le_word bs)"
    by simp
  also have "\<dots> = (crc_shift ^^ (8 * length bs)) ((crc_shift ^^ 8) (c XOR le_word (b # bs)))"
    using Cons.prems by (subst crc_byte_absorb) simp_all
  also have "\<dots> = (crc_shift ^^ (8 * length (b # bs))) (c XOR le_word (b # bs))"
    by (simp only: funpow_add [symmetric, THEN fun_cong, unfolded comp_def]) (simp add: add.commute)
  finally show ?case .
qed simp

lemma le_word_inj:
  "length u \<le> 4 \<Longrightarrow> length u = length v \<Longrightarrow> le_word u = le_word v \<Longrightarrow> u = v"
proof (induction u arbitrary: v)
  case (Cons a u)
  then obtain b w where v: "v = b # w" by (cases v) auto
  have low: "take_bit 8 (le_word (x # xs)) = of_char x" for x xs
    by (rule bit_word_eqI) (auto simp: bit_simps dest: bit_of_char_less)
  have high: "drop_bit 8 (le_word (x # xs)) = le_word xs" if "length xs \<le> 3" for x xs
    using drop_push_le_word [OF that] by (simp add: drop_bit_of_char)
  have eq: "le_word (a # u) = le_word (b # w)"
    using Cons.prems(3) by (simp only: v)
  have "(of_char a :: 32 word) = of_char b"
    using low [of a u] low [of b w] by (simp only: eq)
  then have "unat (of_char a :: 32 word) = unat (of_char b :: 32 word)" by (simp only:)
  then have "byte a = byte b" by (simp only: unat_of_char)
  moreover have "le_word u = le_word w"
    using high [of u a] high [of w b] Cons.prems(1,2) v by (simp only: eq) simp
  then have "u = w"
    using Cons.IH [of w] Cons.prems(1,2) v by simp
  ultimately show ?case using v by simp
qed simp

lemma foldl_crc_byte_inj: "foldl crc_byte a s = foldl crc_byte b s \<Longrightarrow> a = b"
proof (induction s arbitrary: a b)
  case (Cons x s)
  then have "crc_byte a x = crc_byte b x" by simp
  then show ?case
    unfolding crc_byte_def using crc_shift_pow_inj xor_cancel_right by blast
qed simp

text \<open>
  C26: the checksum tells apart any two payloads of the same length that differ only inside a
  window of at most four consecutive bytes (a burst of up to 32 bits), wherever the window is:
  in particular every single corrupted byte is detected.
\<close>

theorem crc32_detects_burst:
  assumes "length u = length v" and "length u \<le> 4" and "u \<noteq> v"
  shows "crc32 (pre @ u @ post) \<noteq> crc32 (pre @ v @ post)"
proof
  let ?c = "foldl crc_byte 0xFFFFFFFF pre"
  assume "crc32 (pre @ u @ post) = crc32 (pre @ v @ post)"
  then have "foldl crc_byte (foldl crc_byte ?c u) post = foldl crc_byte (foldl crc_byte ?c v) post"
    by (simp only: crc32_def crc_update_eq_crc_byte [abs_def] xor_cancel_right foldl_append)
  then have "foldl crc_byte ?c u = foldl crc_byte ?c v"
    by (rule foldl_crc_byte_inj)
  moreover have "length v \<le> 4" using assms by simp
  ultimately have "(crc_shift ^^ (8 * length u)) (?c XOR le_word u) =
      (crc_shift ^^ (8 * length u)) (?c XOR le_word v)"
    using foldl_crc_byte [OF assms(2), of ?c] foldl_crc_byte [of v ?c] assms(1) by (simp only:)
  then have "?c XOR le_word u = ?c XOR le_word v"
    by (rule crc_shift_pow_inj)
  then have "le_word u = le_word v"
    by (simp only: xor_cancel)
  with assms show False using le_word_inj by blast
qed

theorem crc32_detects_burst_witness:
  "crc32 (''will-be-'' @ ''c'' @ ''orrupted'') \<noteq> crc32 (''will-be-'' @ ''X'' @ ''orrupted'')"
  by (rule crc32_detects_burst) simp_all

section \<open>Reading frames back\<close>

lemma read_frame_shorter:
  "read_frame s = Frame p r \<Longrightarrow> length r < length s"
  by (auto simp: read_frame_def kHeaderBytes_def Let_def split: if_splits)

lemma length_put_u32 [simp]: "length (put_u32 v) = 4"
  by (simp add: put_u32_def)

lemma of_char_char_of_unat:
  "(of_char (char_of (unat ((w :: 32 word) AND 0xFF))) :: 32 word) = w AND 0xFF"
proof -
  have "(of_nat (of_char (char_of (unat (w AND 0xFF))) :: nat) :: 32 word) = w AND 0xFF"
    using unat_low_byte [of w] by simp
  then show ?thesis by (simp only: of_nat_of_char)
qed

lemma get_put_u32: "get_u32 (put_u32 v @ t) = v"
  unfolding get_u32_def put_u32_def
  by (simp only: nth_Cons_0 append_Cons One_nat_def nth_Cons_Suc numeral_2_eq_2 numeral_3_eq_3
      of_char_char_of_unat u32_bytes)

lemma length_frame: "length (frame p) = kHeaderBytes + length p"
  by (simp add: frame_def kHeaderBytes_def)

lemma frame_not_Nil [simp]: "frame p \<noteq> []"
  using length_frame [of p] by (auto simp: kHeaderBytes_def)

lemma drop_frame_fields:
  "drop 4 (frame p @ t) = put_u32 (of_nat (length p)) @ put_u32 (crc32 p) @ p @ t"
  "drop 8 (frame p @ t) = put_u32 (crc32 p) @ p @ t"
  "drop kHeaderBytes (frame p @ t) = p @ t"
  by (simp_all add: frame_def kHeaderBytes_def)

lemma get_frame_magic: "get_u32 (frame p @ t) = kMagic"
  by (simp add: frame_def get_put_u32)

lemma get_frame_length:
  assumes "fits p"
  shows "unat (get_u32 (drop 4 (frame p @ t))) = length p"
proof -
  have "unat (of_nat (length p) :: 32 word) = length p"
    using assms by (simp add: unat_of_nat)
  then show ?thesis by (simp only: drop_frame_fields get_put_u32)
qed

lemma get_frame_crc: "get_u32 (drop 8 (frame p @ t)) = crc32 p"
  by (simp only: drop_frame_fields get_put_u32)

lemma read_frame_frame:
  assumes "fits p"
  shows "read_frame (frame p @ t) = Frame p t"
  unfolding read_frame_def Let_def
  by (simp only: get_frame_length [OF assms] get_frame_magic get_frame_crc drop_frame_fields(3))
     (simp add: length_frame)

lemma get_u32_take:
  assumes "4 \<le> k"
  shows "get_u32 (take k s) = get_u32 s"
  using assms by (simp add: get_u32_def)

text \<open>A proper prefix of a frame: the header is short, or the payload is.\<close>

lemma read_frame_torn:
  assumes "fits p" and "k < length (frame p)"
  shows "read_frame (take k (frame p)) = (if k < kHeaderBytes then Short_header else Short_payload)"
proof (cases "k < kHeaderBytes")
  case True
  then show ?thesis using assms by (simp add: read_frame_def)
next
  case False
  let ?s = "take k (frame p)"
  have "4 \<le> k" "4 \<le> k - 4" using False by (simp_all add: kHeaderBytes_def)
  then have "get_u32 ?s = kMagic" "unat (get_u32 (drop 4 ?s)) = length p"
    using get_frame_magic [of p "[]"] get_frame_length [OF assms(1), of "[]"]
    by (simp_all add: get_u32_take drop_take)
  moreover have "length (drop kHeaderBytes ?s) < length p" "length ?s = k"
    using assms(2) False by (simp_all add: length_frame)
  ultimately show ?thesis
    using False by (simp add: read_frame_def)
qed

text \<open>
  The same steps for the walk of \<^verbatim>\<open>commit\<close>, which only reads the magic and the length.
\<close>

lemma frame_header:
  assumes "fits p"
  shows "\<not> length (frame p @ t) < kHeaderBytes" "get_u32 (frame p @ t) = kMagic"
    "drop (kHeaderBytes + unat (get_u32 (drop 4 (frame p @ t)))) (frame p @ t) = t"
  using get_frame_length [OF assms, of t]
  by (simp_all add: length_frame get_frame_magic del: drop_append)
     (simp add: length_frame)

lemma frames_Nil [simp]: "frames [] = []"
  by (simp add: frames_def)

lemma frames_Cons [simp]: "frames (p # ps) = frame p @ frames ps"
  by (simp add: frames_def)

lemma frames_append [simp]: "frames (ps @ qs) = frames ps @ frames qs"
  by (simp add: frames_def)

end
