(* ===== verification/Spool.thy ===== *)
theory Spool
  imports Frame_Codec "HOL-Library.AList"
begin

text \<open>
  The on-disk event queue of \<^verbatim>\<open>src/src/spool.cpp\<close>: the directory of segment files with
  the state file, and every operation of \<^verbatim>\<open>class Spool\<close> (open, scan_segments, load_state, save_state, total_bytes, append, enforce_bounds, peek,
  commit, stats) as functions on a record of the object's members together with the directory.

  The directory is an association list from file names to contents. What the operating system
  may refuse is an argument: a value of type \<open>io_faults\<close> says which calls fail and how many
  bytes of a write reach the file, so that every error return and every torn write of the
  source is a branch of the model. The 64-bit counters and sizes are \<^typ>\<open>nat\<close>: the model
  agrees with the code as long as they stay below \<open>2^64\<close>; frame fields, which are 32 bits
  wide and do overflow, are words.
\<close>

section \<open>The directory and its failures\<close>

type_synonym directory = "(string \<times> string) list"

definition file_size :: "directory \<Rightarrow> string \<Rightarrow> nat option" where
  "file_size d n = map_option length (map_of d n)"

definition file_append :: "directory \<Rightarrow> string \<Rightarrow> string \<Rightarrow> directory" where
  "file_append d n bytes =
     AList.update n (case map_of d n of None \<Rightarrow> bytes | Some s \<Rightarrow> s @ bytes) d"

text \<open>
  What the environment does to one call. \<open>append_bytes = Some k\<close>: only the first \<open>k\<close> bytes
  of the frame reach the segment and the stream goes bad. \<open>tmp_flush = Some k\<close>: only \<open>k\<close>
  bytes of the state text survive the flush that the destructor of the stream performs, after
  the code's own check of the stream.
\<close>

record io_faults =
  mkdir_ok :: bool
  scan_ok :: bool
  append_open_ok :: bool
  append_bytes :: "nat option"
  remove_ok :: "string \<Rightarrow> bool"
  tmp_open_ok :: bool
  tmp_stream_ok :: bool
  tmp_flush :: "nat option"
  rename_ok :: bool
  rename_again_ok :: bool

definition no_faults :: io_faults where
  "no_faults = \<lparr>mkdir_ok = True, scan_ok = True, append_open_ok = True, append_bytes = None,
     remove_ok = (\<lambda>_. True), tmp_open_ok = True, tmp_stream_ok = True, tmp_flush = None,
     rename_ok = True, rename_again_ok = True\<rparr>"

datatype spool_error =
    Cannot_create_directory
  | Cannot_scan_directory
  | Not_open
  | Record_too_large
  | Cannot_open_segment
  | Append_failed
  | Cannot_write_state
  | Failed_writing_state
  | Cannot_commit_state

datatype peek_error = Magic_mismatch | Crc_failed

section \<open>The object\<close>

record spool_config =
  max_bytes :: nat
  segment_bytes :: nat

record spool_record =
  sequence :: nat
  payload :: string

record spool_stats =
  appended :: nat
  committed :: nat
  dropped :: nat
  pending :: nat
  bytes_on_disk :: nat
  stat_segments :: nat

record spool =
  disk :: directory
  cfg :: spool_config
  is_open :: bool
  segments :: "nat list"
  read_segment :: nat
  read_offset :: nat
  next_sequence :: nat
  stats :: spool_stats

definition size_max :: nat where
  "size_max = u64_max"

definition zero_pad :: "nat \<Rightarrow> string" where
  "zero_pad i =
     ''seg-'' @ replicate (8 - length (show_nat i)) (CHR ''0'') @ show_nat i @ ''.log''"

abbreviation segment_path :: "nat \<Rightarrow> string" where
  "segment_path i \<equiv> zero_pad i"

subsection \<open>Scanning the directory\<close>

definition segment_id_of :: "string \<Rightarrow> nat option" where
  "segment_id_of name =
     (if \<not> starts_with ''seg-'' name \<or> length name < 8 then None
      else let i = strtoull (drop 4 name) in if 0 < i then Some i else None)"

definition scan_segments :: "io_faults \<Rightarrow> spool \<Rightarrow> (spool_error + unit) \<times> spool" where
  "scan_segments io sp =
     (let sp = sp\<lparr>segments := []\<rparr> in
      if \<not> scan_ok io then (Inl Cannot_scan_directory, sp)
      else (Inr (), sp\<lparr>segments := sort (List.map_filter (segment_id_of \<circ> fst) (disk sp))\<rparr>))"

subsection \<open>The state file\<close>

text \<open>
  \<^verbatim>\<open>f >> v\<close> for an unsigned 64-bit \<open>v\<close>: a stream that is not good fails and leaves \<open>v\<close>
  alone, white space is skipped, reading up to the end of the file sets \<^verbatim>\<open>eofbit\<close>, no digits
  or an overflow set \<^verbatim>\<open>failbit\<close>.
\<close>

record istream =
  rest :: string
  failbit :: bool
  eofbit :: bool

definition extract_u64 :: "istream \<Rightarrow> nat \<Rightarrow> istream \<times> nat" where
  "extract_u64 f v =
     (if failbit f \<or> eofbit f then (f\<lparr>failbit := True\<rparr>, v)
      else let t = dropWhile is_space (rest f) in
        if t = [] then (f\<lparr>rest := [], failbit := True, eofbit := True\<rparr>, v)
        else let (neg, u) = split_sign t;
                 ds = takeWhile is_digit u;
                 r = dropWhile is_digit u;
                 n = dec_val ds;
                 bad = (ds = [] \<or> u64_max < n)
             in (f\<lparr>rest := r, failbit := bad, eofbit := (r = [])\<rparr>,
                 if ds = [] then 0 else if u64_max < n then u64_max
                 else if neg then (u64_max + 1 - n) mod (u64_max + 1) else n))"

definition load_state :: "spool \<Rightarrow> spool" where
  "load_state sp =
     (let sp = sp\<lparr>read_segment := (case segments sp of [] \<Rightarrow> 1 | front # _ \<Rightarrow> front),
                  read_offset := 0, next_sequence := 1\<rparr>;
          sp = (case map_of (disk sp) ''state'' of
                  None \<Rightarrow> sp
                | Some txt \<Rightarrow>
                    (let f = \<lparr>rest = txt, failbit = False, eofbit = False\<rparr>;
                         (f, seg) = extract_u64 f 0;
                         (f, off) = extract_u64 f 0;
                         (f, seq) = extract_u64 f 1;
                         (f, com) = extract_u64 f 0;
                         (f, dro) = extract_u64 f 0
                     in if (\<not> failbit f \<and> \<not> eofbit f) \<or> eofbit f
                        then sp\<lparr>read_segment := seg, read_offset := off,
                                next_sequence := (if seq \<noteq> 0 then seq else 1),
                                stats := (stats sp)\<lparr>committed := com, dropped := dro\<rparr>\<rparr>
                        else sp))
      in case segments sp of
           [] \<Rightarrow> sp
         | front # _ \<Rightarrow>
             if read_segment sp < front then sp\<lparr>read_segment := front, read_offset := 0\<rparr> else sp)"

definition state_text :: "spool \<Rightarrow> string" where
  "state_text sp =
     show_nat (read_segment sp) @ '' '' @ show_nat (read_offset sp) @ '' '' @
     show_nat (next_sequence sp) @ '' '' @ show_nat (committed (stats sp)) @ '' '' @
     show_nat (dropped (stats sp)) @ [CHR 0x0A]"

definition flushed :: "nat option \<Rightarrow> string \<Rightarrow> string" where
  "flushed k s = (case k of None \<Rightarrow> s | Some n \<Rightarrow> take n s)"

definition file_rename :: "directory \<Rightarrow> string \<Rightarrow> string \<Rightarrow> directory" where
  "file_rename d src dst =
     (case map_of d src of None \<Rightarrow> d | Some s \<Rightarrow> AList.update dst s (AList.delete src d))"

definition save_state :: "io_faults \<Rightarrow> spool \<Rightarrow> (spool_error + unit) \<times> spool" where
  "save_state io sp =
     (if \<not> tmp_open_ok io then (Inl Cannot_write_state, sp)
      else if \<not> tmp_stream_ok io
      then (Inl Failed_writing_state, sp\<lparr>disk := AList.update ''state.tmp'' [] (disk sp)\<rparr>)
      else let d = AList.update ''state.tmp'' (flushed (tmp_flush io) (state_text sp)) (disk sp) in
        if rename_ok io then (Inr (), sp\<lparr>disk := file_rename d ''state.tmp'' ''state''\<rparr>)
        else let d = (if remove_ok io ''state'' then AList.delete ''state'' d else d) in
          if rename_again_ok io then (Inr (), sp\<lparr>disk := file_rename d ''state.tmp'' ''state''\<rparr>)
          else (Inl Cannot_commit_state, sp\<lparr>disk := d\<rparr>))"

definition total_bytes :: "spool \<Rightarrow> nat" where
  "total_bytes sp =
     sum_list (map (\<lambda>i. case file_size (disk sp) (segment_path i) of None \<Rightarrow> 0 | Some n \<Rightarrow> n)
       (segments sp))"

subsection \<open>Reading\<close>

function peek_frames ::
  "nat \<Rightarrow> string \<Rightarrow> nat \<Rightarrow> spool_record list \<Rightarrow> peek_error option \<Rightarrow>
     nat \<times> spool_record list \<times> peek_error option" where
  "peek_frames mx s seq out err =
     (if length out < mx then
        (case read_frame s of
           Short_header \<Rightarrow> (seq, out, err)
         | Bad_magic \<Rightarrow> (seq, out, Some Magic_mismatch)
         | Short_payload \<Rightarrow> (seq, out, err)
         | Bad_crc \<Rightarrow> (seq, out, Some Crc_failed)
         | Frame p r \<Rightarrow>
             peek_frames mx r (Suc seq) (out @ [\<lparr>sequence = Suc seq, payload = p\<rparr>]) err)
      else (seq, out, err))"
  by pat_completeness auto
termination
  by (relation "measure (\<lambda>(mx, s, seq, out, err). length s)") (auto dest: read_frame_shorter)

declare peek_frames.simps [simp del]

fun peek_segments ::
  "spool \<Rightarrow> nat \<Rightarrow> nat list \<Rightarrow> nat \<Rightarrow> spool_record list \<Rightarrow> peek_error option \<Rightarrow>
     spool_record list \<times> peek_error option" where
  "peek_segments sp mx [] seq out err = (out, err)"
| "peek_segments sp mx (i # is) seq out err =
     (if i < read_segment sp then peek_segments sp mx is seq out err
      else case map_of (disk sp) (segment_path i) of
        None \<Rightarrow> peek_segments sp mx is seq out err
      | Some s \<Rightarrow>
          (case peek_frames mx (if i = read_segment sp then drop (read_offset sp) s else s)
                  seq out err of
             (seq, out, err) \<Rightarrow>
               if mx \<le> length out then (out, err) else peek_segments sp mx is seq out err))"

definition peek :: "spool \<Rightarrow> nat \<Rightarrow> spool_record list \<times> peek_error option" where
  "peek sp mx = (if segments sp = [] then ([], None) else peek_segments sp mx (segments sp) 0 [] None)"

subsection \<open>Writing\<close>

text \<open>One turn of the loop of \<^verbatim>\<open>enforce_bounds\<close>: the oldest segment goes.\<close>

definition evict_step :: "io_faults \<Rightarrow> spool \<Rightarrow> spool" where
  "evict_step io sp =
     (let victim = hd (segments sp);
          lost = (if read_segment sp \<le> victim then length (fst (peek sp size_max)) else 0);
          sp' = sp\<lparr>disk := (if remove_ok io (segment_path victim)
                            then AList.delete (segment_path victim) (disk sp) else disk sp),
                   segments := tl (segments sp)\<rparr>
      in if read_segment sp' \<le> victim then
           (let sp' = sp'\<lparr>read_segment :=
                            (case segments sp' of [] \<Rightarrow> victim + 1 | front # _ \<Rightarrow> front),
                          read_offset := 0\<rparr>;
                still = length (fst (peek sp' size_max));
                drops = (if still < lost then lost - still else 0)
            in sp'\<lparr>stats := (stats sp')\<lparr>dropped := dropped (stats sp') + drops,
                                        pending := still\<rparr>\<rparr>)
         else sp')"

lemma segments_evict_step: "segments (evict_step io sp) = tl (segments sp)"
  by (simp add: evict_step_def Let_def)

function enforce_bounds :: "io_faults \<Rightarrow> spool \<Rightarrow> spool" where
  "enforce_bounds io sp =
     (if max_bytes (cfg sp) < total_bytes sp \<and> 1 < length (segments sp)
      then enforce_bounds io (evict_step io sp) else sp)"
  by pat_completeness auto
termination
  by (relation "measure (\<lambda>(io, sp). length (segments sp))") (auto simp: segments_evict_step)

declare enforce_bounds.simps [simp del]

text \<open>The segment an append writes to: the last one, or a new one past the size limit.\<close>

definition choose_segment :: "spool \<Rightarrow> spool" where
  "choose_segment sp =
     (let sp = (if segments sp = [] then sp\<lparr>segments := [1]\<rparr> else sp);
          active = last (segments sp);
          size = (case file_size (disk sp) (segment_path active) of None \<Rightarrow> 0 | Some n \<Rightarrow> n)
      in if segment_bytes (cfg sp) \<le> size
         then sp\<lparr>segments := segments sp @ [active + 1]\<rparr> else sp)"

definition append_record :: "io_faults \<Rightarrow> string \<Rightarrow> spool \<Rightarrow> (spool_error + unit) \<times> spool" where
  "append_record io p sp =
     (if \<not> is_open sp then (Inl Not_open, sp)
      else if 0xFFFFFFFF < length p then (Inl Record_too_large, sp)
      else
        let sp = choose_segment sp;
            active = last (segments sp)
        in if \<not> append_open_ok io then (Inl Cannot_open_segment, sp)
           else let sp = sp\<lparr>disk := file_append (disk sp) (segment_path active)
                               (flushed (append_bytes io) (frame p))\<rparr>
                in if append_bytes io \<noteq> None then (Inl Append_failed, sp)
                   else let sp = sp\<lparr>stats := (stats sp)\<lparr>appended := appended (stats sp) + 1,
                                                        pending := pending (stats sp) + 1\<rparr>,
                                    next_sequence := next_sequence sp + 1\<rparr>
                        in save_state io (enforce_bounds io sp))"

subsection \<open>Releasing\<close>

text \<open>
  The inner loop of \<^verbatim>\<open>commit\<close>: steps over frames by their length field, without looking at
  the checksum. \<^verbatim>\<open>seekg\<close> past the end of the file succeeds; the next header read is then
  short.
\<close>

fun commit_frames ::
  "nat \<Rightarrow> string \<Rightarrow> nat \<Rightarrow> spool_stats \<Rightarrow> bool \<Rightarrow> nat \<times> nat \<times> spool_stats \<times> bool" where
  "commit_frames 0 s off st adv = (0, off, st, adv)"
| "commit_frames (Suc remaining) s off st adv =
     (if length s < kHeaderBytes then (Suc remaining, off, st, adv)
      else if get_u32 s \<noteq> kMagic then (Suc remaining, off, st, adv)
      else let len = unat (get_u32 (drop 4 s))
           in commit_frames remaining (drop (kHeaderBytes + len) s) (off + kHeaderBytes + len)
                (st\<lparr>committed := committed st + 1,
                    pending := (if 0 < pending st then pending st - 1 else pending st)\<rparr>)
                True)"

text \<open>\<^verbatim>\<open>std::upper_bound\<close> on the ascending list of segment ids.\<close>

definition upper_bound :: "nat list \<Rightarrow> nat \<Rightarrow> nat option" where
  "upper_bound xs i = List.find (\<lambda>j. i < j) xs"

lemma upper_bound_SomeD:
  "upper_bound xs i = Some j \<Longrightarrow> j \<in> set xs \<and> i < j"
  by (auto simp: upper_bound_def find_Some_iff)

lemma length_filter_upper_bound:
  assumes "upper_bound xs i = Some j"
  shows "length (filter (\<lambda>k. j < k) (filter P xs)) < length (filter (\<lambda>k. i < k) xs)"
proof -
  have j: "j \<in> set (filter (\<lambda>k. i < k) xs)" and ij: "i < j"
    using upper_bound_SomeD [OF assms] by auto
  have "filter (\<lambda>k. j < k) (filter P xs) =
      filter (\<lambda>k. j < k \<and> P k) (filter (\<lambda>k. i < k) xs)"
    using ij by (auto simp: filter_filter intro: filter_cong)
  moreover have "length (filter (\<lambda>k. j < k \<and> P k) (filter (\<lambda>k. i < k) xs)) <
      length (filter (\<lambda>k. i < k) xs)"
    using j by (intro length_filter_less [of j]) auto
  ultimately show ?thesis by simp
qed

function commit_loop :: "io_faults \<Rightarrow> nat \<Rightarrow> spool \<Rightarrow> spool" where
  "commit_loop io remaining sp =
     (if 0 < remaining \<and> segments sp \<noteq> [] then
        (let i = read_segment sp in
         case map_of (disk sp) (segment_path i) of
           None \<Rightarrow>
             (case upper_bound (segments sp) i of
                None \<Rightarrow> sp
              | Some nx \<Rightarrow>
                  commit_loop io remaining (sp\<lparr>read_segment := nx, read_offset := 0\<rparr>))
         | Some s \<Rightarrow>
             (case commit_frames remaining (drop (read_offset sp) s) (read_offset sp) (stats sp)
                     False of
                (remaining', off, st, advanced) \<Rightarrow>
                  let sp' = sp\<lparr>read_offset := off, stats := st\<rparr> in
                  if remaining' = 0 then sp'
                  else if \<not> advanced then sp'
                  else case upper_bound (segments sp) i of
                    None \<Rightarrow> sp'
                  | Some nx \<Rightarrow>
                      commit_loop io remaining'
                        (sp'\<lparr>disk := (if remove_ok io (segment_path i)
                                      then AList.delete (segment_path i) (disk sp) else disk sp),
                             segments := filter (\<lambda>j. j \<noteq> i) (segments sp),
                             read_segment := nx, read_offset := 0\<rparr>)))
      else sp)"
  by pat_completeness auto
termination
  by (relation "measure (\<lambda>(io, remaining, sp).
        length (filter (\<lambda>k. read_segment sp < k) (segments sp)))")
     (auto simp del: filter_filter simp: length_filter_upper_bound
        length_filter_upper_bound [where P = "\<lambda>_. True", simplified])

declare commit_loop.simps [simp del]

definition commit :: "io_faults \<Rightarrow> nat \<Rightarrow> spool \<Rightarrow> (spool_error + unit) \<times> spool" where
  "commit io n sp =
     (if \<not> is_open sp then (Inl Not_open, sp)
      else if n = 0 then (Inr (), sp)
      else save_state io (commit_loop io n sp))"

subsection \<open>Opening, closing and the statistics\<close>

definition open_spool :: "io_faults \<Rightarrow> spool_config \<Rightarrow> spool \<Rightarrow> (spool_error + unit) \<times> spool" where
  "open_spool io c sp =
     (let sp = sp\<lparr>cfg := c\<rparr> in
      if \<not> mkdir_ok io then (Inl Cannot_create_directory, sp)
      else case scan_segments io sp of
        (Inl e, sp) \<Rightarrow> (Inl e, sp)
      | (Inr _, sp) \<Rightarrow>
          let sp = (load_state sp)\<lparr>is_open := True\<rparr>;
              n = length (fst (peek sp size_max))
          in (Inr (), sp\<lparr>stats := (stats sp)\<lparr>pending := n\<rparr>\<rparr>))"

definition close :: "spool \<Rightarrow> spool" where
  "close sp = sp\<lparr>is_open := False\<rparr>"

definition get_stats :: "spool \<Rightarrow> spool_stats \<times> spool" where
  "get_stats sp =
     (let st = (stats sp)\<lparr>bytes_on_disk := total_bytes sp,
                          stat_segments := length (segments sp),
                          pending := length (fst (peek sp size_max))\<rparr>
      in (st, sp\<lparr>stats := st\<rparr>))"

text \<open>A new object (every member at its initialiser) attached to a directory.\<close>

definition fresh_spool :: "directory \<Rightarrow> spool" where
  "fresh_spool d = \<lparr>disk = d, cfg = \<lparr>max_bytes = 64 * 1024 * 1024, segment_bytes = 4 * 1024 * 1024\<rparr>,
     is_open = False, segments = [], read_segment = 0, read_offset = 0, next_sequence = 1,
     stats = \<lparr>appended = 0, committed = 0, dropped = 0, pending = 0, bytes_on_disk = 0,
              stat_segments = 0\<rparr>\<rparr>"

end
