(* ===== verification/Spool_Queue.thy ===== *)
theory Spool_Queue
  imports Spool
begin

text \<open>
  What the spool promises: its bytes on disk are a first-in first-out queue of payloads. The
  abstraction \<open>queue\<close> reads the records a directory and a cursor still hold; \<open>spool_ok\<close> is the
  invariant of a spool whose segments are whole frames. The lemmas show that \<^verbatim>\<open>append\<close>,
  \<^verbatim>\<open>peek\<close>, \<^verbatim>\<open>commit\<close> and the eviction of \<^verbatim>\<open>enforce_bounds\<close> act on that queue as enqueue,
  prefix, dequeue and drop-oldest.
\<close>

section \<open>The abstraction\<close>

function readable :: "string \<Rightarrow> string list" where
  "readable s = (case read_frame s of Frame p r \<Rightarrow> p # readable r | _ \<Rightarrow> [])"
  by pat_completeness auto
termination
  by (relation "measure length") (auto dest: read_frame_shorter)

declare readable.simps [simp del]

definition seg_bytes :: "spool \<Rightarrow> nat \<Rightarrow> string" where
  "seg_bytes sp i =
     (case map_of (disk sp) (segment_path i) of
        None \<Rightarrow> []
      | Some s \<Rightarrow> if i = read_segment sp then drop (read_offset sp) s else s)"

definition seg_file :: "spool \<Rightarrow> nat \<Rightarrow> string" where
  "seg_file sp i = (case map_of (disk sp) (segment_path i) of None \<Rightarrow> [] | Some s \<Rightarrow> s)"

definition queue :: "spool \<Rightarrow> string list" where
  "queue sp =
     concat (map (\<lambda>i. readable (seg_bytes sp i))
       (filter (\<lambda>i. read_segment sp \<le> i) (segments sp)))"

text \<open>The whole contents of a segment are frames, at least one.\<close>

definition whole_segment :: "directory \<Rightarrow> nat \<Rightarrow> bool" where
  "whole_segment d i \<longleftrightarrow>
     (\<exists>ps. ps \<noteq> [] \<and> map_of d (segment_path i) = Some (frames ps) \<and> list_all fits ps)"

definition cursor_ok :: "spool \<Rightarrow> bool" where
  "cursor_ok sp \<longleftrightarrow>
     (if segments sp = [] then read_segment sp = 1 \<and> read_offset sp = 0
      else read_segment sp \<in> set (segments sp) \<and>
        (\<exists>ps qs. map_of (disk sp) (segment_path (read_segment sp)) = Some (frames (ps @ qs)) \<and>
           list_all fits (ps @ qs) \<and> read_offset sp = length (frames ps)))"

definition spool_ok :: "spool \<Rightarrow> bool" where
  "spool_ok sp \<longleftrightarrow>
     is_open sp \<and> 0 < segment_bytes (cfg sp) \<and> sorted_wrt (<) (segments sp) \<and>
     (\<forall>i \<in> set (segments sp). 0 < i \<and> whole_segment (disk sp) i) \<and>
     (\<forall>i. 0 < i \<and> (\<forall>j \<in> set (segments sp). j < i) \<longrightarrow>
        map_of (disk sp) (segment_path i) = None) \<and>
     cursor_ok sp"

section \<open>Reading\<close>

lemma readable_Nil [simp]: "readable [] = []"
  by (subst readable.simps) (simp add: read_frame_def kHeaderBytes_def)

lemma readable_frame: "fits p \<Longrightarrow> readable (frame p @ t) = p # readable t"
  by (subst readable.simps) (simp add: read_frame_frame)

lemma readable_frames: "list_all fits ps \<Longrightarrow> readable (frames ps @ t) = ps @ readable t"
  by (induction ps) (simp_all add: readable_frame)

lemma readable_frames' [simp]: "list_all fits ps \<Longrightarrow> readable (frames ps) = ps"
  using readable_frames [of ps "[]"] by simp

lemma readable_torn: "fits p \<Longrightarrow> k < length (frame p) \<Longrightarrow> readable (take k (frame p)) = []"
  by (subst readable.simps) (simp add: read_frame_torn)

lemma peek_frames_payload:
  "map payload (fst (snd (peek_frames mx s seq out err))) =
     map payload out @ take (mx - length out) (readable s)"
proof (induction mx s seq out err rule: peek_frames.induct)
  case (1 mx s seq out err)
  show ?case
  proof (cases "length out < mx")
    case False
    then show ?thesis by (subst peek_frames.simps) simp
  next
    case True
    show ?thesis
    proof (cases "read_frame s")
      case (Frame p r)
      have "mx - length out = Suc (mx - Suc (length out))" using True by simp
      with "1.IH" [OF True Frame] True Frame show ?thesis
        by (subst peek_frames.simps, subst readable.simps) simp
    qed (use True in \<open>subst peek_frames.simps, subst readable.simps, simp\<close>)+
  qed
qed

lemma peek_frames_sequence:
  assumes "map sequence out = [1..<Suc seq]"
  shows "map sequence (fst (snd (peek_frames mx s seq out err))) =
      [1..<Suc (fst (peek_frames mx s seq out err))]"
  using assms
proof (induction mx s seq out err rule: peek_frames.induct)
  case (1 mx s seq out err)
  show ?case
  proof (cases "length out < mx")
    case False
    then show ?thesis using "1.prems" by (subst (1 2) peek_frames.simps) simp
  next
    case True
    show ?thesis
    proof (cases "read_frame s")
      case (Frame p r)
      have "map sequence (out @ [\<lparr>sequence = Suc seq, payload = p\<rparr>]) = [1..<Suc (Suc seq)]"
        using "1.prems" by simp
      from "1.IH" [OF True Frame this] True Frame show ?thesis
        by (subst (1 2) peek_frames.simps) simp
    qed (use True "1.prems" in \<open>subst (1 2) peek_frames.simps, simp\<close>)+
  qed
qed

lemma peek_segments_payload:
  "map payload (fst (peek_segments sp mx is seq out err)) =
     map payload out @ take (mx - length out)
       (concat (map (\<lambda>i. readable (seg_bytes sp i)) (filter (\<lambda>i. read_segment sp \<le> i) is)))"
proof (induction "is" arbitrary: seq out err)
  case (Cons i "is")
  show ?case
  proof (cases "read_segment sp \<le> i \<and> map_of (disk sp) (segment_path i) \<noteq> None")
    case False
    then show ?thesis
      using Cons.IH by (auto simp: seg_bytes_def)
  next
    case True
    then obtain s where s: "map_of (disk sp) (segment_path i) = Some s" "\<not> i < read_segment sp"
      by auto
    let ?b = "if i = read_segment sp then drop (read_offset sp) s else s"
    obtain seq' out' err' where pf: "peek_frames mx ?b seq out err = (seq', out', err')"
      by (cases "peek_frames mx ?b seq out err") auto
    have b: "seg_bytes sp i = ?b" using s by (simp add: seg_bytes_def)
    have out': "map payload out' = map payload out @ take (mx - length out) (readable ?b)"
      using peek_frames_payload [of mx ?b seq out err] pf by simp
    then have len: "length out' = length out + min (length (readable ?b)) (mx - length out)"
      by (metis length_append length_map length_take)
    show ?thesis
      using s pf b out' len Cons.IH [of seq' out' err'] by (auto simp: min_def split: if_splits)
  qed
qed simp

lemma peek_payload: "map payload (fst (peek sp n)) = take n (queue sp)"
  by (simp add: peek_def queue_def peek_segments_payload)

lemma length_peek: "length (fst (peek sp n)) = min n (length (queue sp))"
  using arg_cong [OF peek_payload [of sp n], of length] by simp

lemma peek_segments_sequence:
  "map sequence out = [1..<Suc seq] \<Longrightarrow>
   map sequence (fst (peek_segments sp mx is seq out err)) =
     [1..<Suc (length (fst (peek_segments sp mx is seq out err)))]"
proof (induction "is" arbitrary: seq out err)
  case Nil
  have "length out = seq" using arg_cong [OF Nil, of length] by (simp del: upt_Suc)
  with Nil show ?case by (simp del: upt_Suc)
next
  case (Cons i "is")
  show ?case
  proof (cases "read_segment sp \<le> i \<and> map_of (disk sp) (segment_path i) \<noteq> None")
    case False
    then show ?thesis
      using Cons.IH [OF Cons.prems] by (auto simp del: upt_Suc)
  next
    case True
    then obtain s where s: "map_of (disk sp) (segment_path i) = Some s" "\<not> i < read_segment sp"
      by auto
    let ?b = "if i = read_segment sp then drop (read_offset sp) s else s"
    obtain seq' out' err' where pf: "peek_frames mx ?b seq out err = (seq', out', err')"
      by (cases "peek_frames mx ?b seq out err") auto
    have out': "map sequence out' = [1..<Suc seq']"
      using peek_frames_sequence [OF Cons.prems, of mx ?b err] pf by simp
    have "length out' = seq'" using arg_cong [OF out', of length] by (simp del: upt_Suc)
    then show ?thesis
      using s pf out' Cons.IH [OF out', of err'] by (simp del: upt_Suc)
  qed
qed

text \<open>
  C13: \<^verbatim>\<open>peek(n)\<close> returns exactly the \<open>n\<close> oldest records the directory still holds from the
  read cursor on (all of them when there are fewer), in order, numbered from 1, and this on every
  directory, damaged or not: a short tail, a bad magic or a failed CRC only ends the segment it
  is in.
\<close>

theorem peek_returns_oldest:
  "map payload (fst (peek sp n)) = take n (queue sp) \<and>
   map sequence (fst (peek sp n)) = [1..<Suc (length (fst (peek sp n)))]"
proof -
  have "map sequence ([] :: spool_record list) = [1..<Suc 0]" by simp
  from peek_segments_sequence [OF this, of sp n "segments sp" None]
  have "map sequence (fst (peek sp n)) = [1..<Suc (length (fst (peek sp n)))]"
    by (simp add: peek_def del: upt_Suc)
  then show ?thesis by (simp add: peek_payload del: upt_Suc)
qed

section \<open>Names and files\<close>

lemma zero_pad_drop4: "drop 4 (zero_pad i) = (replicate (8 - length (show_nat i)) (CHR ''0'') @ show_nat i) @ ''.log''"
  by (simp add: zero_pad_def)

lemma dec_val_zero_pad:
  "dec_val (takeWhile is_digit (drop 4 (zero_pad i))) = i"
proof -
  let ?ds = "replicate (8 - length (show_nat i)) (CHR ''0'') @ show_nat i"
  have "\<forall>c \<in> set ?ds. is_digit c" using show_nat_digitD by auto
  then have "takeWhile is_digit (?ds @ ''.log'') = ?ds @ takeWhile is_digit ''.log''"
    by (subst takeWhile_append2) auto
  also have "takeWhile is_digit ''.log'' = []" by (simp add: is_digit_def)
  finally show ?thesis by (simp add: zero_pad_drop4)
qed

lemma zero_pad_inj [simp]: "zero_pad i = zero_pad j \<longleftrightarrow> i = j"
  by (metis dec_val_zero_pad)

lemma zero_pad_not_state [simp]:
  "zero_pad i \<noteq> ''state''" "zero_pad i \<noteq> ''state.tmp''"
  "''state'' \<noteq> zero_pad i" "''state.tmp'' \<noteq> zero_pad i"
  by (simp_all add: zero_pad_def)

lemma map_of_file_append:
  "map_of (file_append d n bytes) m =
     (if m = n then Some ((case map_of d n of None \<Rightarrow> [] | Some s \<Rightarrow> s) @ bytes) else map_of d m)"
  by (simp add: file_append_def AList.update_conv' split: option.splits)

lemma map_of_file_rename:
  "src \<noteq> dst \<Longrightarrow> map_of (file_rename d src dst) m =
     (case map_of d src of None \<Rightarrow> map_of d m
      | Some s \<Rightarrow> if m = dst then Some s else if m = src then None else map_of d m)"
  by (simp add: file_rename_def AList.update_conv' AList.delete_conv' split: option.splits)

lemma save_state_frame:
  assumes "save_state io sp = (r, sp')"
  shows "cfg sp' = cfg sp" "is_open sp' = is_open sp" "segments sp' = segments sp"
    "read_segment sp' = read_segment sp" "read_offset sp' = read_offset sp"
    "next_sequence sp' = next_sequence sp" "stats sp' = stats sp"
    "map_of (disk sp') (segment_path i) = map_of (disk sp) (segment_path i)"
  using assms
  by (auto simp: save_state_def Let_def map_of_file_rename AList.update_conv' AList.delete_conv'
      split: if_splits option.splits)

lemma save_state_success:
  "tmp_open_ok io \<Longrightarrow> tmp_stream_ok io \<Longrightarrow> rename_ok io \<or> rename_again_ok io \<Longrightarrow>
   fst (save_state io sp) = Inr ()"
  by (auto simp: save_state_def Let_def)

section \<open>The queue depends on cursor, segment list and segment files only\<close>

lemma queue_cong:
  assumes "segments sp' = segments sp" "read_segment sp' = read_segment sp"
    "read_offset sp' = read_offset sp"
    "\<And>i. i \<in> set (segments sp) \<Longrightarrow> map_of (disk sp') (segment_path i) = map_of (disk sp) (segment_path i)"
  shows "queue sp' = queue sp"
proof -
  have "seg_bytes sp' i = seg_bytes sp i" if "i \<in> set (segments sp)" for i
    unfolding seg_bytes_def assms(2,3) assms(4) [OF that] ..
  then have "map (\<lambda>i. readable (seg_bytes sp' i)) (filter (\<lambda>i. read_segment sp \<le> i) (segments sp)) =
      map (\<lambda>i. readable (seg_bytes sp i)) (filter (\<lambda>i. read_segment sp \<le> i) (segments sp))"
    by (intro map_cong) auto
  then show ?thesis unfolding queue_def assms(1,2) by (simp only:)
qed

lemma spool_ok_cong:
  assumes "is_open sp' = is_open sp" "cfg sp' = cfg sp" "segments sp' = segments sp"
    "read_segment sp' = read_segment sp" "read_offset sp' = read_offset sp"
    "\<And>i. map_of (disk sp') (segment_path i) = map_of (disk sp) (segment_path i)"
  shows "spool_ok sp' = spool_ok sp"
  using assms by (simp add: spool_ok_def cursor_ok_def whole_segment_def)

lemma queue_update [simp]:
  "queue (sp\<lparr>stats := st\<rparr>) = queue sp" "queue (sp\<lparr>next_sequence := n\<rparr>) = queue sp"
  "queue (sp\<lparr>is_open := b\<rparr>) = queue sp" "queue (sp\<lparr>cfg := c\<rparr>) = queue sp"
  by (rule queue_cong; simp)+

lemma spool_ok_update [simp]:
  "spool_ok (sp\<lparr>stats := st\<rparr>) = spool_ok sp" "spool_ok (sp\<lparr>next_sequence := n\<rparr>) = spool_ok sp"
  by (rule spool_ok_cong; simp)+

lemma save_state_queue:
  assumes "save_state io sp = (r, sp')"
  shows "queue sp' = queue sp" "spool_ok sp' = spool_ok sp"
  by (rule queue_cong spool_ok_cong; simp add: save_state_frame [OF assms])+

section \<open>Whole segments\<close>

lemma seg_bytes_frames:
  assumes "spool_ok sp" "i \<in> set (segments sp)"
  obtains qs where "seg_bytes sp i = frames qs" "list_all fits qs"
    "i \<noteq> read_segment sp \<Longrightarrow> qs \<noteq> []"
proof (cases "i = read_segment sp")
  case True
  with assms obtain ps qs where "map_of (disk sp) (segment_path i) = Some (frames (ps @ qs))"
    "list_all fits (ps @ qs)" "read_offset sp = length (frames ps)"
    by (auto simp: spool_ok_def cursor_ok_def split: if_splits)
  with True that [of qs] show ?thesis by (simp add: seg_bytes_def)
next
  case False
  with assms obtain ps where "ps \<noteq> []" "map_of (disk sp) (segment_path i) = Some (frames ps)"
    "list_all fits ps"
    by (auto simp: spool_ok_def whole_segment_def)
  with False that [of ps] show ?thesis by (simp add: seg_bytes_def)
qed

section \<open>Appending\<close>

lemma choose_segment_frame [simp]:
  "disk (choose_segment sp) = disk sp" "cfg (choose_segment sp) = cfg sp"
  "is_open (choose_segment sp) = is_open sp" "stats (choose_segment sp) = stats sp"
  "read_segment (choose_segment sp) = read_segment sp"
  "read_offset (choose_segment sp) = read_offset sp"
  "next_sequence (choose_segment sp) = next_sequence sp"
  by (simp_all add: choose_segment_def Let_def)

text \<open>
  The list of segments an append works on ends in the active one; the earlier ones are those
  the spool had.
\<close>

lemma choose_segment_cases:
  assumes "spool_ok sp"
  obtains (keep) ids a where "segments sp = ids @ [a]" "segments (choose_segment sp) = ids @ [a]"
    | (roll) a where "segments (choose_segment sp) = segments sp @ [a]" "0 < a"
        "\<forall>j \<in> set (segments sp). j < a" "map_of (disk sp) (segment_path a) = None"
        "segments sp = [] \<longrightarrow> a = 1"
proof (cases "segments sp = []")
  case True
  with assms have "map_of (disk sp) (segment_path 1) = None" "0 < segment_bytes (cfg sp)"
    by (simp_all add: spool_ok_def)
  with True show ?thesis
    by (intro roll [of 1]) (simp_all add: choose_segment_def Let_def file_size_def)
next
  case False
  then obtain ids a where ids: "segments sp = ids @ [a]" by (cases "segments sp" rule: rev_cases) auto
  show ?thesis
  proof (cases "segments (choose_segment sp) = segments sp")
    case True
    with ids keep show ?thesis by simp
  next
    case roll': False
    have above: "\<forall>j \<in> set (segments sp). j < a + 1"
      using assms ids by (auto simp: spool_ok_def sorted_wrt_append less_Suc_eq)
    with assms have "map_of (disk sp) (segment_path (a + 1)) = None"
      by (auto simp: spool_ok_def)
    with roll' above False ids show ?thesis
      by (intro roll [of "a + 1"]) (auto simp: choose_segment_def Let_def split: if_splits)
  qed
qed

lemma seg_bytes_eq: "seg_bytes sp i = (if i = read_segment sp then drop (read_offset sp) (seg_file sp i) else seg_file sp i)"
  by (simp add: seg_bytes_def seg_file_def split: option.splits)

lemma cursor_frames:
  assumes "spool_ok sp" "segments sp \<noteq> []"
  shows "\<exists>ps qs. map_of (disk sp) (segment_path (read_segment sp)) = Some (frames (ps @ qs)) \<and>
    list_all fits (ps @ qs) \<and> read_offset sp = length (frames ps)"
  using assms by (auto simp: spool_ok_def cursor_ok_def split: if_splits)

lemma cursor_okI:
  assumes "read_segment sp \<in> set (segments sp)"
    "map_of (disk sp) (segment_path (read_segment sp)) = Some (frames (ps @ qs))"
    "list_all fits (ps @ qs)" "read_offset sp = length (frames ps)"
  shows "cursor_ok sp"
proof -
  have "segments sp \<noteq> []" using assms(1) by auto
  with assms show ?thesis unfolding cursor_ok_def by auto
qed

lemma active_segment:
  assumes ok: "spool_ok sp"
  obtains ids a ps qs where "segments (choose_segment sp) = ids @ [a]" "sorted_wrt (<) (ids @ [a])"
    "0 < a" "\<forall>i \<in> set ids. 0 < i \<and> whole_segment (disk sp) i"
    "read_segment sp \<in> set (ids @ [a])" "seg_file sp a = frames (ps @ qs)" "list_all fits (ps @ qs)"
    "a = read_segment sp \<longrightarrow> read_offset sp = length (frames ps)"
    "a \<noteq> read_segment sp \<longrightarrow> ps = []" "ids \<noteq> [] \<longrightarrow> segments sp \<noteq> []"
  using ok
proof (cases rule: choose_segment_cases)
  case (keep ids a)
  have *: "sorted_wrt (<) (ids @ [a])" "0 < a" "\<forall>i \<in> set ids. 0 < i \<and> whole_segment (disk sp) i"
    "read_segment sp \<in> set (ids @ [a])"
    using ok keep by (auto simp: spool_ok_def cursor_ok_def)
  show ?thesis
  proof (cases "a = read_segment sp")
    case True
    obtain ps qs where "map_of (disk sp) (segment_path (read_segment sp)) = Some (frames (ps @ qs))"
      "list_all fits (ps @ qs)" "read_offset sp = length (frames ps)"
      using cursor_frames [OF ok] keep by auto
    with True * keep that [of ids a ps qs] show ?thesis by (simp add: seg_file_def)
  next
    case False
    obtain ps where "map_of (disk sp) (segment_path a) = Some (frames ps)" "list_all fits ps"
      using ok keep by (auto simp: spool_ok_def whole_segment_def)
    with False * keep that [of ids a "[]" ps] show ?thesis by (simp add: seg_file_def)
  qed
next
  case (roll a)
  have *: "sorted_wrt (<) (segments sp @ [a])" "\<forall>i \<in> set (segments sp). 0 < i \<and> whole_segment (disk sp) i"
    using ok roll by (auto simp: spool_ok_def sorted_wrt_append)
  have "read_segment sp \<in> set (segments sp @ [a])" "a = read_segment sp \<longrightarrow> read_offset sp = 0"
    using ok roll by (auto simp: spool_ok_def cursor_ok_def split: if_splits)
  with * roll that [of "segments sp" a "[]" "[]"] show ?thesis by (simp add: seg_file_def)
qed

lemma sorted_wrt_last_ge:
  "sorted_wrt (<) (ids @ [a :: nat]) \<Longrightarrow> i \<in> set (ids @ [a]) \<Longrightarrow> i \<le> a"
  by (auto simp: sorted_wrt_append)

lemma queue_snoc:
  assumes "segments sp = ids @ [a]" "read_segment sp \<le> a"
  shows "queue sp = concat (map (\<lambda>i. readable (seg_bytes sp i)) (filter (\<lambda>i. read_segment sp \<le> i) ids)) @
     readable (seg_bytes sp a)"
  using assms by (simp add: queue_def)

lemma queue_choose_segment:
  assumes ok: "spool_ok sp"
  shows "queue (choose_segment sp) = queue sp"
  using ok
proof (cases rule: choose_segment_cases)
  case (roll a)
  then have "seg_bytes (choose_segment sp) a = []" by (simp add: seg_bytes_def)
  moreover have "seg_bytes (choose_segment sp) = seg_bytes sp"
    by (simp add: seg_bytes_eq seg_file_def fun_eq_iff)
  ultimately show ?thesis using roll by (simp add: queue_def)
qed (rule queue_cong; simp)

text \<open>The records of the active segment.\<close>

abbreviation newest :: "spool \<Rightarrow> string list" where
  "newest sp \<equiv> readable (seg_bytes sp (last (segments sp)))"

lemma append_core:
  assumes ok: "spool_ok sp" and p: "fits p"
    and sp': "sp' = (choose_segment sp)\<lparr>disk := file_append (disk sp)
        (segment_path (last (segments (choose_segment sp)))) (frame p)\<rparr>"
  shows "spool_ok sp' \<and> queue sp' = queue sp @ [p] \<and> segments sp' \<noteq> [] \<and> newest sp' \<noteq> []"
proof -
  obtain ids a ps qs where act: "segments (choose_segment sp) = ids @ [a]" "sorted_wrt (<) (ids @ [a])"
    "0 < a" "\<forall>i \<in> set ids. 0 < i \<and> whole_segment (disk sp) i"
    "read_segment sp \<in> set (ids @ [a])" "seg_file sp a = frames (ps @ qs)" "list_all fits (ps @ qs)"
    "a = read_segment sp \<longrightarrow> read_offset sp = length (frames ps)"
    "a \<noteq> read_segment sp \<longrightarrow> ps = []" "ids \<noteq> [] \<longrightarrow> segments sp \<noteq> []"
    using active_segment [OF ok] by blast
  let ?c = "choose_segment sp"
  have sel: "segments sp' = ids @ [a]" "read_segment sp' = read_segment sp"
    "read_offset sp' = read_offset sp" "is_open sp' = is_open sp" "cfg sp' = cfg sp"
    using sp' act(1) by simp_all
  have le: "read_segment sp \<le> a" using sorted_wrt_last_ge act by blast
  have notin: "a \<notin> set ids" using act(2) by (auto simp: sorted_wrt_append)
  have files: "map_of (disk sp') (segment_path i) =
      (if i = a then Some (frames (ps @ qs @ [p])) else map_of (disk sp) (segment_path i))" for i
    using sp' act(1,6) by (simp add: map_of_file_append seg_file_def)
  have a_bytes: "seg_bytes sp' a = frames (qs @ [p])" "seg_bytes ?c a = frames qs"
    using files [of a] act(6,8,9) sel by (auto simp: seg_bytes_eq seg_file_def)
  have others: "seg_bytes sp' i = seg_bytes ?c i" if "i \<in> set ids" for i
  proof -
    have "seg_file sp' i = seg_file ?c i" using files [of i] that notin by (auto simp: seg_file_def)
    then show ?thesis by (auto simp: seg_bytes_eq sel)
  qed
  have "queue sp' = queue ?c @ [p]"
  proof -
    have "concat (map (\<lambda>i. readable (seg_bytes sp' i)) (filter (\<lambda>i. read_segment sp \<le> i) ids)) =
        concat (map (\<lambda>i. readable (seg_bytes ?c i)) (filter (\<lambda>i. read_segment sp \<le> i) ids))"
      using others by (intro arg_cong [where f = concat] map_cong) auto
    moreover have "readable (seg_bytes sp' a) = readable (seg_bytes ?c a) @ [p]"
      unfolding a_bytes using act(7) p readable_frames' [of "qs @ [p]"] by simp
    ultimately show ?thesis
      using queue_snoc [of sp' ids a] queue_snoc [of ?c ids a] act(1) le sel by simp
  qed
  moreover have "spool_ok sp'"
  proof -
    have "whole_segment (disk sp') i \<and> 0 < i" if "i \<in> set (ids @ [a])" for i
    proof (cases "i = a")
      case True
      then show ?thesis
        using files [of a] act(3,7) p
        by (auto simp: whole_segment_def intro!: exI [of _ "ps @ qs @ [p]"])
    next
      case False
      then show ?thesis using that act(4) files [of i] by (simp add: whole_segment_def)
    qed
    moreover have "map_of (disk sp') (segment_path i) = None"
      if "0 < i" "\<forall>j \<in> set (ids @ [a]). j < i" for i
    proof -
      have "set (segments sp) \<subseteq> set (ids @ [a])"
        using act(1) choose_segment_cases [OF ok] by (metis set_append sup_ge1 order_refl)
      with that have "\<forall>j \<in> set (segments sp). j < i" by blast
      with that ok files [of i] show ?thesis by (simp add: spool_ok_def)
    qed
    moreover have "cursor_ok sp'"
    proof (cases "read_segment sp = a")
      case True
      then show ?thesis
        using files [of a] act(7,8) p by (intro cursor_okI [of sp' ps "qs @ [p]"]) (simp_all add: sel)
    next
      case False
      then have "segments sp \<noteq> []" using act(5,10) by auto
      from cursor_frames [OF ok this] False show ?thesis
        using files [of "read_segment sp"] act(5) unfolding cursor_ok_def sel by auto
    qed
    ultimately show ?thesis
      using ok act(2) by (simp add: spool_ok_def sel)
  qed
  moreover have "newest sp' \<noteq> []"
    using a_bytes(1) act(7) p readable_frames' [of "qs @ [p]"] by (simp add: sel)
  ultimately show ?thesis by (simp add: queue_choose_segment [OF ok] sel)
qed
end
