(* ===== verification/Spool_Commit.thy ===== *)
theory Spool_Commit
  imports Spool_Queue
begin

text \<open>
  Releasing records: \<^verbatim>\<open>Spool::commit\<close> moves the cursor over whole frames, retires the
  segments it has passed and writes the state file. The lemmas show what it does to the queue of
  \<^verbatim>\<open>Spool_Queue\<close>: it releases a prefix, never more than it was asked for, exactly what it was
  asked for when the cursor stands on a record, and nothing at all when the cursor stands at the
  end of a segment that is not the last.
\<close>

section \<open>Releasing\<close>

lemma commit_frames_frames:
  "list_all fits qs \<Longrightarrow>
   commit_frames n (frames qs) off st adv =
     (n - length qs, off + length (frames (take n qs)),
      st\<lparr>committed := committed st + min n (length qs), pending := pending st - min n (length qs)\<rparr>,
      adv \<or> (0 < n \<and> qs \<noteq> []))"
proof (induction qs arbitrary: n off st adv)
  case Nil
  then show ?case by (cases n) (simp_all add: kHeaderBytes_def)
next
  case (Cons q qs)
  then have q: "fits q" and qs: "list_all fits qs" by simp_all
  show ?case
  proof (cases n)
    case (Suc m)
    have len: "unat (get_u32 (drop 4 (frame q @ frames qs))) = length q"
      by (rule get_frame_length [OF q])
    show ?thesis
      unfolding Suc frames_Cons commit_frames.simps Let_def
      using frame_header [OF q, of "frames qs"] len
      by (simp add: Cons.IH [OF qs] length_frame add.assoc del: drop_append)
  qed simp
qed

lemma upper_bound_append:
  assumes "sorted_wrt (<) (xs @ i # ys)"
  shows "upper_bound (xs @ i # ys) i = (case ys of [] \<Rightarrow> None | y # _ \<Rightarrow> Some y)"
proof -
  have "\<forall>x \<in> set xs. \<not> i < x" using assms by (auto simp: sorted_wrt_append)
  then have "List.find (\<lambda>j. i < j) (xs @ i # ys) = List.find (\<lambda>j. i < j) ys"
    by (induction xs) auto
  also have "\<dots> = (case ys of [] \<Rightarrow> None | y # _ \<Rightarrow> Some y)"
    using assms by (cases ys) (auto simp: sorted_wrt_append)
  finally show ?thesis by (simp add: upper_bound_def)
qed

lemma queue_at_cursor:
  assumes "sorted_wrt (<) (segments sp)" "segments sp = xs @ read_segment sp # ys"
  shows "queue sp = readable (seg_bytes sp (read_segment sp)) @
     concat (map (\<lambda>i. readable (seg_file sp i)) ys)"
proof -
  let ?r = "read_segment sp"
  have "filter (\<lambda>i. ?r \<le> i) xs = []" "filter (\<lambda>i. ?r \<le> i) ys = ys"
    using assms by (auto simp: sorted_wrt_append filter_empty_conv filter_id_conv not_le)
  moreover have "concat (map (\<lambda>i. readable (seg_bytes sp i)) ys) =
      concat (map (\<lambda>i. readable (seg_file sp i)) ys)"
    using assms by (intro arg_cong [where f = concat] map_cong)
      (auto simp: seg_bytes_eq sorted_wrt_append)
  ultimately show ?thesis
    using assms(2) by (simp add: queue_def)
qed

lemma drop_frames: "drop (length (frames (take n qs))) (frames qs) = frames (drop n qs)"
  by (metis append_eq_conv_conj append_take_drop_id frames_append)

lemma spool_ok_advance:
  assumes ok: "spool_ok sp" and ne: "segments sp \<noteq> []"
    and b: "seg_bytes sp (read_segment sp) = frames qs" "list_all fits qs"
    and sp': "sp' = sp\<lparr>read_offset := read_offset sp + length (frames (take n qs)), stats := st\<rparr>"
  shows "spool_ok sp' \<and> queue sp' = drop (min n (length qs)) (queue sp)"
proof -
  obtain ps rs where c: "map_of (disk sp) (segment_path (read_segment sp)) = Some (frames (ps @ rs))"
    "list_all fits (ps @ rs)" "read_offset sp = length (frames ps)"
    using cursor_frames [OF ok ne] by auto
  then have "readable (frames rs) = readable (frames qs)"
    using b(1) by (simp add: seg_bytes_eq seg_file_def)
  then have rs: "rs = qs" using b(2) c(2) by simp
  have in_set: "read_segment sp \<in> set (segments sp)"
    using ok ne by (auto simp: spool_ok_def cursor_ok_def)
  have fits_drop: "list_all fits (drop n qs)"
    using b(2) by (auto simp: list_all_iff dest: in_set_dropD)
  have split: "frames (ps @ qs) = frames ((ps @ take n qs) @ drop n qs)"
    by (metis append.assoc append_take_drop_id)
  have "cursor_ok sp'"
    using c in_set b(2) unfolding rs split
    by (intro cursor_okI [of sp' "ps @ take n qs" "drop n qs"])
      (simp_all add: sp' flip: split)
  then have ok': "spool_ok sp'"
    using ok by (simp add: spool_ok_def sp')
  from in_set obtain xs ys where seg: "segments sp = xs @ read_segment sp # ys"
    by (auto simp: in_set_conv_decomp)
  have sorted: "sorted_wrt (<) (segments sp)" using ok by (simp add: spool_ok_def)
  have "seg_bytes sp' (read_segment sp) = frames (drop n qs)"
    using c(1,3) unfolding rs by (simp add: seg_bytes_eq seg_file_def sp' drop_frames)
  moreover have "seg_file sp' = seg_file sp" by (simp add: seg_file_def sp' fun_eq_iff)
  ultimately have "queue sp' = drop n qs @ concat (map (\<lambda>i. readable (seg_file sp i)) ys)"
    using queue_at_cursor [of sp' xs ys] seg sorted fits_drop by (simp add: sp')
  moreover have "queue sp = qs @ concat (map (\<lambda>i. readable (seg_file sp i)) ys)"
    using queue_at_cursor [OF sorted seg] b by simp
  moreover have "drop (min n (length qs)) qs = drop n qs" by (simp add: min_def)
  ultimately show ?thesis using ok' by simp
qed

lemma spool_ok_retire:
  assumes ok: "spool_ok sp" and seg: "segments sp = xs @ read_segment sp # y # ys"
    and sp': "sp' = sp\<lparr>disk := (if b then AList.delete (segment_path (read_segment sp)) (disk sp) else disk sp),
        segments := filter (\<lambda>j. j \<noteq> read_segment sp) (segments sp),
        read_segment := y, read_offset := 0, stats := st\<rparr>"
  shows "spool_ok sp'" "segments sp' = xs @ y # ys"
    "queue sp' = concat (map (\<lambda>i. readable (seg_file sp i)) (y # ys))"
    "seg_bytes sp' y \<noteq> []"
proof -
  let ?r = "read_segment sp"
  have sorted: "sorted_wrt (<) (xs @ ?r # y # ys)" using ok seg by (simp add: spool_ok_def)
  then have ne: "?r \<notin> set (xs @ y # ys)" and ry: "?r < y" by (auto simp: sorted_wrt_append)
  have "filter (\<lambda>j. j \<noteq> ?r) (xs @ y # ys) = xs @ y # ys"
    unfolding filter_id_conv using ne by blast
  then show seg': "segments sp' = xs @ y # ys"
    unfolding sp' seg by simp
  have sorted': "sorted_wrt (<) (segments sp')"
    unfolding seg' using sorted by (simp add: sorted_wrt_append)
  have files: "map_of (disk sp') (segment_path i) = map_of (disk sp) (segment_path i)" if "i \<noteq> ?r" for i
    using that by (simp add: sp' AList.delete_conv')
  have whole: "0 < i \<and> whole_segment (disk sp') i" if "i \<in> set (xs @ y # ys)" for i
  proof -
    have "i \<noteq> ?r" "i \<in> set (segments sp)" using that ne seg by auto
    with ok files [of i] show ?thesis by (simp add: spool_ok_def whole_segment_def)
  qed
  have above: "map_of (disk sp') (segment_path i) = None" if "0 < i" "\<forall>j \<in> set (xs @ y # ys). j < i" for i
  proof -
    have "?r < i" using that ry by auto
    with that have "\<forall>j \<in> set (segments sp). j < i" "i \<noteq> ?r" by (auto simp: seg)
    with ok that files [of i] show ?thesis by (simp add: spool_ok_def)
  qed
  obtain ps where ps: "ps \<noteq> []" "map_of (disk sp') (segment_path y) = Some (frames ps)" "list_all fits ps"
    using whole [of y] by (auto simp: whole_segment_def)
  then have "cursor_ok sp'"
    by (intro cursor_okI [of sp' "[]" ps]) (simp_all add: seg', simp_all add: sp')
  then show "spool_ok sp'"
    using ok whole above sorted' by (simp add: spool_ok_def seg') (simp add: sp')
  show "seg_bytes sp' y \<noteq> []"
    using ps by (cases ps) (auto simp: seg_bytes_def sp')
  have "queue sp' = concat (map (\<lambda>i. readable (seg_file sp' i)) (y # ys))"
    using queue_at_cursor [OF sorted', of xs ys] seg'
    by (simp add: sp' seg_bytes_eq)
  also have "\<dots> = concat (map (\<lambda>i. readable (seg_file sp i)) (y # ys))"
  proof -
    have "seg_file sp' i = seg_file sp i" if "i \<in> set (y # ys)" for i
    proof -
      have "i \<noteq> ?r" using that ne by auto
      then show ?thesis by (simp add: seg_file_def files)
    qed
    then show ?thesis by (intro arg_cong [where f = concat] map_cong) auto
  qed
  finally show "queue sp' = concat (map (\<lambda>i. readable (seg_file sp i)) (y # ys))" .
qed

definition live_cursor :: "spool \<Rightarrow> bool" where
  "live_cursor sp \<longleftrightarrow>
     segments sp = [] \<or> seg_bytes sp (read_segment sp) \<noteq> [] \<or> read_segment sp = last (segments sp)"

text \<open>What \<^verbatim>\<open>commit\<close> did to the queue and the counters: \<open>k\<close> records released.\<close>

definition released :: "nat \<Rightarrow> spool \<Rightarrow> spool \<Rightarrow> bool" where
  "released k sp sp' \<longleftrightarrow>
     k \<le> length (queue sp) \<and> queue sp' = drop k (queue sp) \<and>
     stats sp' = (stats sp)\<lparr>committed := committed (stats sp) + k, pending := pending (stats sp) - k\<rparr> \<and>
     cfg sp' = cfg sp \<and> next_sequence sp' = next_sequence sp"

lemma commit_loop_step:
  assumes ok: "spool_ok sp" and seg: "segments sp = xs @ read_segment sp # ys" and n: "0 < n"
    and b: "seg_bytes sp (read_segment sp) = frames qs" "list_all fits qs"
    and sp': "sp' = sp\<lparr>read_offset := read_offset sp + length (frames (take n qs)),
        stats := (stats sp)\<lparr>committed := committed (stats sp) + min n (length qs),
                            pending := pending (stats sp) - min n (length qs)\<rparr>\<rparr>"
  shows "commit_loop io n sp =
     (if n \<le> length qs \<or> qs = [] then sp'
      else case ys of [] \<Rightarrow> sp'
           | y # _ \<Rightarrow> commit_loop io (n - length qs)
               (sp'\<lparr>disk := (if remove_ok io (segment_path (read_segment sp))
                              then AList.delete (segment_path (read_segment sp)) (disk sp') else disk sp'),
                    segments := filter (\<lambda>j. j \<noteq> read_segment sp) (segments sp'),
                    read_segment := y, read_offset := 0\<rparr>))"
proof -
  obtain s where s: "map_of (disk sp) (segment_path (read_segment sp)) = Some s"
    "drop (read_offset sp) s = frames qs"
    using cursor_frames [OF ok] seg b(1) by (auto simp: seg_bytes_def)
  have sorted: "sorted_wrt (<) (xs @ read_segment sp # ys)" using ok seg by (simp add: spool_ok_def)
  show ?thesis
    using n seg
    by (subst commit_loop.simps)
      (simp add: s commit_frames_frames [OF b(2)] upper_bound_append [OF sorted] sp' Let_def
        split: list.splits)
qed

lemma released_0 [simp]: "released 0 sp sp"
  by (simp add: released_def)

lemma released_trans:
  assumes "released i sp sp'" "released j sp' sp''"
  shows "released (i + j) sp sp''"
  using assms by (auto simp: released_def add.commute)

lemma commit_loop_0 [simp]: "commit_loop io 0 sp = sp"
  by (subst commit_loop.simps) simp

lemma commit_loop_released:
  assumes "spool_ok sp" "segments sp = xs @ read_segment sp # ys"
  shows "\<exists>k \<le> n. released k sp (commit_loop io n sp) \<and> spool_ok (commit_loop io n sp) \<and>
     (live_cursor sp \<and> n \<le> length (queue sp) \<longrightarrow> k = n)"
  using assms
proof (induction ys arbitrary: sp xs n)
  case Nil
  show ?case
  proof (cases "n = 0")
    case False
    obtain qs where b: "seg_bytes sp (read_segment sp) = frames qs" "list_all fits qs"
      using seg_bytes_frames [OF Nil.prems(1), of "read_segment sp"] Nil.prems(2) by auto
    have "queue sp = qs"
      using queue_at_cursor [OF _ Nil.prems(2)] Nil.prems(1) b by (simp add: spool_ok_def)
    define sp' where "sp' = sp\<lparr>read_offset := read_offset sp + length (frames (take n qs)),
        stats := (stats sp)\<lparr>committed := committed (stats sp) + min n (length qs),
                            pending := pending (stats sp) - min n (length qs)\<rparr>\<rparr>"
    have "commit_loop io n sp = sp'"
      using commit_loop_step [OF Nil.prems _ b sp'_def] False by simp
    moreover have "released (min n (length qs)) sp sp' \<and> spool_ok sp'"
      using spool_ok_advance [OF Nil.prems(1) _ b sp'_def] Nil.prems(2) \<open>queue sp = qs\<close>
      by (simp add: released_def) (simp add: sp'_def)
    ultimately show ?thesis
      using \<open>queue sp = qs\<close> by (intro exI [of _ "min n (length qs)"]) simp
  qed (intro exI [of _ 0], use Nil in simp)
next
  case (Cons y ys)
  let ?r = "read_segment sp"
  obtain qs where b: "seg_bytes sp ?r = frames qs" "list_all fits qs"
    using seg_bytes_frames [OF Cons.prems(1), of ?r] Cons.prems(2) by auto
  have sorted: "sorted_wrt (<) (segments sp)" using Cons.prems(1) by (simp add: spool_ok_def)
  have live: "qs \<noteq> []" if "live_cursor sp"
  proof -
    have "last (y # ys) \<in> set (y # ys)" by (rule last_in_set) simp
    then have "?r < last (y # ys)"
      using sorted Cons.prems(2) by (auto simp: sorted_wrt_append)
    then show ?thesis using that b(1) Cons.prems(2) by (auto simp: live_cursor_def)
  qed
  define st where "st = (stats sp)\<lparr>committed := committed (stats sp) + min n (length qs),
                            pending := pending (stats sp) - min n (length qs)\<rparr>"
  note adv = spool_ok_advance [OF Cons.prems(1) _ b refl, where n = n and st = st]
  note step = commit_loop_step [OF Cons.prems _ b refl, where n = n and io = io, folded st_def]
  have q: "queue sp = qs @ concat (map (\<lambda>i. readable (seg_file sp i)) (y # ys))"
    using queue_at_cursor [OF sorted Cons.prems(2)] b by simp
  show ?case
  proof (cases "n \<le> length qs \<or> qs = []")
    case True
    then show ?thesis
    proof (cases "n = 0")
      case False
      then show ?thesis
        using True step adv Cons.prems(2) live q
        by (intro exI [of _ "min n (length qs)"]) (auto simp: released_def st_def)
    qed (intro exI [of _ 0], use Cons in simp)
  next
    case False
    then have n: "length qs < n" "qs \<noteq> []" by auto
    define sp2 where "sp2 = sp\<lparr>disk := (if remove_ok io (segment_path ?r)
            then AList.delete (segment_path ?r) (disk sp) else disk sp),
        segments := filter (\<lambda>j. j \<noteq> ?r) (segments sp), read_segment := y, read_offset := 0,
        stats := st\<rparr>"
    have loop: "commit_loop io n sp = commit_loop io (n - length qs) sp2"
    proof -
      have "sp2 = sp\<lparr>read_offset := read_offset sp + length (frames (take n qs)), stats := st,
            disk := (if remove_ok io (segment_path ?r)
              then AList.delete (segment_path ?r) (disk sp) else disk sp),
            segments := filter (\<lambda>j. j \<noteq> ?r) (segments sp), read_segment := y, read_offset := 0\<rparr>"
        by (cases sp) (simp add: sp2_def)
      with step n show ?thesis by simp
    qed
    note ret = spool_ok_retire [OF Cons.prems sp2_def]
    have "released (length qs) sp sp2"
      using q ret(3) n by (simp add: released_def sp2_def st_def)
    moreover have "read_segment sp2 = y" by (simp add: sp2_def)
    moreover from this have "live_cursor sp2" using ret(4) by (simp add: live_cursor_def)
    moreover obtain k where "k \<le> n - length qs" "released k sp2 (commit_loop io (n - length qs) sp2)"
      "spool_ok (commit_loop io (n - length qs) sp2)"
      "live_cursor sp2 \<and> n - length qs \<le> length (queue sp2) \<longrightarrow> k = n - length qs"
      using Cons.IH [of sp2 xs "n - length qs"] ret(1,2) calculation by auto
    ultimately show ?thesis
      using n q ret(3) unfolding loop
      by (intro exI [of _ "length qs + k"]) (auto intro: released_trans)
  qed
qed

lemma commit_loop_stuck:
  assumes ok: "spool_ok sp" and seg: "segments sp = xs @ read_segment sp # ys"
    and b: "seg_bytes sp (read_segment sp) = []"
  shows "commit_loop io n sp = sp"
proof (cases "n = 0")
  case False
  then show ?thesis
    using commit_loop_step [OF ok seg, of n "[]"] b by simp
qed simp

lemma commit_released:
  assumes "spool_ok sp" "commit io n sp = (r, sp')"
  shows "\<exists>k \<le> n. released k sp sp' \<and> spool_ok sp' \<and>
     (live_cursor sp \<and> n \<le> length (queue sp) \<longrightarrow> k = n)"
proof (cases "n = 0")
  case False
  have "is_open sp" using assms by (simp add: spool_ok_def)
  with assms False have s: "save_state io (commit_loop io n sp) = (r, sp')" by (simp add: commit_def)
  have "\<exists>k \<le> n. released k sp (commit_loop io n sp) \<and> spool_ok (commit_loop io n sp) \<and>
     (live_cursor sp \<and> n \<le> length (queue sp) \<longrightarrow> k = n)"
  proof (cases "segments sp = []")
    case True
    then have "commit_loop io n sp = sp" by (subst commit_loop.simps) simp
    moreover from True have "queue sp = []" by (simp add: queue_def)
    ultimately show ?thesis using assms by (intro exI [of _ 0]) simp
  next
    case False
    then have "read_segment sp \<in> set (segments sp)"
      using assms by (simp add: spool_ok_def cursor_ok_def)
    then obtain xs ys where "segments sp = xs @ read_segment sp # ys"
      by (auto simp: in_set_conv_decomp)
    from commit_loop_released [OF assms(1) this] show ?thesis .
  qed
  then show ?thesis
    using save_state_queue [OF s] save_state_frame [OF s] by (simp add: released_def)
qed (intro exI [of _ 0], use assms in \<open>auto simp: commit_def spool_ok_def\<close>)

section \<open>The properties\<close>

text \<open>Directories for the concrete instances: one segment, or two with the cursor in the first.\<close>

definition one_segment :: "spool_config \<Rightarrow> string list \<Rightarrow> spool" where
  "one_segment c ps = (fresh_spool [(segment_path 1, frames ps)])
     \<lparr>cfg := c, is_open := True, segments := [1], read_segment := 1,
      stats := (stats (fresh_spool []))\<lparr>pending := length ps\<rparr>\<rparr>"

definition two_segments :: "spool_config \<Rightarrow> string list \<Rightarrow> string list \<Rightarrow> spool" where
  "two_segments c ps qs = (fresh_spool [(segment_path 1, frames ps), (segment_path 2, frames qs)])
     \<lparr>cfg := c, is_open := True, segments := [1, 2], read_segment := 1,
      stats := (stats (fresh_spool []))\<lparr>pending := length ps + length qs\<rparr>\<rparr>"

lemma one_segment_ok:
  assumes "0 < segment_bytes c" "ps \<noteq> []" "list_all fits ps"
  shows "spool_ok (one_segment c ps)" "queue (one_segment c ps) = ps"
    "live_cursor (one_segment c ps)"
proof -
  have "cursor_ok (one_segment c ps)"
    using assms by (intro cursor_okI [of _ "[]" ps]) (simp_all add: one_segment_def fresh_spool_def)
  with assms show "spool_ok (one_segment c ps)"
    by (simp add: spool_ok_def) (auto simp: one_segment_def fresh_spool_def whole_segment_def)
  show "queue (one_segment c ps) = ps" "live_cursor (one_segment c ps)"
    using assms by (simp_all add: queue_def seg_bytes_def one_segment_def fresh_spool_def live_cursor_def)
qed

lemma two_segments_ok:
  assumes "0 < segment_bytes c" "ps \<noteq> []" "list_all fits ps" "qs \<noteq> []" "list_all fits qs"
  shows "spool_ok (two_segments c ps qs)" "queue (two_segments c ps qs) = ps @ qs"
    "live_cursor (two_segments c ps qs)"
    "segments (two_segments c ps qs) = [] @ read_segment (two_segments c ps qs) # 2 # []"
    "seg_bytes (two_segments c ps qs) (read_segment (two_segments c ps qs)) = frames ps"
proof -
  show b: "seg_bytes (two_segments c ps qs) (read_segment (two_segments c ps qs)) = frames ps"
    by (simp add: seg_bytes_def two_segments_def fresh_spool_def)
  have "frames ps \<noteq> []" using assms(2) by (cases ps) simp_all
  with b show "live_cursor (two_segments c ps qs)" by (simp add: live_cursor_def)
  have "cursor_ok (two_segments c ps qs)"
    using assms by (intro cursor_okI [of _ "[]" ps]) (simp_all add: two_segments_def fresh_spool_def)
  with assms show "spool_ok (two_segments c ps qs)"
    by (simp add: spool_ok_def) (auto simp: two_segments_def fresh_spool_def whole_segment_def)
  show "queue (two_segments c ps qs) = ps @ qs"
    "segments (two_segments c ps qs) = [] @ read_segment (two_segments c ps qs) # 2 # []"
    using assms by (simp_all add: queue_def seg_bytes_def two_segments_def fresh_spool_def)
qed



text \<open>
  C2: When the cursor stands on a record (or in the last segment) and at least \<open>n\<close> records are
  held, \<^verbatim>\<open>commit(n)\<close> releases exactly the \<open>n\<close> oldest records, across as many segments as they
  span.
\<close>

theorem commit_releases_exactly:
  assumes "spool_ok sp" and "live_cursor sp" and "n \<le> length (queue sp)"
    and "commit io n sp = (r, sp')"
  shows "released n sp sp' \<and> spool_ok sp'"
  using commit_released [OF assms(1,4)] assms(2,3) by blast

theorem commit_releases_exactly_witness:
  "released 2 (two_segments \<lparr>max_bytes = 100, segment_bytes = 10\<rparr> [''a''] [''b'', ''c''])
     (snd (commit no_faults 2 (two_segments \<lparr>max_bytes = 100, segment_bytes = 10\<rparr> [''a''] [''b'', ''c'']))) \<and>
   spool_ok (snd (commit no_faults 2 (two_segments \<lparr>max_bytes = 100, segment_bytes = 10\<rparr> [''a''] [''b'', ''c''])))"
  by (rule commit_releases_exactly [OF _ _ _ surjective_pairing]) (simp_all add: two_segments_ok)

lemma commit_exhausts:
  assumes ok: "spool_ok sp" and seg: "segments sp = xs @ read_segment sp # y # ys"
    and b: "seg_bytes sp (read_segment sp) = frames qs" "list_all fits qs" "qs \<noteq> []"
    and c: "commit io (length qs) sp = (r, sp')"
  shows "segments sp' = xs @ read_segment sp' # y # ys" "seg_bytes sp' (read_segment sp') = []"
    "spool_ok sp'" "queue sp' = drop (length qs) (queue sp)" "queue sp' \<noteq> []"
proof -
  define sp1 where "sp1 = sp\<lparr>read_offset := read_offset sp + length (frames (take (length qs) qs)),
      stats := (stats sp)\<lparr>committed := committed (stats sp) + min (length qs) (length qs),
                          pending := pending (stats sp) - min (length qs) (length qs)\<rparr>\<rparr>"
  have "is_open sp" using ok by (simp add: spool_ok_def)
  then have s: "save_state io sp1 = (r, sp')"
    using c b commit_loop_step [OF ok seg _ b(1,2) sp1_def, where io = io] by (simp add: commit_def)
  note fr = save_state_frame [OF s] and adv = spool_ok_advance [OF ok _ b(1,2) sp1_def]
  show "spool_ok sp'" "queue sp' = drop (length qs) (queue sp)"
    using adv seg save_state_queue [OF s] by simp_all
  have "seg_file sp' = seg_file sp" by (simp add: seg_file_def fr fun_eq_iff sp1_def)
  moreover have "drop (read_offset sp) (seg_file sp (read_segment sp)) = frames qs"
    using b(1) by (simp add: seg_bytes_eq)
  then have "drop (read_offset sp + length (frames qs)) (seg_file sp (read_segment sp)) = []"
    by (metis drop_all drop_drop add.commute order_refl)
  ultimately show "seg_bytes sp' (read_segment sp') = []"
    by (simp add: seg_bytes_eq fr) (simp add: sp1_def)
  show "segments sp' = xs @ read_segment sp' # y # ys" using seg by (simp add: fr) (simp add: sp1_def)
  have sorted: "sorted_wrt (<) (segments sp)" using ok by (simp add: spool_ok_def)
  then have ry: "y \<noteq> read_segment sp" using seg by (auto simp: sorted_wrt_append)
  obtain ps where "seg_bytes sp y = frames ps" "list_all fits ps" "ps \<noteq> []"
    using seg_bytes_frames [OF ok, of y] seg ry by auto
  then have "readable (seg_file sp y) \<noteq> []" using ry by (simp add: seg_bytes_eq)
  then show "queue sp' \<noteq> []"
    using queue_at_cursor [OF sorted seg] b \<open>queue sp' = drop (length qs) (queue sp)\<close> by simp
qed

text \<open>
  C36: A commit that releases exactly the rest of a segment that is not the last leaves the
  cursor at the end of that segment, and from there no later commit releases anything: the queue
  stays as it is although records follow and the call succeeds. The loop stops because no frame
  was read, before it looks for the next segment.
\<close>

theorem commit_stuck_at_segment_end:
  assumes "spool_ok sp" and "segments sp = xs @ read_segment sp # y # ys"
    and "seg_bytes sp (read_segment sp) = frames qs" and "list_all fits qs" and "qs \<noteq> []"
    and "commit io (length qs) sp = (r, sp')"
  shows "queue sp' \<noteq> [] \<and> queue (snd (commit io' n sp')) = queue sp' \<and>
     fst (commit no_faults n sp') = Inr ()"
proof -
  note ex = commit_exhausts [OF assms]
  have "is_open sp'" using ex(3) by (simp add: spool_ok_def)
  then have "commit io' n sp' = (if n = 0 then (Inr (), sp') else save_state io' sp')" for io'
    using commit_loop_stuck [OF ex(3,1,2)] by (simp add: commit_def)
  moreover have "fst (save_state no_faults sp') = Inr ()"
    by (rule save_state_success) (simp_all add: no_faults_def)
  ultimately show ?thesis
    using ex(5) save_state_queue(1) [OF surjective_pairing, of io' sp'] by simp
qed

theorem commit_stuck_at_segment_end_witness:
  "let sp = two_segments \<lparr>max_bytes = 100, segment_bytes = 10\<rparr> [''a''] [''b''];
       sp' = snd (commit no_faults 1 sp)
   in queue sp' \<noteq> [] \<and> queue (snd (commit no_faults 1 sp')) = queue sp' \<and>
      fst (commit no_faults 1 sp') = Inr ()"
  using commit_stuck_at_segment_end [of "two_segments \<lparr>max_bytes = 100, segment_bytes = 10\<rparr> [''a''] [''b'']"
      "[]" 2 "[]" "[''a'']" no_faults _ _ no_faults 1, OF _ _ _ _ _ surjective_pairing]
  by (simp add: two_segments_ok Let_def)

end
