(* ===== verification/Spool_Append.thy ===== *)
theory Spool_Append
  imports Spool_Commit
begin

text \<open>
  Writing records: \<^verbatim>\<open>Spool::append\<close> enqueues one record and then lets
  \<^verbatim>\<open>enforce_bounds\<close> delete the oldest segments until the directory fits its limit. The lemmas
  show that eviction drops a prefix of the queue and counts exactly what it dropped, that the
  record just written always survives it, and what a write that stops half way leaves behind.
\<close>

section \<open>One eviction\<close>

text \<open>What eviction does to the queue: the \<open>k\<close> oldest records are dropped, and counted.\<close>

definition evicted :: "nat \<Rightarrow> spool \<Rightarrow> spool \<Rightarrow> bool" where
  "evicted k sp sp' \<longleftrightarrow>
     k \<le> length (queue sp) \<and> queue sp' = drop k (queue sp) \<and>
     stats sp' = (stats sp)\<lparr>dropped := dropped (stats sp) + k, pending := length (queue sp')\<rparr> \<and>
     cfg sp' = cfg sp \<and> next_sequence sp' = next_sequence sp"

lemma evicted_trans:
  "evicted i sp sp' \<Longrightarrow> evicted j sp' sp'' \<Longrightarrow> evicted (i + j) sp sp''"
  by (auto simp: evicted_def add.commute)

lemma spool_ok_forget:
  assumes ok: "spool_ok sp" and seg: "segments sp = v # zs" and r: "read_segment sp \<in> set zs"
    and sp': "sp' = sp\<lparr>disk := (if b then AList.delete (segment_path v) (disk sp) else disk sp), segments := zs\<rparr>"
  shows "spool_ok sp' \<and> queue sp' = queue sp \<and> (\<forall>i \<in> set zs. seg_bytes sp' i = seg_bytes sp i)"
proof -
  have sorted: "sorted_wrt (<) (v # zs)" using ok seg by (simp add: spool_ok_def)
  have files: "map_of (disk sp') (segment_path i) = map_of (disk sp) (segment_path i)" if "i \<noteq> v" for i
    using that by (simp add: sp' AList.delete_conv')
  have zs: "i \<noteq> v" if "i \<in> set zs" for i using that sorted by auto
  have sel: "segments sp' = zs" "read_segment sp' = read_segment sp" "read_offset sp' = read_offset sp"
    "is_open sp' = is_open sp" "cfg sp' = cfg sp" by (simp_all add: sp')
  have bytes: "\<forall>i \<in> set zs. seg_bytes sp' i = seg_bytes sp i"
    using zs by (simp add: seg_bytes_eq seg_file_def files sel)
  have "map_of (disk sp') (segment_path i) = None" if "0 < i" "\<forall>j \<in> set zs. j < i" for i
  proof -
    have "read_segment sp < i" "v < read_segment sp" using that r sorted by auto
    then show ?thesis using ok seg that files [of i] by (simp add: spool_ok_def)
  qed
  moreover have "0 < i \<and> whole_segment (disk sp') i" if "i \<in> set zs" for i
    using ok seg that files [OF zs [OF that]] by (simp add: spool_ok_def whole_segment_def)
  moreover have "cursor_ok sp'"
    using cursor_frames [OF ok] seg r files [OF zs [OF r]] by (auto simp: cursor_ok_def sel)
  ultimately have "spool_ok sp'"
    using ok sorted by (simp add: spool_ok_def sel)
  moreover have "queue sp' = queue sp"
  proof -
    have "\<not> read_segment sp \<le> v" using r sorted by auto
    then have "queue sp = concat (map (\<lambda>i. readable (seg_bytes sp i)) (filter (\<lambda>i. read_segment sp \<le> i) zs))"
      by (simp add: queue_def seg)
    also have "\<dots> = queue sp'"
      unfolding queue_def sel using bytes by (intro arg_cong [where f = concat] map_cong) auto
    finally show ?thesis by simp
  qed
  ultimately show ?thesis using bytes by blast
qed

lemma evict_step_at_cursor:
  assumes "segments sp = v # y # ys" "read_segment sp = v"
    and sp0: "sp0 = sp\<lparr>disk := (if remove_ok io (segment_path v)
          then AList.delete (segment_path v) (disk sp) else disk sp),
        segments := y # ys, read_segment := y, read_offset := 0\<rparr>"
  shows "evict_step io sp = sp0\<lparr>stats := (stats sp)\<lparr>
     dropped := dropped (stats sp) + (min size_max (length (queue sp)) - min size_max (length (queue sp0))),
     pending := min size_max (length (queue sp0))\<rparr>\<rparr>"
  using assms(1,2) by (auto simp: evict_step_def Let_def length_peek sp0)

lemma evict_step_evicted:
  assumes ok: "spool_ok sp" and len: "1 < length (segments sp)"
    and pend: "pending (stats sp) = length (queue sp)" and small: "length (queue sp) \<le> size_max"
    and sp': "sp' = evict_step io sp"
  shows "\<exists>k. evicted k sp sp' \<and> spool_ok sp' \<and> newest sp' = newest sp \<and> segments sp' = tl (segments sp)"
proof -
  obtain v y ys where seg: "segments sp = v # y # ys"
    using len by (cases "segments sp" rule: remdups_adj.cases) auto
  have sorted: "sorted_wrt (<) (v # y # ys)" using ok seg by (simp add: spool_ok_def)
  have last: "last (y # ys) \<in> set (y # ys)" "last (y # ys) \<noteq> v"
    using last_in_set [of "y # ys"] sorted by auto
  show ?thesis
  proof (cases "read_segment sp \<le> v")
    case True
    then have r: "read_segment sp = v"
      using ok seg sorted by (auto simp: spool_ok_def cursor_ok_def)
    define sp0 where "sp0 = sp\<lparr>disk := (if remove_ok io (segment_path (read_segment sp))
          then AList.delete (segment_path (read_segment sp)) (disk sp) else disk sp),
        segments := filter (\<lambda>j. j \<noteq> read_segment sp) (segments sp),
        read_segment := y, read_offset := 0, stats := stats sp\<rparr>"
    note ret = spool_ok_retire [OF ok _ sp0_def, of "[]" ys, simplified, OF seg [folded r]]
    let ?tail = "concat (map (\<lambda>i. readable (seg_file sp i)) (y # ys))"
    have q: "queue sp = readable (seg_bytes sp v) @ ?tail"
      using queue_at_cursor [of sp "[]" "y # ys"] sorted seg r by simp
    have q0: "queue sp0 = ?tail" using ret(3) by simp
    have "filter (\<lambda>j. j \<noteq> v) (y # ys) = y # ys"
      unfolding filter_id_conv using sorted by auto
    then have sp0: "sp0 = sp\<lparr>disk := (if remove_ok io (segment_path v) then AList.delete (segment_path v) (disk sp) else disk sp),
        segments := y # ys, read_segment := y, read_offset := 0\<rparr>"
      using r seg by (cases sp) (simp add: sp0_def)
    have sp'_eq: "sp' = sp0\<lparr>stats := (stats sp)\<lparr>
        dropped := dropped (stats sp) + length (readable (seg_bytes sp v)), pending := length ?tail\<rparr>\<rparr>"
      using evict_step_at_cursor [OF seg r sp0] small unfolding sp' q q0 by (simp add: min_absorb2)
    have "evicted (length (readable (seg_bytes sp v))) sp sp'"
      unfolding evicted_def by (simp add: sp'_eq q q0) (simp add: sp0_def)
    moreover have "newest sp' = newest sp"
    proof -
      have "seg_bytes sp' i = seg_bytes sp i" if "i \<noteq> v" for i
        using that by (simp add: seg_bytes_eq seg_file_def sp'_eq AList.delete_conv' sp0_def r)
      from this [OF last(2)] show ?thesis using ret(2) seg by (simp add: sp'_eq)
    qed
    ultimately show ?thesis using ret by (auto simp: sp'_eq seg)
  next
    case False
    then have "read_segment sp \<in> set (y # ys)"
      using ok seg by (auto simp: spool_ok_def cursor_ok_def)
    moreover have e: "sp' = sp\<lparr>disk := (if remove_ok io (segment_path v) then AList.delete (segment_path v) (disk sp) else disk sp),
        segments := y # ys\<rparr>"
      using False by (simp add: sp' evict_step_def seg)
    ultimately have f: "spool_ok sp' \<and> queue sp' = queue sp \<and> (\<forall>i \<in> set (y # ys). seg_bytes sp' i = seg_bytes sp i)"
      using spool_ok_forget [OF ok seg] by blast
    then have "evicted 0 sp sp'" using pend by (simp add: evicted_def) (simp add: e)
    moreover have segs: "segments sp' = y # ys" "segments sp = v # y # ys" by (simp_all add: e seg)
    moreover have "newest sp' = newest sp"
      using f last(1) unfolding segs by (metis last_ConsR list.distinct(1))
    ultimately show ?thesis using f by auto
  qed
qed

lemma enforce_bounds_evicted:
  assumes "spool_ok sp" and "segments sp \<noteq> []" and "pending (stats sp) = length (queue sp)"
    and "length (queue sp) \<le> size_max"
  shows "\<exists>k. evicted k sp (enforce_bounds io sp) \<and> spool_ok (enforce_bounds io sp) \<and>
     newest (enforce_bounds io sp) = newest sp \<and> segments (enforce_bounds io sp) \<noteq> [] \<and>
     (total_bytes (enforce_bounds io sp) \<le> max_bytes (cfg sp) \<or> length (segments (enforce_bounds io sp)) = 1) \<and>
     (total_bytes sp \<le> max_bytes (cfg sp) \<longrightarrow> k = 0)"
  using assms
proof (induction "length (segments sp)" arbitrary: sp rule: less_induct)
  case less
  show ?case
  proof (cases "max_bytes (cfg sp) < total_bytes sp \<and> 1 < length (segments sp)")
    case False
    then have "enforce_bounds io sp = sp" by (subst enforce_bounds.simps) (rule if_not_P)
    moreover have "evicted 0 sp sp" using less.prems by (simp add: evicted_def)
    moreover have "length (segments sp) = 1" if "1 \<ge> length (segments sp)"
      using that less.prems(2) by (cases "segments sp") auto
    ultimately show ?thesis using less.prems False by (auto simp: not_less)
  next
    case True
    define sp1 where "sp1 = evict_step io sp"
    obtain k where k: "evicted k sp sp1" "spool_ok sp1" "newest sp1 = newest sp"
      "segments sp1 = tl (segments sp)"
      using evict_step_evicted [OF less.prems(1) _ less.prems(3,4) sp1_def] True by blast
    have eq: "enforce_bounds io sp = enforce_bounds io sp1"
      using True by (subst enforce_bounds.simps) (simp add: sp1_def)
    have "length (segments sp1) < length (segments sp)" "segments sp1 \<noteq> []"
      using True k(4) by (cases "segments sp"; auto)+
    moreover have "pending (stats sp1) = length (queue sp1)" "length (queue sp1) \<le> size_max"
      "cfg sp1 = cfg sp"
      using k(1) less.prems(4) by (auto simp: evicted_def)
    ultimately show ?thesis
      using less.hyps [of sp1] k True unfolding eq by (metis evicted_trans not_le)
  qed
qed

section \<open>Appending a record\<close>

lemma total_bytes_choose_segment:
  assumes ok: "spool_ok sp"
  shows "total_bytes (choose_segment sp) = total_bytes sp"
  using ok
proof (cases rule: choose_segment_cases)
  case (roll x)
  then show ?thesis by (simp add: total_bytes_def file_size_def)
qed (simp add: total_bytes_def)

lemma total_bytes_append:
  assumes ok: "spool_ok sp"
    and sp': "sp' = (choose_segment sp)\<lparr>disk := file_append (disk sp)
        (segment_path (last (segments (choose_segment sp)))) bytes\<rparr>"
  shows "total_bytes sp' = total_bytes sp + length bytes"
proof -
  define c where "c = choose_segment sp"
  obtain ids a where seg: "segments c = ids @ [a]" "a \<notin> set ids"
    using active_segment [OF ok] by (metis c_def not_distinct_conv_prefix sorted_wrt_append less_irrefl list.set_intros(1))
  have size: "file_size (disk sp') (segment_path i) =
      (if i = a then Some (length (seg_file sp a) + length bytes) else file_size (disk sp) (segment_path i))" for i
    using seg(1) by (auto simp: file_size_def sp' map_of_file_append seg_file_def c_def)
  let ?size = "\<lambda>sp i. case file_size (disk sp) (segment_path i) of None \<Rightarrow> 0 | Some n \<Rightarrow> n"
  have "sum_list (map (?size sp') ids) = sum_list (map (?size sp) ids)"
    using seg(2) size by (intro arg_cong [where f = sum_list] map_cong) auto
  moreover have "?size sp a = length (seg_file sp a)"
    by (simp add: file_size_def seg_file_def split: option.splits)
  moreover have "segments sp' = ids @ [a]" using seg(1) by (simp add: sp' c_def)
  ultimately have "total_bytes sp' = sum_list (map (?size sp) (ids @ [a])) + length bytes"
    using size [of a] by (simp only: total_bytes_def) simp
  also have "sum_list (map (?size sp) (ids @ [a])) = total_bytes sp"
    using total_bytes_choose_segment [OF ok] seg(1) by (simp add: total_bytes_def c_def)
  finally show ?thesis .
qed

lemma total_bytes_cong:
  assumes "segments sp' = segments sp"
    "\<And>i. map_of (disk sp') (segment_path i) = map_of (disk sp) (segment_path i)"
  shows "total_bytes sp' = total_bytes sp"
  using assms by (simp add: total_bytes_def file_size_def)

lemma newest_suffix:
  assumes "spool_ok sp" "segments sp \<noteq> []"
  shows "\<exists>xs. queue sp = xs @ newest sp"
proof -
  obtain ids a where seg: "segments sp = ids @ [a]" using assms(2) by (metis rev_exhaust)
  have "read_segment sp \<le> a"
    using assms seg sorted_wrt_last_ge [of ids a "read_segment sp"] by (auto simp: spool_ok_def cursor_ok_def)
  from queue_snoc [OF seg this] show ?thesis using seg by auto
qed

lemma append_enqueues:
  assumes ok: "spool_ok sp" and p: "fits p" and io: "append_open_ok io" "append_bytes io = None"
    and pend: "pending (stats sp) = length (queue sp)" and small: "length (queue sp) < size_max"
    and app: "append_record io p sp = (r, sp')"
  shows "\<exists>k \<le> length (queue sp). queue sp' = drop k (queue sp) @ [p] \<and> spool_ok sp' \<and>
     stats sp' = (stats sp)\<lparr>appended := appended (stats sp) + 1, dropped := dropped (stats sp) + k,
                             pending := length (queue sp')\<rparr> \<and>
     next_sequence sp' = next_sequence sp + 1 \<and> cfg sp' = cfg sp \<and>
     (total_bytes sp' \<le> max_bytes (cfg sp) \<or> length (segments sp') = 1) \<and>
     (total_bytes sp + length (frame p) \<le> max_bytes (cfg sp) \<longrightarrow> k = 0)"
proof -
  define sp1 where "sp1 = (choose_segment sp)\<lparr>disk := file_append (disk sp)
        (segment_path (last (segments (choose_segment sp)))) (frame p)\<rparr>"
  define sp2 where "sp2 = sp1\<lparr>stats := (stats sp)\<lparr>appended := appended (stats sp) + 1,
        pending := pending (stats sp) + 1\<rparr>, next_sequence := next_sequence sp + 1\<rparr>"
  define sp3 where "sp3 = enforce_bounds io sp2"
  have core: "spool_ok sp1" "queue sp1 = queue sp @ [p]" "segments sp1 \<noteq> []" "newest sp1 \<noteq> []"
    using append_core [OF ok p sp1_def] by auto
  have tot: "total_bytes sp2 = total_bytes sp + length (frame p)"
    using total_bytes_append [OF ok sp1_def] total_bytes_cong [of sp2 sp1] by (simp add: sp2_def)
  have "newest sp2 = newest sp1" by (simp add: seg_bytes_eq seg_file_def sp2_def)
  with core have c2: "spool_ok sp2" "queue sp2 = queue sp @ [p]" "segments sp2 \<noteq> []" "newest sp2 \<noteq> []"
    "cfg sp2 = cfg sp"
    by (simp_all add: sp2_def) (simp add: sp1_def)
  obtain k where k: "evicted k sp2 sp3" "spool_ok sp3" "newest sp3 = newest sp2" "segments sp3 \<noteq> []"
    "total_bytes sp3 \<le> max_bytes (cfg sp2) \<or> length (segments sp3) = 1"
    "total_bytes sp2 \<le> max_bytes (cfg sp2) \<longrightarrow> k = 0"
    using enforce_bounds_evicted [OF c2(1,3), of io] pend small c2(2)
    unfolding sp3_def by (auto simp: sp2_def)
  have "queue sp3 \<noteq> []" using newest_suffix [OF k(2,4)] k(3) c2(4) by auto
  then have len: "k \<le> length (queue sp)"
    using k(1) c2(2) by (auto simp: evicted_def)
  have sv: "save_state io sp3 = (r, sp')"
    using app ok p io by (simp add: append_record_def spool_ok_def sp3_def sp2_def sp1_def flushed_def Let_def)
  note fr = save_state_frame [OF sv] save_state_queue [OF sv]
  have tot': "total_bytes sp' = total_bytes sp3"
    by (intro total_bytes_cong fr)
  have q: "queue sp' = drop k (queue sp) @ [p]"
    using k(1) len by (simp add: fr evicted_def c2)
  have "stats sp3 = (stats sp2)\<lparr>dropped := dropped (stats sp2) + k, pending := length (queue sp3)\<rparr>"
    "cfg sp3 = cfg sp2" "next_sequence sp3 = next_sequence sp2"
    using k(1) by (simp_all add: evicted_def)
  then have st: "stats sp' = (stats sp)\<lparr>appended := appended (stats sp) + 1, dropped := dropped (stats sp) + k,
       pending := length (queue sp')\<rparr>" "cfg sp' = cfg sp" "next_sequence sp' = next_sequence sp + 1"
    by (simp_all add: fr c2) (simp_all add: sp2_def)
  show ?thesis
  proof (intro exI [of _ k] conjI)
    show "total_bytes sp' \<le> max_bytes (cfg sp) \<or> length (segments sp') = 1"
      using k(5) unfolding tot' c2(5) fr .
    show "total_bytes sp + length (frame p) \<le> max_bytes (cfg sp) \<longrightarrow> k = 0"
      using k(6) unfolding tot c2(5) .
    show "spool_ok sp'" using k(2) fr(10) by simp
  qed (fact len q st)+
qed

section \<open>Writes that stop half way\<close>

lemma queue_unreadable_tail:
  assumes ok: "spool_ok sp" and un: "readable bytes = []"
    and sp': "sp' = (choose_segment sp)\<lparr>disk := file_append (disk sp)
        (segment_path (last (segments (choose_segment sp)))) bytes\<rparr>"
  shows "queue sp' = queue sp"
proof -
  obtain ids a ps qs where act: "segments (choose_segment sp) = ids @ [a]" "sorted_wrt (<) (ids @ [a])"
    "0 < a" "\<forall>i \<in> set ids. 0 < i \<and> whole_segment (disk sp) i"
    "read_segment sp \<in> set (ids @ [a])" "seg_file sp a = frames (ps @ qs)" "list_all fits (ps @ qs)"
    "a = read_segment sp \<longrightarrow> read_offset sp = length (frames ps)"
    "a \<noteq> read_segment sp \<longrightarrow> ps = []" "ids \<noteq> [] \<longrightarrow> segments sp \<noteq> []"
    using active_segment [OF ok] by blast
  let ?c = "choose_segment sp"
  have le: "read_segment sp \<le> a" using sorted_wrt_last_ge act by blast
  have notin: "a \<notin> set ids" using act(2) by (auto simp: sorted_wrt_append)
  have files: "seg_file sp' i = (if i = a then frames (ps @ qs) @ bytes else seg_file sp i)" for i
    using act(1,6) by (simp add: sp' map_of_file_append seg_file_def)
  have sel: "segments sp' = ids @ [a]" "read_segment sp' = read_segment sp"
    "read_offset sp' = read_offset sp" "seg_file ?c = seg_file sp"
    using act(1) by (simp_all add: sp' seg_file_def fun_eq_iff)
  have "readable (seg_bytes sp' a) = readable (seg_bytes ?c a)"
    using act(6-9) readable_frames [of qs bytes] un
    by (auto simp: seg_bytes_eq files sel)
  moreover have "concat (map (\<lambda>i. readable (seg_bytes sp' i)) (filter (\<lambda>i. read_segment sp \<le> i) ids)) =
      concat (map (\<lambda>i. readable (seg_bytes ?c i)) (filter (\<lambda>i. read_segment sp \<le> i) ids))"
    using notin by (intro arg_cong [where f = concat] map_cong) (auto simp: seg_bytes_eq files sel)
  ultimately have "queue sp' = queue ?c"
    using queue_snoc [of sp' ids a] queue_snoc [of ?c ids a] act(1) le sel by simp
  then show ?thesis using queue_choose_segment [OF ok] by simp
qed

lemma append_torn:
  assumes ok: "spool_ok sp" and p: "fits p" and io: "append_open_ok io" "append_bytes io = Some k"
    and app: "append_record io p sp = (r, sp')"
  shows "r = Inl Append_failed" "sp' = (choose_segment sp)\<lparr>disk := file_append (disk sp)
        (segment_path (last (segments (choose_segment sp)))) (take k (frame p))\<rparr>"
proof -
  have "is_open sp" using ok by (simp add: spool_ok_def)
  then show "r = Inl Append_failed" "sp' = (choose_segment sp)\<lparr>disk := file_append (disk sp)
        (segment_path (last (segments (choose_segment sp)))) (take k (frame p))\<rparr>"
    using app p io by (auto simp: append_record_def flushed_def Let_def)
qed

text \<open>
  A frame that stopped after its header announces \<open>length p\<close> bytes; what is written behind it
  is read as its payload.
\<close>

lemma readable_behind_torn:
  assumes p: "fits p" and k: "kHeaderBytes \<le> k"
    and short: "k - kHeaderBytes + length t < length p"
  shows "readable (take k (frame p) @ t) = []"
proof -
  let ?s = "take k (frame p) @ t"
  have eq: "?s = put_u32 kMagic @ put_u32 (of_nat (length p)) @ put_u32 (crc32 p) @ take (k - kHeaderBytes) p @ t"
    using k by (simp add: frame_def kHeaderBytes_def)
  have d: "drop 4 ?s = put_u32 (of_nat (length p)) @ put_u32 (crc32 p) @ take (k - kHeaderBytes) p @ t"
    "drop kHeaderBytes ?s = take (k - kHeaderBytes) p @ t"
    unfolding eq by (simp_all add: kHeaderBytes_def)
  have len: "unat (of_nat (length p) :: 32 word) = length p"
    using p by (simp add: unat_of_nat)
  have "\<not> length ?s < kHeaderBytes" "get_u32 ?s = kMagic"
    unfolding eq by (simp_all add: kHeaderBytes_def get_put_u32)
  moreover have "unat (get_u32 (drop 4 ?s)) = length p"
    unfolding d get_put_u32 by (rule len)
  moreover have "length (drop kHeaderBytes ?s) < length p"
    unfolding d using short by simp
  ultimately have "read_frame ?s = Short_payload"
    unfolding read_frame_def Let_def by (simp only: if_True if_False simp_thms)
  then show ?thesis by (subst readable.simps) simp
qed

lemma choose_segment_room:
  assumes "segments sp = ids @ [a]" "length (seg_file sp a) < segment_bytes (cfg sp)"
  shows "choose_segment sp = sp"
  using assms by (auto simp: choose_segment_def Let_def file_size_def seg_file_def split: option.splits)

lemma append_behind_torn:
  assumes ok: "spool_ok sp" and p: "fits p" and q: "fits q"
    and k: "kHeaderBytes \<le> k" "k - kHeaderBytes + length (frame q) < length p"
    and io: "append_open_ok io" "append_bytes io = Some k"
    and torn: "append_record io p sp = (r, sp1)"
    and room: "length (seg_file sp1 (last (segments sp1))) < segment_bytes (cfg sp)"
    and fit: "total_bytes sp + k + length (frame q) \<le> max_bytes (cfg sp)"
    and app: "append_record no_faults q sp1 = (r', sp2)"
  shows "r' = Inr () \<and> appended (stats sp2) = appended (stats sp) + 1 \<and> queue sp2 = queue sp"
proof -
  let ?a = "last (segments (choose_segment sp))" and ?b = "take k (frame p) @ frame q"
  note sp1 = append_torn(2) [OF ok p io torn]
  have ne: "segments (choose_segment sp) \<noteq> []"
    using active_segment [OF ok] by (metis snoc_eq_iff_butlast)
  have c1: "choose_segment sp1 = sp1"
    using room ne by (intro choose_segment_room [of _ "butlast (segments sp1)" "last (segments sp1)"])
      (simp_all add: sp1)
  define sp0 where "sp0 = (choose_segment sp)\<lparr>disk := file_append (disk sp) (segment_path ?a) ?b\<rparr>"
  define sp3 where "sp3 = sp1\<lparr>disk := file_append (disk sp1) (segment_path ?a) (frame q),
      stats := (stats sp)\<lparr>appended := appended (stats sp) + 1, pending := pending (stats sp) + 1\<rparr>,
      next_sequence := next_sequence sp + 1\<rparr>"
  have files: "map_of (disk sp3) n = map_of (disk sp0) n" for n
    by (simp add: sp3_def sp0_def sp1 map_of_file_append)
  have sel: "segments sp3 = segments sp0" "cfg sp3 = cfg sp" "read_segment sp3 = read_segment sp0"
    "read_offset sp3 = read_offset sp0"
    by (simp_all add: sp3_def sp0_def sp1)
  have "total_bytes sp3 \<le> max_bytes (cfg sp3)"
    using total_bytes_append [OF ok sp0_def] total_bytes_cong [of sp3 sp0] files fit k
    by (simp add: sel length_frame kHeaderBytes_def)
  then have "enforce_bounds no_faults sp3 = sp3" by (subst enforce_bounds.simps) simp
  moreover have "is_open sp1" using ok by (simp add: sp1 spool_ok_def)
  ultimately have sv: "save_state no_faults sp3 = (r', sp2)"
    using app q c1 by (simp add: append_record_def no_faults_def flushed_def Let_def sp3_def)
      (simp add: sp1)
  have "queue sp3 = queue sp"
    using queue_unreadable_tail [OF ok readable_behind_torn [OF p k] sp0_def] queue_cong [of sp3 sp0]
    by (simp add: sel files)
  moreover have "r' = Inr ()"
    using save_state_success [of no_faults sp3] sv by (simp add: no_faults_def)
  ultimately show ?thesis
    using save_state_frame(7) [OF sv] save_state_queue(1) [OF sv] by (simp add: sp3_def)
qed

section \<open>The properties\<close>

text \<open>
  C3: A record of at most \<open>2^32 - 1\<close> bytes whose bytes all reach the segment is enqueued at the
  end of the queue, whatever happens to the state file afterwards. The eviction that follows
  drops some number \<open>k\<close> of the oldest records, never the new one, and the counters say exactly
  what happened; afterwards the directory is within its limit or down to a single segment, and
  nothing was dropped if the record fitted in the limit.
\<close>

theorem append_enqueues_record:
  assumes "spool_ok sp" and "fits p" and "append_open_ok io" and "append_bytes io = None"
    and "pending (stats sp) = length (queue sp)" and "length (queue sp) < size_max"
    and "append_record io p sp = (r, sp')"
  shows "\<exists>k \<le> length (queue sp). queue sp' = drop k (queue sp) @ [p] \<and> spool_ok sp' \<and>
     stats sp' = (stats sp)\<lparr>appended := appended (stats sp) + 1, dropped := dropped (stats sp) + k,
                             pending := length (queue sp')\<rparr> \<and>
     next_sequence sp' = next_sequence sp + 1 \<and> cfg sp' = cfg sp \<and>
     (total_bytes sp' \<le> max_bytes (cfg sp) \<or> length (segments sp') = 1) \<and>
     (total_bytes sp + length (frame p) \<le> max_bytes (cfg sp) \<longrightarrow> k = 0)"
  using append_enqueues [OF assms] .

theorem append_enqueues_record_witness:
  "let sp = one_segment \<lparr>max_bytes = 100, segment_bytes = 50\<rparr> [''a''];
       sp' = snd (append_record no_faults ''b'' sp)
   in queue sp' = [''a'', ''b''] \<and> spool_ok sp' \<and> pending (stats sp') = 2"
proof -
  define sp where "sp = one_segment \<lparr>max_bytes = 100, segment_bytes = 50\<rparr> [''a'']"
  define sp' where "sp' = snd (append_record no_faults ''b'' sp)"
  have sp: "spool_ok sp" "queue sp = [''a'']" "pending (stats sp) = 1" "max_bytes (cfg sp) = 100"
    "total_bytes sp = 13"
    by (simp_all add: one_segment_ok sp_def)
      (simp_all add: one_segment_def fresh_spool_def total_bytes_def file_size_def length_frame kHeaderBytes_def)
  have "\<exists>k \<le> length (queue sp). queue sp' = drop k (queue sp) @ [''b''] \<and> spool_ok sp' \<and>
     stats sp' = (stats sp)\<lparr>appended := appended (stats sp) + 1, dropped := dropped (stats sp) + k,
                             pending := length (queue sp')\<rparr> \<and>
     next_sequence sp' = next_sequence sp + 1 \<and> cfg sp' = cfg sp \<and>
     (total_bytes sp' \<le> max_bytes (cfg sp) \<or> length (segments sp') = 1) \<and>
     (total_bytes sp + length (frame ''b'') \<le> max_bytes (cfg sp) \<longrightarrow> k = 0)"
    unfolding sp'_def
    by (rule append_enqueues_record [OF _ _ _ _ _ _ surjective_pairing])
      (simp_all add: sp no_faults_def size_max_def u64_max_def)
  moreover have "total_bytes sp + length (frame ''b'') \<le> max_bytes (cfg sp)"
    by (simp add: sp length_frame kHeaderBytes_def)
  ultimately have "queue sp' = [''a'', ''b''] \<and> spool_ok sp' \<and> pending (stats sp') = 2"
    by (auto simp: sp)
  then show ?thesis by (simp add: Let_def sp_def sp'_def)
qed

text \<open>
  C15: When only the first \<open>k\<close> bytes of the frame reach the segment (a crash, a full disk),
  \<^verbatim>\<open>append\<close> reports the failure and the readable queue is what it was: no torn record is ever
  delivered and none of the older ones is lost.
\<close>

theorem torn_append_keeps_queue:
  assumes "spool_ok sp" and "fits p" and "append_open_ok io" and "append_bytes io = Some k"
    and "k < length (frame p)" and "append_record io p sp = (r, sp')"
  shows "r = Inl Append_failed \<and> queue sp' = queue sp \<and> stats sp' = stats sp"
  using append_torn [OF assms(1-4,6)] queue_unreadable_tail [OF assms(1) readable_torn [OF assms(2,5)]]
  by simp

theorem torn_append_keeps_queue_witness:
  "let sp = one_segment \<lparr>max_bytes = 100, segment_bytes = 50\<rparr> [''a''];
       sp' = snd (append_record (no_faults\<lparr>append_bytes := Some 5\<rparr>) ''b'' sp)
   in queue sp' = [''a'']"
  using torn_append_keeps_queue [of "one_segment \<lparr>max_bytes = 100, segment_bytes = 50\<rparr> [''a'']" "''b''"
      "no_faults\<lparr>append_bytes := Some 5\<rparr>" 5, OF _ _ _ _ _ surjective_pairing]
  by (simp add: one_segment_ok Let_def no_faults_def length_frame kHeaderBytes_def)



end
