(* ===== verification/Spool_Recovery.thy ===== *)
theory Spool_Recovery
  imports Spool_Append
begin

text \<open>
  Restarts and whole sessions: the state file that \<^verbatim>\<open>save_state\<close> writes is what
  \<^verbatim>\<open>load_state\<close> reads back, \<^verbatim>\<open>scan_segments\<close> finds exactly the segments on disk, and so
  \<^verbatim>\<open>open\<close> on the directory of a spool gives the same queue, also when the process died in the
  middle of an append. A session is a sequence of operations from an empty directory; its
  invariant is the ledger of the queue: every record accepted is committed, dropped and counted,
  or still pending, in order.
\<close>

section \<open>The state file reads back\<close>

lemma extract_u64_number:
  assumes "n \<le> u64_max" "\<not> is_digit c" "list_all is_space ws"
  shows "extract_u64 \<lparr>rest = ws @ show_nat n @ c # t, failbit = False, eofbit = False\<rparr> v =
     (\<lparr>rest = c # t, failbit = False, eofbit = False\<rparr>, n)"
proof -
  obtain d ds where sn: "show_nat n = d # ds" "is_digit d"
    using show_nat_digits [of n] by (cases "show_nat n") auto
  have "dropWhile is_space (ws @ show_nat n @ c # t) = show_nat n @ c # t"
    using assms(3) sn is_digit_not_space by (auto simp: list_all_iff dropWhile_append2)
  moreover have "split_sign (show_nat n @ c # t) = (False, show_nat n @ c # t)"
    using sn by (simp add: split_sign_digit)
  moreover have "\<forall>x \<in> set (show_nat n). is_digit x" using show_nat_digitD by blast
  then have "takeWhile is_digit (show_nat n @ c # t) = show_nat n"
    "dropWhile is_digit (show_nat n @ c # t) = c # t"
    using assms(2) by (auto simp: takeWhile_append2 dropWhile_append2)
  ultimately show ?thesis
    using assms(1,2) sn dec_val_show_nat [of n] by (simp add: extract_u64_def Let_def)
qed

definition state_bounds :: "spool \<Rightarrow> bool" where
  "state_bounds sp \<longleftrightarrow>
     read_segment sp \<le> u64_max \<and> read_offset sp \<le> u64_max \<and> next_sequence sp \<le> u64_max \<and>
     committed (stats sp) \<le> u64_max \<and> dropped (stats sp) \<le> u64_max"

lemma space_newline: "is_space (CHR '' '')" "\<not> is_digit (CHR '' '')" "\<not> is_digit (CHR 0x0A)"
  by (simp_all add: is_space_def is_digit_def)

lemma load_state_saved:
  assumes st: "map_of (disk sp') ''state'' = Some (state_text sp)" and b: "state_bounds sp"
    and seg: "\<And>front r. segments sp' = front # r \<Longrightarrow> front \<le> read_segment sp"
  shows "load_state sp' = sp'\<lparr>read_segment := read_segment sp, read_offset := read_offset sp,
     next_sequence := (if next_sequence sp \<noteq> 0 then next_sequence sp else 1),
     stats := (stats sp')\<lparr>committed := committed (stats sp), dropped := dropped (stats sp)\<rparr>\<rparr>"
proof -
  note ex = extract_u64_number [where ws = "[]", simplified] extract_u64_number [where ws = "'' ''", simplified, OF _ _ space_newline(1)]
  have "load_state sp' = (case segments sp' of [] \<Rightarrow> id | front # _ \<Rightarrow>
      (\<lambda>sp. if read_segment sp < front then sp\<lparr>read_segment := front, read_offset := 0\<rparr> else sp))
    (sp'\<lparr>read_segment := read_segment sp, read_offset := read_offset sp,
     next_sequence := (if next_sequence sp \<noteq> 0 then next_sequence sp else 1),
     stats := (stats sp')\<lparr>committed := committed (stats sp), dropped := dropped (stats sp)\<rparr>\<rparr>)"
    using b st unfolding load_state_def state_bounds_def
    by (simp add: state_text_def ex space_newline Let_def split: list.splits)
  then show ?thesis using seg by (auto split: list.splits)
qed

section \<open>What is in the directory\<close>

definition segment_on :: "directory \<Rightarrow> nat \<Rightarrow> bool" where
  "segment_on d i \<longleftrightarrow> 0 < i \<and> map_of d (segment_path i) \<noteq> None"

definition spool_name :: "string \<Rightarrow> bool" where
  "spool_name n \<longleftrightarrow>
     n = ''state'' \<or> n = ''state.tmp'' \<or> (\<exists>i. 0 < i \<and> i \<le> u64_max \<and> n = segment_path i)"

text \<open>
  The directory holds the state files and segments only, under the names the spool gives them,
  and the segments are whole.
\<close>

definition names_ok :: "directory \<Rightarrow> bool" where
  "names_ok d \<longleftrightarrow> distinct (map fst d) \<and> (\<forall>n \<in> set (map fst d). spool_name n)"

definition dir_ok :: "directory \<Rightarrow> bool" where
  "dir_ok d \<longleftrightarrow> names_ok d \<and> (\<forall>i. segment_on d i \<longrightarrow> whole_segment d i)"

text \<open>
  The segments on disk are those of the list, or older than the cursor: a segment whose removal
  failed is such a leftover.
\<close>

definition tracked :: "spool \<Rightarrow> bool" where
  "tracked sp \<longleftrightarrow>
     dir_ok (disk sp) \<and>
     (\<forall>i. segment_on (disk sp) i \<longrightarrow> i \<in> set (segments sp) \<or> i < read_segment sp)"

lemma segment_on_delete:
  "segment_on (AList.delete n d) i \<Longrightarrow> segment_on d i \<and> segment_path i \<noteq> n"
  by (auto simp: segment_on_def AList.delete_conv' split: if_splits)

lemma dir_ok_delete:
  assumes "dir_ok d"
  shows "dir_ok (AList.delete n d)"
proof -
  have "whole_segment (AList.delete n d) i" if "segment_on (AList.delete n d) i" for i
    using assms segment_on_delete [OF that]
    by (auto simp: dir_ok_def whole_segment_def AList.delete_conv')
  then show ?thesis
    using assms AList.distinct_delete [of d n]
    by (simp add: dir_ok_def names_ok_def AList.delete_keys del: set_map)
qed

lemma dir_ok_state:
  assumes "dir_ok d" "n = ''state'' \<or> n = ''state.tmp''"
  shows "dir_ok (AList.update n s d) \<and> (\<forall>i. segment_on (AList.update n s d) i = segment_on d i)"
proof -
  have n: "segment_path i \<noteq> n" for i using assms(2) by auto
  then have on: "segment_on (AList.update n s d) i = segment_on d i" for i
    by (simp add: segment_on_def AList.update_conv')
  moreover have "spool_name n" using assms(2) by (auto simp: spool_name_def)
  moreover have "whole_segment (AList.update n s d) i = whole_segment d i" for i
    using n by (simp add: whole_segment_def AList.update_conv')
  ultimately show ?thesis
    using assms(1) AList.distinct_update [of d n s]
    by (simp add: dir_ok_def names_ok_def AList.dom_update)
qed

lemma names_ok_append:
  assumes "names_ok d" "0 < a" "a \<le> u64_max"
  shows "names_ok (file_append d (segment_path a) bytes)"
proof -
  have "spool_name (segment_path a)" using assms by (auto simp: spool_name_def)
  with assms(1) show ?thesis
    by (simp add: names_ok_def file_append_def AList.dom_update AList.distinct_update)
qed

lemma dir_ok_append:
  assumes d: "dir_ok d" and a: "0 < a" "a \<le> u64_max" and p: "fits p"
  shows "dir_ok (file_append d (segment_path a) (frame p)) \<and>
     (\<forall>i. segment_on (file_append d (segment_path a) (frame p)) i \<longleftrightarrow> segment_on d i \<or> i = a)"
proof -
  let ?d = "file_append d (segment_path a) (frame p)"
  have on: "segment_on ?d i \<longleftrightarrow> segment_on d i \<or> i = a" for i
    using a by (auto simp: segment_on_def map_of_file_append)
  moreover have "whole_segment ?d i" if "segment_on d i \<or> i = a" for i
  proof (cases "i = a")
    case False
    then have "whole_segment d i" using that d by (simp add: dir_ok_def)
    with False show ?thesis by (simp add: whole_segment_def map_of_file_append)
  next
    case True
    have "\<exists>ps. (case map_of d (segment_path a) of None \<Rightarrow> [] | Some s \<Rightarrow> s) = frames ps \<and> list_all fits ps"
    proof (cases "segment_on d a")
      case False
      then show ?thesis using a by (auto simp: segment_on_def intro: exI [of _ "[]"])
    next
      case True
      then have "whole_segment d a" using d by (simp add: dir_ok_def)
      then show ?thesis by (auto simp: whole_segment_def)
    qed
    then obtain ps where "(case map_of d (segment_path a) of None \<Rightarrow> [] | Some s \<Rightarrow> s) = frames ps"
      "list_all fits ps" by blast
    with True p show ?thesis
      by (auto simp: whole_segment_def map_of_file_append intro!: exI [of _ "ps @ [p]"])
  qed
  ultimately show ?thesis
    using d names_ok_append [of d a "frame p"] a by (simp add: dir_ok_def)
qed

lemma file_rename_tmp:
  assumes "dir_ok d"
  shows "dir_ok (file_rename d ''state.tmp'' ''state'') \<and>
     (\<forall>i. segment_on (file_rename d ''state.tmp'' ''state'') i = segment_on d i)"
proof (cases "map_of d ''state.tmp''")
  case (Some s)
  have "segment_on (AList.delete ''state.tmp'' d) i = segment_on d i" for i
    by (simp add: segment_on_def AList.delete_conv')
  with Some show ?thesis
    using dir_ok_state [OF dir_ok_delete [OF assms, of "''state.tmp''"], of "''state''" s]
    by (simp add: file_rename_def)
qed (use assms in \<open>simp add: file_rename_def\<close>)

lemma tracked_cong:
  assumes "dir_ok (disk sp')" "\<And>i. segment_on (disk sp') i = segment_on (disk sp) i"
    "segments sp' = segments sp" "read_segment sp' = read_segment sp" "tracked sp"
  shows "tracked sp'"
  using assms by (simp add: tracked_def)

lemma save_state_disk:
  assumes "save_state io sp = (r, sp')" "dir_ok (disk sp)"
  shows "dir_ok (disk sp') \<and> (\<forall>i. segment_on (disk sp') i = segment_on (disk sp) i)"
proof -
  define P where "P d \<longleftrightarrow> dir_ok d \<and> (\<forall>i. segment_on d i = segment_on (disk sp) i)" for d
  have u: "P (AList.update ''state.tmp'' s (disk sp))" for s
    using dir_ok_state [OF assms(2)] by (simp add: P_def)
  have del: "P (AList.delete ''state'' d)" if "P d" for d
  proof -
    have "segment_on (AList.delete ''state'' d) i = segment_on d i" for i
      by (simp add: segment_on_def AList.delete_conv')
    with that dir_ok_delete [of d] show ?thesis by (simp add: P_def)
  qed
  have ren: "P (file_rename d ''state.tmp'' ''state'')" if "P d" for d
    using that file_rename_tmp [of d] by (simp add: P_def)
  have "P (disk sp)" using assms(2) by (simp add: P_def)
  then have "P (disk sp')"
    using assms(1) u ren [OF u] ren [OF del [OF u]] del [OF u]
    by (auto simp: save_state_def Let_def split: if_splits)
  then show ?thesis by (simp add: P_def)
qed

lemma save_state_tracked:
  assumes "save_state io sp = (r, sp')" "tracked sp"
  shows "tracked sp'"
  using save_state_disk [OF assms(1)] assms(2) save_state_frame [OF assms(1)]
  by (intro tracked_cong [OF _ _ _ _ assms(2)]) (simp_all add: tracked_def)

lemma segment_id_of_path:
  assumes "0 < i" "i \<le> u64_max"
  shows "segment_id_of (segment_path i) = Some i"
proof -
  let ?ds = "replicate (8 - length (show_nat i)) (CHR ''0'') @ show_nat i"
  have "list_all is_digit ?ds" using show_nat_digits [of i] by (auto simp: list_all_iff)
  moreover have "?ds \<noteq> []" "dec_val ?ds \<le> u64_max"
    using show_nat_digits [of i] assms by auto
  ultimately have "strtoull (?ds @ ''.log'') = i"
    using strtoull_digits [of ?ds "''.log''"] assms by (simp add: is_digit_def)
  then show ?thesis
    using assms by (simp add: segment_id_of_def zero_pad_drop4) (simp add: zero_pad_def starts_with_def)
qed

lemma segment_id_of_state: "segment_id_of ''state'' = None" "segment_id_of ''state.tmp'' = None"
  by (simp_all add: segment_id_of_def starts_with_def)

lemma segment_id_of_name:
  assumes "spool_name n"
  shows "segment_id_of n = Some i \<longleftrightarrow> 0 < i \<and> n = segment_path i"
  using assms segment_id_of_path segment_id_of_state by (auto simp: spool_name_def)

lemma set_map_filter: "set (List.map_filter f xs) = {y. \<exists>x \<in> set xs. f x = Some y}"
  by (induction xs) (auto simp: map_filter_simps split: option.splits)

lemma scan_ids:
  assumes d: "names_ok d" and ids: "ids = sort (List.map_filter (segment_id_of \<circ> fst) d)"
  shows "sorted_wrt (<) ids \<and> set ids = {i. segment_on d i}"
proof -
  have names: "\<forall>n \<in> set (map fst d). spool_name n" and dist: "distinct (map fst d)"
    using d by (auto simp: names_ok_def)
  have "set ids = {i. \<exists>n \<in> set (map fst d). segment_id_of n = Some i}"
    by (auto simp: ids set_map_filter)
  also have "\<dots> = {i. \<exists>n \<in> set (map fst d). 0 < i \<and> n = segment_path i}"
    using segment_id_of_name [OF names [THEN bspec]] by (intro Collect_cong bex_cong refl)
  also have "\<dots> = {i. segment_on d i}"
    by (auto simp: segment_on_def map_of_eq_None_iff)
  finally have set: "set ids = {i. segment_on d i}" .
  have "distinct (List.map_filter (segment_id_of \<circ> fst) d)"
    using names dist
  proof (induction d)
    case (Cons x d)
    have "i \<notin> set (List.map_filter (segment_id_of \<circ> fst) d)" if i: "segment_id_of (fst x) = Some i" for i
    proof
      assume "i \<in> set (List.map_filter (segment_id_of \<circ> fst) d)"
      then obtain y where y: "y \<in> set d" "segment_id_of (fst y) = Some i" by (auto simp: set_map_filter)
      have "fst y = segment_path i" "fst x = segment_path i"
        using segment_id_of_name [of "fst y" i] segment_id_of_name [of "fst x" i] y i Cons.prems(1) by auto
      with y Cons.prems(2) show False by (auto simp: image_iff)
    qed
    with Cons show ?case by (auto simp: map_filter_simps comp_def split: option.split)
  qed (simp add: map_filter_simps)
  with set show ?thesis by (simp add: ids strict_sorted_iff)
qed

section \<open>Reopening\<close>

lemma strict_sorted_filter_eq:
  assumes "sorted_wrt (<) xs" "sorted_wrt (<) (ys :: nat list)" "\<And>i. P i \<Longrightarrow> i \<in> set xs \<longleftrightarrow> i \<in> set ys"
  shows "filter P xs = filter P ys"
  using assms by (intro strict_sorted_equal) (auto simp: sorted_wrt_filter)

text \<open>
  What opening finds, for a directory whose names are in order and whose segments need not be
  whole: the segments present, the saved cursor, and so the same queue.
\<close>

lemma open_restores_queue:
  assumes names: "names_ok (disk sp)"
    and ids: "\<And>i. segment_on (disk sp) i \<Longrightarrow> i \<in> set (segments sp) \<or> i < read_segment sp"
    and on: "\<And>i. i \<in> set (segments sp) \<Longrightarrow> segment_on (disk sp) i"
    and sorted: "sorted_wrt (<) (segments sp)"
    and cursor: "if segments sp = [] then read_segment sp = 1 else read_segment sp \<in> set (segments sp)"
    and st: "map_of (disk sp) ''state'' = Some (state_text st0)"
    and st0: "read_segment st0 = read_segment sp" "read_offset st0 = read_offset sp"
    and b: "state_bounds st0"
    and op: "open_spool no_faults c (fresh_spool (disk sp)) = (r, sp')"
  shows "r = Inr () \<and> queue sp' = queue sp \<and> disk sp' = disk sp \<and> is_open sp' \<and> cfg sp' = c \<and>
     read_segment sp' = read_segment sp \<and> read_offset sp' = read_offset sp \<and>
     next_sequence sp' = (if next_sequence st0 \<noteq> 0 then next_sequence st0 else 1) \<and>
     committed (stats sp') = committed (stats st0) \<and> dropped (stats sp') = dropped (stats st0) \<and>
     pending (stats sp') = min size_max (length (queue sp)) \<and>
     sorted_wrt (<) (segments sp') \<and> set (segments sp') = {i. segment_on (disk sp) i}"
proof -
  define found where "found = sort (List.map_filter (segment_id_of \<circ> fst) (disk sp))"
  define sp0 where "sp0 = (fresh_spool (disk sp))\<lparr>cfg := c, segments := found\<rparr>"
  have found: "sorted_wrt (<) found" "set found = {i. segment_on (disk sp) i}"
    using scan_ids [OF names found_def] by simp_all
  have front: "f \<le> read_segment sp" if "found = f # fs" for f fs
  proof (cases "segments sp = []")
    case True
    have "segment_on (disk sp) f" using that found(2) by auto
    with ids [of f] True show ?thesis by simp
  next
    case False
    then have "read_segment sp \<in> set found" using cursor on found(2) by simp
    with that found(1) show ?thesis by auto
  qed
  define sp1 where "sp1 = sp0\<lparr>read_segment := read_segment sp, read_offset := read_offset sp,
     next_sequence := (if next_sequence st0 \<noteq> 0 then next_sequence st0 else 1),
     stats := (stats sp0)\<lparr>committed := committed (stats st0), dropped := dropped (stats st0)\<rparr>,
     is_open := True\<rparr>"
  have ld: "load_state sp0 = sp0\<lparr>read_segment := read_segment st0, read_offset := read_offset st0,
     next_sequence := (if next_sequence st0 \<noteq> 0 then next_sequence st0 else 1),
     stats := (stats sp0)\<lparr>committed := committed (stats st0), dropped := dropped (stats st0)\<rparr>\<rparr>"
    using st b front st0 by (intro load_state_saved) (simp_all add: sp0_def fresh_spool_def)
  have op': "r = Inr ()" "sp' = sp1\<lparr>stats := (stats sp1)\<lparr>pending := length (fst (peek sp1 size_max))\<rparr>\<rparr>"
    using op ld st0 unfolding open_spool_def scan_segments_def
    by (simp_all add: no_faults_def Let_def sp1_def sp0_def fresh_spool_def found_def)
  have sel: "segments sp1 = found" "disk sp1 = disk sp" "read_segment sp1 = read_segment sp"
    "read_offset sp1 = read_offset sp" "cfg sp1 = c" "is_open sp1"
    by (simp_all add: sp1_def sp0_def fresh_spool_def)
  have "filter (\<lambda>i. read_segment sp \<le> i) found = filter (\<lambda>i. read_segment sp \<le> i) (segments sp)"
    by (rule strict_sorted_filter_eq [OF found(1) sorted]) (use found(2) ids on in force)
  moreover have "seg_bytes sp1 = seg_bytes sp" by (simp add: seg_bytes_eq seg_file_def sel fun_eq_iff)
  ultimately have "queue sp1 = queue sp" by (simp add: queue_def sel)
  with found show ?thesis by (simp add: op' length_peek sel) (simp add: sp1_def)
qed

lemma spool_ok_on:
  assumes "spool_ok sp" "i \<in> set (segments sp)"
  shows "segment_on (disk sp) i"
  using assms by (auto simp: spool_ok_def segment_on_def whole_segment_def)

lemma spool_ok_cursor:
  "spool_ok sp \<Longrightarrow> if segments sp = [] then read_segment sp = 1 else read_segment sp \<in> set (segments sp)"
  by (simp add: spool_ok_def cursor_ok_def split: if_splits)

lemma reopen:
  assumes ok: "spool_ok sp" and tr: "tracked sp"
    and st: "map_of (disk sp) ''state'' = Some (state_text st0)"
    and st0: "read_segment st0 = read_segment sp" "read_offset st0 = read_offset sp"
    and b: "state_bounds st0" and c: "0 < segment_bytes c"
    and op: "open_spool no_faults c (fresh_spool (disk sp)) = (r, sp')"
  shows "r = Inr () \<and> spool_ok sp' \<and> tracked sp' \<and> queue sp' = queue sp"
proof -
  have names: "names_ok (disk sp)"
    and ids: "\<And>i. segment_on (disk sp) i \<Longrightarrow> i \<in> set (segments sp) \<or> i < read_segment sp"
    and whole: "\<And>i. segment_on (disk sp) i \<Longrightarrow> whole_segment (disk sp) i"
    using tr by (auto simp: tracked_def dir_ok_def)
  have sorted: "sorted_wrt (<) (segments sp)" using ok by (simp add: spool_ok_def)
  have o: "r = Inr ()" "queue sp' = queue sp" "disk sp' = disk sp" "is_open sp'" "cfg sp' = c"
    "read_segment sp' = read_segment sp" "read_offset sp' = read_offset sp"
    "sorted_wrt (<) (segments sp')" "set (segments sp') = {i. segment_on (disk sp) i}"
    using open_restores_queue [OF names ids spool_ok_on [OF ok] sorted spool_ok_cursor [OF ok] st st0 b op]
    by simp_all
  have "cursor_ok sp'"
  proof (cases "segments sp = []")
    case True
    then have "set (segments sp') = {}" using ok by (auto simp: o spool_ok_def segment_on_def)
    then have "segments sp' = []" by simp
    with True ok show ?thesis by (simp add: cursor_ok_def o spool_ok_def)
  next
    case False
    obtain ps qs where c: "map_of (disk sp) (segment_path (read_segment sp)) = Some (frames (ps @ qs))"
      "list_all fits (ps @ qs)" "read_offset sp = length (frames ps)"
      using cursor_frames [OF ok False] by auto
    have "read_segment sp \<in> set (segments sp')"
      using spool_ok_cursor [OF ok] spool_ok_on [OF ok] False by (simp add: o)
    with c show ?thesis by (intro cursor_okI [of sp' ps qs]) (simp_all add: o)
  qed
  moreover have "0 < i \<and> whole_segment (disk sp) i" if "i \<in> set (segments sp')" for i
    using that whole [of i] by (simp add: o segment_on_def)
  moreover have "map_of (disk sp) (segment_path i) = None" if "0 < i" "\<forall>j \<in> set (segments sp'). j < i" for i
  proof (rule ccontr)
    assume "map_of (disk sp) (segment_path i) \<noteq> None"
    with that have "i \<in> set (segments sp')" by (simp add: o segment_on_def)
    with that show False by blast
  qed
  ultimately have "spool_ok sp'" using c o(8) by (simp add: spool_ok_def o)
  moreover have "tracked sp'" using tr by (simp add: tracked_def o)
  ultimately show ?thesis using o by simp
qed

section \<open>The directory stays in step with the object\<close>

lemma tracked_delete:
  assumes "tracked sp" "disk sp' = AList.delete n (disk sp) \<or> disk sp' = disk sp"
    "\<And>i. i \<in> set (segments sp) \<or> i < read_segment sp \<Longrightarrow> i \<in> set (segments sp') \<or> i < read_segment sp'"
  shows "tracked sp'"
  using assms dir_ok_delete segment_on_delete unfolding tracked_def by metis

lemma commit_loop_tracked: "tracked sp \<Longrightarrow> tracked (commit_loop io n sp)"
proof (induction io n sp rule: commit_loop.induct)
  case (1 io n sp)
  let ?i = "read_segment sp"
  show ?case
  proof (cases "0 < n \<and> segments sp \<noteq> []")
    case False
    then have "commit_loop io n sp = sp" by (subst commit_loop.simps) (rule if_not_P)
    then show ?thesis using "1.prems" by simp
  next
    case True
    show ?thesis
    proof (cases "map_of (disk sp) (segment_path ?i)")
      case None
      have "tracked (sp\<lparr>read_segment := nx, read_offset := 0\<rparr>)" if "upper_bound (segments sp) ?i = Some nx" for nx
        using upper_bound_SomeD [OF that] by (intro tracked_delete [OF "1.prems", of _ "[]"]) auto
      then show ?thesis
        using "1.IH"(1) [OF True refl None] "1.prems" True None
        by (subst commit_loop.simps) (simp split: option.split)
    next
      case (Some s)
      obtain m off st adv where cf: "commit_frames n (drop (read_offset sp) s) (read_offset sp) (stats sp) False = (m, off, st, adv)"
        by (metis prod_cases4)
      have keep: "tracked (sp\<lparr>read_offset := off, stats := st\<rparr>)"
        using "1.prems" by (intro tracked_delete [OF "1.prems", of _ "[]"]) auto
      have retire: "tracked (sp\<lparr>read_offset := off, stats := st,
           disk := (if remove_ok io (segment_path ?i) then AList.delete (segment_path ?i) (disk sp) else disk sp),
           segments := filter (\<lambda>j. j \<noteq> ?i) (segments sp), read_segment := nx, read_offset := 0\<rparr>)"
        if "upper_bound (segments sp) ?i = Some nx" for nx
        using upper_bound_SomeD [OF that]
        by (intro tracked_delete [OF "1.prems", of _ "segment_path ?i"]) auto
      show ?thesis
        using retire "1.IH"(2) [OF True refl Some cf [symmetric] refl refl refl] keep
        by (cases "remove_ok io (segment_path ?i)")
          (subst commit_loop.simps, simp add: True Some cf Let_def split: option.split)+
    qed
  qed
qed

lemma evict_step_tracked:
  assumes "tracked sp" "sorted_wrt (<) (segments sp)" "segments sp \<noteq> []"
  shows "tracked (evict_step io sp)"
proof -
  obtain v zs where seg: "segments sp = v # zs" using assms(3) by (cases "segments sp") auto
  have front: "v < (case zs of [] \<Rightarrow> v + 1 | f # _ \<Rightarrow> f)"
    using assms(2) seg by (auto split: list.split)
  show ?thesis
    by (rule tracked_delete [OF assms(1), of _ "segment_path v"])
      (use front seg in \<open>auto simp: evict_step_def Let_def\<close>)
qed

lemma enforce_bounds_tracked:
  "tracked sp \<Longrightarrow> sorted_wrt (<) (segments sp) \<Longrightarrow> tracked (enforce_bounds io sp)"
proof (induction io sp rule: enforce_bounds.induct)
  case (1 io sp)
  show ?case
  proof (cases "max_bytes (cfg sp) < total_bytes sp \<and> 1 < length (segments sp)")
    case True
    then have "segments sp \<noteq> []" by auto
    moreover have "sorted_wrt (<) (segments (evict_step io sp))"
      using "1.prems"(2) by (cases "segments sp") (simp_all add: segments_evict_step)
    ultimately show ?thesis
      using "1.IH" [OF True] evict_step_tracked "1.prems" True by (subst enforce_bounds.simps) simp
  next
    case False
    then have "enforce_bounds io sp = sp" by (subst enforce_bounds.simps) (rule if_not_P)
    then show ?thesis using "1.prems" by simp
  qed
qed

lemma choose_segment_active:
  assumes ok: "spool_ok sp" and room: "\<forall>i \<in> set (segments sp). i < u64_max"
  shows "0 < last (segments (choose_segment sp)) \<and> last (segments (choose_segment sp)) \<le> u64_max \<and>
    set (segments (choose_segment sp)) = insert (last (segments (choose_segment sp))) (set (segments sp)) \<and>
    sorted_wrt (<) (segments (choose_segment sp)) \<and> read_segment sp \<in> set (segments (choose_segment sp))"
  using ok
proof (cases rule: choose_segment_cases)
  case (keep ids x)
  with ok room show ?thesis by (auto simp: spool_ok_def cursor_ok_def less_imp_le)
next
  case (roll x)
  have "x \<le> u64_max"
  proof (cases "segments sp = []")
    case True
    with roll show ?thesis by (simp add: u64_max_def)
  next
    case False
    with roll(1) have "x = last (segments sp) + 1"
      by (auto simp: choose_segment_def Let_def split: if_splits)
    moreover have "last (segments sp) < u64_max" using room False last_in_set by blast
    ultimately show ?thesis by simp
  qed
  moreover have "sorted_wrt (<) (segments sp @ [x])" "read_segment sp \<in> set (segments sp @ [x])"
    using ok roll by (auto simp: spool_ok_def sorted_wrt_append cursor_ok_def split: if_splits)
  ultimately show ?thesis using roll by auto
qed

lemma append_core_tracked:
  assumes ok: "spool_ok sp" and tr: "tracked sp" and p: "fits p"
    and room: "\<forall>i \<in> set (segments sp). i < u64_max"
    and sp': "sp' = (choose_segment sp)\<lparr>disk := file_append (disk sp)
        (segment_path (last (segments (choose_segment sp)))) (frame p)\<rparr>"
  shows "tracked sp'"
  using tr dir_ok_append [OF _ _ _ p, of "disk sp" "last (segments (choose_segment sp))"]
    choose_segment_active [OF ok room]
  by (auto simp: tracked_def sp')

lemma append_tracked:
  assumes ok: "spool_ok sp" and tr: "tracked sp" and p: "fits p"
    and room: "\<forall>i \<in> set (segments sp). i < u64_max"
    and io: "append_open_ok io" "append_bytes io = None"
    and app: "append_record io p sp = (r, sp')"
  shows "tracked sp'"
proof -
  define sp1 where "sp1 = (choose_segment sp)\<lparr>disk := file_append (disk sp)
        (segment_path (last (segments (choose_segment sp)))) (frame p)\<rparr>"
  define sp2 where "sp2 = sp1\<lparr>stats := (stats sp)\<lparr>appended := appended (stats sp) + 1,
        pending := pending (stats sp) + 1\<rparr>, next_sequence := next_sequence sp + 1\<rparr>"
  have "spool_ok sp1" using append_core [OF ok p sp1_def] by simp
  then have sorted: "sorted_wrt (<) (segments sp2)" by (simp add: sp2_def spool_ok_def)
  have "tracked sp2"
    using append_core_tracked [OF ok tr p room sp1_def] by (simp add: tracked_def sp2_def)
  then have "tracked (enforce_bounds io sp2)" by (rule enforce_bounds_tracked [OF _ sorted])
  moreover have "save_state io (enforce_bounds io sp2) = (r, sp')"
    using app ok p io by (simp add: append_record_def spool_ok_def sp2_def sp1_def flushed_def Let_def)
  ultimately show ?thesis using save_state_tracked by blast
qed

lemma commit_tracked:
  assumes "tracked sp" "commit io n sp = (r, sp')"
  shows "tracked sp'"
  using assms save_state_tracked [OF _ commit_loop_tracked [OF assms(1)]]
  by (auto simp: commit_def split: if_splits)

lemma save_state_saved:
  assumes "save_state io sp = (Inr (), sp')" "tmp_flush io = None"
  shows "map_of (disk sp') ''state'' = Some (state_text sp')"
proof -
  note fr = save_state_frame [OF assms(1)]
  have "state_text sp' = state_text sp" by (simp add: state_text_def fr)
  with assms show ?thesis
    by (auto simp: save_state_def Let_def flushed_def map_of_file_rename AList.update_conv' AList.delete_conv'
        split: if_splits)
qed

section \<open>Sessions\<close>

text \<open>
  A session of one process with its spool, from an empty directory: records are appended (all
  their bytes reach the segment; everything after that may fail), oversized ones are refused,
  commits run under any failure, statistics are read. The list is the ghost history of all
  records accepted so far.
\<close>

inductive session :: "spool_config \<Rightarrow> string list \<Rightarrow> spool \<Rightarrow> bool" for c where
  session_open: "open_spool no_faults c (fresh_spool []) = (r, sp) \<Longrightarrow> session c [] sp"
| session_append: "session c hist sp \<Longrightarrow> fits p \<Longrightarrow> append_open_ok io \<Longrightarrow> append_bytes io = None \<Longrightarrow>
    length (queue sp) < size_max \<Longrightarrow> \<forall>i \<in> set (segments sp). i < u64_max \<Longrightarrow>
    append_record io p sp = (r, sp') \<Longrightarrow> session c (hist @ [p]) sp'"
| session_refuse: "session c hist sp \<Longrightarrow> \<not> fits p \<Longrightarrow> append_record io p sp = (r, sp') \<Longrightarrow> session c hist sp'"
| session_commit: "session c hist sp \<Longrightarrow> commit io n sp = (r, sp') \<Longrightarrow> session c hist sp'"
| session_stats: "session c hist sp \<Longrightarrow> get_stats sp = (st, sp') \<Longrightarrow> session c hist sp'"

definition session_ok :: "spool_config \<Rightarrow> string list \<Rightarrow> spool \<Rightarrow> bool" where
  "session_ok c hist sp \<longleftrightarrow>
     spool_ok sp \<and> tracked sp \<and> cfg sp = c \<and> length (queue sp) \<le> size_max \<and>
     appended (stats sp) = length hist \<and>
     committed (stats sp) + dropped (stats sp) \<le> length hist \<and>
     queue sp = drop (committed (stats sp) + dropped (stats sp)) hist \<and>
     pending (stats sp) = length (queue sp)"

lemma tracked_update [simp]: "tracked (sp\<lparr>stats := st\<rparr>) = tracked sp"
  by (simp add: tracked_def)

lemma session_invariant:
  assumes "session c hist sp" "0 < segment_bytes c"
  shows "session_ok c hist sp"
  using assms
proof (induction rule: session.induct)
  case (session_open r sp)
  then have "sp = (fresh_spool [])\<lparr>cfg := c, read_segment := 1, is_open := True\<rparr>"
    by (auto simp: open_spool_def scan_segments_def load_state_def fresh_spool_def no_faults_def
        map_filter_simps peek_def)
  with session_open.prems show ?case
    by (auto simp: session_ok_def spool_ok_def cursor_ok_def tracked_def dir_ok_def names_ok_def
        segment_on_def fresh_spool_def queue_def)
next
  case (session_append hist sp p io r sp')
  note h = session_append.hyps
  have ok: "session_ok c hist sp" by (rule session_append.IH [OF session_append.prems])
  have o: "spool_ok sp" "tracked sp" "pending (stats sp) = length (queue sp)"
    using ok by (simp_all add: session_ok_def)
  have "tracked sp'" by (rule append_tracked [OF o(1,2) h(2,6,3,4,7)])
  moreover obtain k where k: "k \<le> length (queue sp)" "queue sp' = drop k (queue sp) @ [p]" "spool_ok sp'"
    "stats sp' = (stats sp)\<lparr>appended := appended (stats sp) + 1, dropped := dropped (stats sp) + k,
         pending := length (queue sp')\<rparr>" "cfg sp' = cfg sp"
    using append_enqueues [OF o(1) h(2-4) o(3) h(5,7)] by blast
  moreover have "k + (committed (stats sp) + dropped (stats sp)) \<le> length hist"
    using ok k(1) by (auto simp: session_ok_def)
  ultimately show ?case
    using ok h(5) by (auto simp: session_ok_def add.commute add.left_commute)
next
  case (session_refuse hist sp p io r sp')
  then show ?case by (auto simp: append_record_def not_less session_ok_def spool_ok_def)
next
  case (session_commit hist sp io n r sp')
  have ok: "session_ok c hist sp" by (rule session_commit.IH [OF session_commit.prems])
  have o: "spool_ok sp" "tracked sp" using ok by (simp_all add: session_ok_def)
  have "tracked sp'" by (rule commit_tracked [OF o(2) session_commit.hyps(2)])
  moreover obtain k where "released k sp sp'" "spool_ok sp'"
    using commit_released [OF o(1) session_commit.hyps(2)] by blast
  ultimately show ?case using ok by (auto simp: session_ok_def released_def add.commute add.left_commute)
next
  case (session_stats hist sp st sp')
  then show ?case by (auto simp: session_ok_def get_stats_def Let_def length_peek)
qed

definition saved :: "spool \<Rightarrow> bool" where
  "saved sp \<longleftrightarrow> map_of (disk sp) ''state'' = Some (state_text sp) \<and> state_bounds sp"

lemma open_after_crash:
  assumes ok: "spool_ok sp" and tr: "tracked sp" and sv: "saved sp"
    and room: "\<forall>i \<in> set (segments sp). i < u64_max"
    and sp1: "sp1 = (choose_segment sp)\<lparr>disk := file_append (disk sp)
        (segment_path (last (segments (choose_segment sp)))) bytes\<rparr>"
    and op: "open_spool no_faults c (fresh_spool (disk sp1)) = (r, sp2)"
  shows "r = Inr () \<and> queue sp2 = queue sp1"
proof -
  let ?a = "last (segments (choose_segment sp))"
  note a = choose_segment_active [OF ok room]
  have on: "segment_on (disk sp1) i \<longleftrightarrow> segment_on (disk sp) i \<or> i = ?a" for i
    using a by (auto simp: segment_on_def sp1 map_of_file_append)
  have "r = Inr () \<and> queue sp2 = queue sp1 \<and> disk sp2 = disk sp1 \<and> is_open sp2 \<and> cfg sp2 = c \<and>
     read_segment sp2 = read_segment sp1 \<and> read_offset sp2 = read_offset sp1 \<and>
     next_sequence sp2 = (if next_sequence sp \<noteq> 0 then next_sequence sp else 1) \<and>
     committed (stats sp2) = committed (stats sp) \<and> dropped (stats sp2) = dropped (stats sp) \<and>
     pending (stats sp2) = min size_max (length (queue sp1)) \<and>
     sorted_wrt (<) (segments sp2) \<and> set (segments sp2) = {i. segment_on (disk sp1) i}"
  proof (rule open_restores_queue [OF _ _ _ _ _ _ _ _ _ op])
    show "names_ok (disk sp1)"
      using tr a names_ok_append [of "disk sp" ?a bytes] by (simp add: sp1 tracked_def dir_ok_def)
    show "i \<in> set (segments sp1) \<or> i < read_segment sp1" if "segment_on (disk sp1) i" for i
      using that tr a on [of i] by (auto simp: sp1 tracked_def)
    show "segment_on (disk sp1) i" if "i \<in> set (segments sp1)" for i
    proof -
      have "i = ?a \<or> i \<in> set (segments sp)" using that a by (auto simp: sp1)
      then show ?thesis using on [of i] spool_ok_on [OF ok] by blast
    qed
    show "sorted_wrt (<) (segments sp1)" using a by (simp add: sp1)
    show "if segments sp1 = [] then read_segment sp1 = 1 else read_segment sp1 \<in> set (segments sp1)"
      using a by (auto simp: sp1)
    show "map_of (disk sp1) ''state'' = Some (state_text sp)" "state_bounds sp"
      using sv by (simp_all add: sp1 map_of_file_append saved_def)
    show "read_segment sp = read_segment sp1" "read_offset sp = read_offset sp1"
      by (simp_all add: sp1)
  qed
  then show ?thesis by blast
qed

section \<open>The properties\<close>

text \<open>
  C1: In every session from an empty directory, under every failure of the state file and of
  the removal of segments, the queue is the list of all accepted records without its oldest
  \<open>committed + dropped\<close> ones: nothing is lost without being counted, duplicated or reordered,
  and \<open>appended = committed + dropped + pending\<close>.
\<close>

theorem session_ledger:
  assumes "session c hist sp" and "0 < segment_bytes c"
  shows "spool_ok sp \<and> queue sp = drop (committed (stats sp) + dropped (stats sp)) hist \<and>
     appended (stats sp) = length hist \<and>
     appended (stats sp) = committed (stats sp) + dropped (stats sp) + pending (stats sp)"
  using session_invariant [OF assms] by (auto simp: session_ok_def)

text \<open>A session of one append, for the instances.\<close>

abbreviation demo_config :: spool_config where
  "demo_config \<equiv> \<lparr>max_bytes = 1000, segment_bytes = 500\<rparr>"

definition demo_open :: spool where
  "demo_open = snd (open_spool no_faults demo_config (fresh_spool []))"

definition demo_spool :: spool where
  "demo_spool = snd (append_record no_faults ''a'' demo_open)"

lemma demo_open_eq:
  "demo_open = (fresh_spool [])\<lparr>cfg := demo_config, is_open := True, read_segment := 1\<rparr>"
  by (simp add: demo_open_def open_spool_def scan_segments_def load_state_def fresh_spool_def
      no_faults_def map_filter_simps peek_def)

lemma demo_session: "session demo_config [''a''] demo_spool"
proof -
  have "session demo_config ([] @ [''a'']) demo_spool"
    unfolding demo_spool_def
  proof (rule session_append [OF _ _ _ _ _ _ surjective_pairing])
    show "session demo_config [] demo_open"
      unfolding demo_open_def by (rule session_open [OF surjective_pairing])
  qed (simp_all add: no_faults_def demo_open_eq fresh_spool_def queue_def size_max_def u64_max_def)
  then show ?thesis by simp
qed

lemma demo_spool_eq:
  "demo_spool = \<lparr>disk = [(segment_path 1, frame ''a''), (''state'', state_text demo_spool)],
     cfg = demo_config, is_open = True, segments = [1], read_segment = 1, read_offset = 0,
     next_sequence = 2, stats = \<lparr>appended = 1, committed = 0, dropped = 0, pending = 1,
       bytes_on_disk = 0, stat_segments = 0\<rparr>\<rparr>"
proof -
  let ?sp = "\<lparr>disk = [(segment_path 1, frame ''a'')],
     cfg = demo_config, is_open = True, segments = [1], read_segment = 1, read_offset = 0,
     next_sequence = 2, stats = \<lparr>appended = 1, committed = 0, dropped = 0, pending = 1,
       bytes_on_disk = 0, stat_segments = 0\<rparr>\<rparr>"
  have "enforce_bounds no_faults ?sp = ?sp"
    by (subst enforce_bounds.simps) simp
  then have e: "demo_spool = snd (save_state no_faults ?sp)"
    by (simp add: demo_spool_def append_record_def demo_open_eq fresh_spool_def choose_segment_def
        no_faults_def file_size_def file_append_def flushed_def numeral_2_eq_2)
  then have "demo_spool = ?sp\<lparr>disk := [(segment_path 1, frame ''a''), (''state'', state_text ?sp)]\<rparr>"
    by (simp add: save_state_def no_faults_def flushed_def file_rename_def)
  moreover have "state_text (?sp\<lparr>disk := d\<rparr>) = state_text ?sp" for d
    by (simp add: state_text_def)
  then have "state_text demo_spool = state_text ?sp"
    by (simp only: calculation)
  ultimately show ?thesis by simp
qed

lemma demo_saved: "saved demo_spool"
proof -
  have "map_of (disk demo_spool) ''state'' = Some (state_text demo_spool)"
    by (subst demo_spool_eq) simp
  moreover have "state_bounds demo_spool"
    by (subst demo_spool_eq) (simp add: state_bounds_def u64_max_def)
  ultimately show ?thesis by (simp add: saved_def)
qed

lemma demo_room: "\<forall>i \<in> set (segments demo_spool). i < u64_max"
  by (subst demo_spool_eq) (simp add: u64_max_def)

theorem session_ledger_witness:
  "session demo_config [''a''] demo_spool \<and> queue demo_spool = [''a'']"
proof -
  have "committed (stats demo_spool) + dropped (stats demo_spool) = 0"
    by (subst (1 2) demo_spool_eq) simp
  then show ?thesis using session_ledger [OF demo_session] demo_session by simp
qed

text \<open>
  C11: Closing the process and opening the directory again restores the session: the queue is
  the same, the invariant holds, and the cursor and the counters of released and dropped records
  are the saved ones. Segments whose removal had failed come back in the list but lie behind the
  cursor.
\<close>

theorem reopen_restores_session:
  assumes "session c hist sp" and "0 < segment_bytes c" and "saved sp" and "0 < segment_bytes c'"
    and "open_spool no_faults c' (fresh_spool (disk sp)) = (r, sp')"
  shows "r = Inr () \<and> spool_ok sp' \<and> queue sp' = queue sp"
proof -
  have "spool_ok sp" "tracked sp"
    using session_invariant [OF assms(1,2)] by (simp_all add: session_ok_def)
  then show ?thesis
    using reopen [OF _ _ _ refl refl _ assms(4,5)] assms(3) by (simp add: saved_def)
qed

theorem reopen_restores_session_witness:
  "queue (snd (open_spool no_faults demo_config (fresh_spool (disk demo_spool)))) = queue demo_spool"
  using reopen_restores_session [OF demo_session _ demo_saved _ surjective_pairing, of demo_config]
  by simp

text \<open>
  C12: A process that dies in the middle of an append, after any number \<open>k\<close> of bytes of the frame
  has reached the segment and before the state file is written, loses at most the record it was
  writing: opening the directory again gives the old queue, with the new record at its end
  exactly when all its bytes are there.
\<close>

theorem crash_during_append:
  assumes "session c hist sp" and "0 < segment_bytes c" and "saved sp" and "fits p"
    and "\<forall>i \<in> set (segments sp). i < u64_max"
    and "append_open_ok io" and "append_bytes io = Some k" and "append_record io p sp = (r, sp1)"
    and "open_spool no_faults c' (fresh_spool (disk sp1)) = (r', sp2)"
  shows "r' = Inr () \<and>
     queue sp2 = (if k < length (frame p) then queue sp else queue sp @ [p])"
proof -
  have ok: "spool_ok sp" "tracked sp"
    using session_invariant [OF assms(1,2)] by (simp_all add: session_ok_def)
  note sp1 = append_torn(2) [OF ok(1) assms(4,6-8)]
  have "queue sp1 = (if k < length (frame p) then queue sp else queue sp @ [p])"
    using queue_unreadable_tail [OF ok(1) readable_torn [OF assms(4)] sp1]
      append_core [OF ok(1) assms(4), of sp1] sp1 by (simp add: not_less)
  then show ?thesis using open_after_crash [OF ok assms(3,5) sp1 assms(9)] by simp
qed

theorem crash_during_append_witness:
  "let sp1 = snd (append_record (no_faults\<lparr>append_bytes := Some 7\<rparr>) ''b'' demo_spool)
   in queue (snd (open_spool no_faults demo_config (fresh_spool (disk sp1)))) = queue demo_spool"
  using crash_during_append [OF demo_session _ demo_saved _ demo_room _ _ surjective_pairing surjective_pairing,
      of "''b''" "no_faults\<lparr>append_bytes := Some 7\<rparr>" 7 demo_config]
  by (simp add: no_faults_def length_frame kHeaderBytes_def)

end
