(* ===== verification/Transport.thy ===== *)
theory Transport
  imports CInt Json
begin

unbundle bit_operations_syntax

text \<open>
  The transport: URL parsing and retry delays of \<^verbatim>\<open>src/src/transport.cpp\<close>, and the OpenSSL
  backend \<^verbatim>\<open>src/src/transport_openssl.cpp\<close> with the TLS library and the network as an argument of
  type \<open>tls_env\<close>: what dialling, the handshake, the digest of the peer's certificate, each write and
  the reads return. \<open>post\<close> yields the result of a request and the bytes that reached the peer.
\<close>

section \<open>URLs\<close>

fun find_sub :: "string \<Rightarrow> string \<Rightarrow> nat option" where
  "find_sub p [] = (if p = [] then Some 0 else None)"
| "find_sub p (c # s) = (if starts_with p (c # s) then Some 0 else map_option Suc (find_sub p s))"

record parsed_url =
  scheme :: string
  url_host :: string
  port :: int
  path :: string

datatype url_error = No_scheme | Not_https string | No_host

definition split_port :: "string \<Rightarrow> string \<times> int" where
  "split_port authority =
     (case rfind_char (CHR '':'') authority of
        Some colon \<Rightarrow>
          if list_all is_digit (drop (colon + 1) authority) \<and> colon + 1 < length authority
          then (take colon authority, atoi (drop (colon + 1) authority))
          else (authority, 443)
      | None \<Rightarrow> (authority, 443))"

definition parse_url :: "string \<Rightarrow> url_error + parsed_url" where
  "parse_url url =
     (case find_sub ''://'' url of
        None \<Rightarrow> Inl No_scheme
      | Some scheme_end \<Rightarrow>
          let sch = take scheme_end url in
          if sch \<noteq> ''https'' then Inl (Not_https sch)
          else
            let rst = drop (scheme_end + 3) url;
                (authority, pth) = (case find_char (CHR ''/'') rst of
                   Some slash \<Rightarrow> (take slash rst, drop slash rst) | None \<Rightarrow> (rst, ''/''));
                (hst, prt) = split_port authority
            in if hst = [] then Inl No_host
               else Inr \<lparr>scheme = sch, url_host = hst, port = prt, path = pth\<rparr>)"

section \<open>Backoff\<close>

definition backoff_ceiling :: "int \<Rightarrow> 64 word \<Rightarrow> 64 word \<Rightarrow> 64 word" where
  "backoff_ceiling attempt base_ms cap_ms =
     (let attempt = (if attempt < 0 then 0 else attempt);
          ex = min attempt 20;
          ceiling = push_bit (nat ex) base_ms
      in if sint cap_ms < sint ceiling \<or> sint ceiling \<le> 0 then cap_ms else ceiling)"

text \<open>\<open>draw\<close> is the uniform distribution on \<open>[0, ceiling]\<close>.\<close>

definition backoff_delay_ms :: "(int \<Rightarrow> int) \<Rightarrow> int \<Rightarrow> 64 word \<Rightarrow> 64 word \<Rightarrow> int" where
  "backoff_delay_ms draw attempt base_ms cap_ms = draw (sint (backoff_ceiling attempt base_ms cap_ms))"

section \<open>Pins\<close>

definition hex_lower :: "string \<Rightarrow> string" where
  "hex_lower p = concat (map (\<lambda>c. [kHex ! (drop_bit 4 (byte c) AND 0xF), kHex ! (byte c AND 0xF)]) p)"

definition normalise_pin :: "string \<Rightarrow> string" where
  "normalise_pin p = map tolower (filter (\<lambda>c. c \<noteq> CHR '':'' \<and> c \<noteq> CHR '' '') p)"

section \<open>The OpenSSL backend\<close>

record transport_config =
  tc_url :: string
  client_cert_path :: string
  client_key_path :: string
  server_pin_sha256 :: string
  timeout_ms :: int

datatype peer_digest = No_certificate | Hash_failed | Digest string

record tls_env =
  ctx_ok :: bool
  load_cert_ok :: "string \<Rightarrow> bool"
  load_key_ok :: "string \<Rightarrow> bool"
  key_matches :: bool
  dial_ok :: bool
  ssl_new_ok :: bool
  handshake_ok :: bool
  peer :: peer_digest
  ssl_write :: "nat \<Rightarrow> int \<Rightarrow> int"
  ssl_reads :: "string list"

datatype post_error = Dial_failed | Ssl_new_failed | Handshake_failed | No_peer_certificate
  | Digest_failed | Pin_mismatch string | Write_failed | Empty_response | Http_error int

record post_result =
  ok :: bool
  http_status :: int
  resp_body :: string
  post_error :: "post_error option"
  retryable :: bool

record transport =
  t_cfg :: transport_config
  t_url :: parsed_url
  t_pin :: string

datatype transport_error = Bad_url url_error | Bad_pin nat | No_context | Bad_certificate string
  | Bad_key string | Key_mismatch

definition transport_init :: "tls_env \<Rightarrow> transport \<Rightarrow> transport_error + transport" where
  "transport_init e t =
     (let pn = normalise_pin (server_pin_sha256 (t_cfg t));
          cert = client_cert_path (t_cfg t);
          ky = (if client_key_path (t_cfg t) = [] then cert else client_key_path (t_cfg t))
      in if length pn \<noteq> 64 then Inl (Bad_pin (length pn))
         else if \<not> ctx_ok e then Inl No_context
         else if cert \<noteq> [] \<and> \<not> load_cert_ok e cert then Inl (Bad_certificate cert)
         else if cert \<noteq> [] \<and> \<not> load_key_ok e ky then Inl (Bad_key ky)
         else if cert \<noteq> [] \<and> \<not> key_matches e then Inl Key_mismatch
         else Inr (t\<lparr>t_pin := pn\<rparr>))"

definition make_transport :: "tls_env \<Rightarrow> transport_config \<Rightarrow> transport_error + transport" where
  "make_transport e tc =
     (case parse_url (tc_url tc) of
        Inl err \<Rightarrow> Inl (Bad_url err)
      | Inr u \<Rightarrow> transport_init e \<lparr>t_cfg = tc, t_url = u, t_pin = []\<rparr>)"

definition empty_result :: post_result where
  "empty_result = \<lparr>ok = False, http_status = 0, resp_body = [], post_error = None, retryable = False\<rparr>"

definition verify_pin :: "tls_env \<Rightarrow> string \<Rightarrow> post_error option" where
  "verify_pin e pn =
     (case peer e of
        No_certificate \<Rightarrow> Some No_peer_certificate
      | Hash_failed \<Rightarrow> Some Digest_failed
      | Digest d \<Rightarrow> if hex_lower d \<noteq> pn then Some (Pin_mismatch (hex_lower d)) else None)"

text \<open>Whether all bytes were written, and how many were.\<close>

function write_all :: "tls_env \<Rightarrow> nat \<Rightarrow> string \<Rightarrow> nat \<Rightarrow> bool \<times> nat" where
  "write_all e calls dat sent =
     (if sent < length dat then
        (let n = ssl_write e calls (sint (word_of_nat (length dat - sent) :: 32 word)) in
         if n \<le> 0 then (False, sent) else write_all e (Suc calls) dat (sent + nat n))
      else (True, sent))"
  by pat_completeness auto
termination
  by (relation "measure (\<lambda>(e, calls, dat, sent). length dat - sent)") auto

declare write_all.simps [simp del]

definition crlf :: string where
  "crlf = [CHR 0x0D, CHR 0x0A]"

definition request_text :: "parsed_url \<Rightarrow> string \<Rightarrow> string \<Rightarrow> string" where
  "request_text u bdy ctype =
     ''POST '' @ path u @ '' HTTP/1.1'' @ crlf @
     ''Host: '' @ url_host u @ '':'' @ show_int (port u) @ crlf @
     ''User-Agent: nano-sensor/0.1'' @ crlf @
     ''Content-Type: '' @ ctype @ crlf @
     ''Content-Length: '' @ show_nat (length bdy) @ crlf @
     ''Connection: close'' @ crlf @ crlf @ bdy"

definition status_of_response :: "string \<Rightarrow> int" where
  "status_of_response response =
     (if starts_with ''HTTP/'' response
      then (case find_char (CHR '' '') response of Some sp \<Rightarrow> atoi (drop (sp + 1) response) | None \<Rightarrow> 0)
      else 0)"

definition response_result :: "string \<Rightarrow> post_result" where
  "response_result response =
     (if response = [] then empty_result\<lparr>post_error := Some Empty_response, retryable := True\<rparr>
      else
        let st = status_of_response response;
            bdy = (case find_sub (crlf @ crlf) response of Some i \<Rightarrow> drop (i + 4) response | None \<Rightarrow> []);
            r = empty_result\<lparr>http_status := st, resp_body := bdy, ok := (200 \<le> st \<and> st < 300)\<rparr>
        in if ok r then r
           else r\<lparr>post_error := Some (Http_error st), retryable := (500 \<le> st \<or> st = 429)\<rparr>)"

definition post :: "tls_env \<Rightarrow> transport \<Rightarrow> string \<Rightarrow> string \<Rightarrow> post_result \<times> string" where
  "post e t bdy ctype =
     (if \<not> dial_ok e then (empty_result\<lparr>post_error := Some Dial_failed, retryable := True\<rparr>, [])
      else if \<not> ssl_new_ok e then (empty_result\<lparr>post_error := Some Ssl_new_failed, retryable := True\<rparr>, [])
      else if \<not> handshake_ok e then (empty_result\<lparr>post_error := Some Handshake_failed, retryable := True\<rparr>, [])
      else case verify_pin e (t_pin t) of
        Some err \<Rightarrow> (empty_result\<lparr>post_error := Some err, retryable := False\<rparr>, [])
      | None \<Rightarrow>
          let request = request_text (t_url t) bdy ctype;
              (written, sent) = write_all e 0 request 0;
              wire = take sent request
          in if \<not> written then (empty_result\<lparr>post_error := Some Write_failed, retryable := True\<rparr>, wire)
             else (response_result (concat (ssl_reads e)), wire))"

section \<open>Lemmas\<close>

lemma find_sub_scheme:
  assumes "CHR '':'' \<notin> set s"
  shows "find_sub ''://'' (s @ ''://'' @ t) = Some (length s)"
  using assms by (induction s) (auto simp: starts_with_def)

lemma find_sub_Some: "find_sub p s = Some i \<Longrightarrow> \<exists>t. s = take i s @ p @ t"
proof (induction s arbitrary: i)
  case (Cons c s)
  then show ?case by (auto simp: starts_with_iff split: if_splits)
qed (auto split: if_splits)

lemma sint_of_nat_le: "sint (word_of_nat m :: 32 word) \<le> int m"
proof -
  have "sint (word_of_int (int m) :: 32 word) = (int m + 2 ^ 31) mod 2 ^ 32 - 2 ^ 31"
    unfolding int_word_sint by simp
  also have "\<dots> \<le> int m" using zmod_le_nonneg_dividend [of "int m + 2 ^ 31" "2 ^ 32"] by simp
  finally show ?thesis by simp
qed

lemma write_all_sent:
  assumes "sent \<le> length dat" and "\<And>k len. ssl_write e k len \<le> len"
  shows "snd (write_all e calls dat sent) \<le> length dat \<and>
     (fst (write_all e calls dat sent) \<longrightarrow> snd (write_all e calls dat sent) = length dat)"
  using assms
proof (induction e calls dat sent rule: write_all.induct)
  case (1 e calls dat sent)
  let ?n = "ssl_write e calls (sint (word_of_nat (length dat - sent) :: 32 word))"
  show ?case
  proof (cases "sent < length dat \<and> 0 < ?n")
    case True
    have "?n \<le> int (length dat - sent)"
      using "1.prems"(2) [of calls "sint (word_of_nat (length dat - sent) :: 32 word)"]
        sint_of_nat_le [of "length dat - sent"] by linarith
    with True have "sent + nat ?n \<le> length dat" by linarith
    with True "1.IH" [OF _ refl] "1.prems"(2) show ?thesis
      by (simp add: write_all.simps [of e calls dat sent] Let_def)
  next
    case False
    then show ?thesis using "1.prems"(1) by (auto simp: write_all.simps [of e calls dat sent] Let_def)
  qed
qed

lemma post_verified:
  "snd (post e t bdy ctype) \<noteq> [] \<or> ok (fst (post e t bdy ctype)) \<Longrightarrow>
     dial_ok e \<and> handshake_ok e \<and> (\<exists>d. peer e = Digest d \<and> hex_lower d = t_pin t)"
  by (auto simp: post_def verify_pin_def empty_result_def Let_def split: if_splits peer_digest.splits)

lemma response_result_ok:
  "ok (response_result s) \<longleftrightarrow> s \<noteq> [] \<and> 200 \<le> status_of_response s \<and> status_of_response s < 300"
  by (auto simp: response_result_def empty_result_def Let_def)

lemma response_result_retryable:
  "retryable (response_result s) \<longleftrightarrow> s = [] \<or> 500 \<le> status_of_response s \<or> status_of_response s = 429"
  by (auto simp: response_result_def empty_result_def Let_def)

lemma split_port_number:
  assumes "n < 2 ^ 31"
  shows "split_port (hst @ CHR '':'' # show_nat n) = (hst, int n)"
proof -
  have digits: "list_all is_digit (show_nat n)" by (rule show_nat_digits)
  then have "CHR '':'' \<notin> set (show_nat n)" by (auto simp: list_all_iff is_digit_def)
  then have "rfind_char (CHR '':'') (hst @ CHR '':'' # show_nat n) = Some (length hst)"
    by (rule rfind_char_append_absent)
  then show ?thesis using digits atoi_show_nat [OF assms, of "[]"] by (simp add: split_port_def)
qed

lemma sint_push_bit:
  assumes "0 \<le> sint b" and "sint b * 2 ^ n < 2 ^ 63"
  shows "sint (push_bit n b :: 64 word) = sint b * 2 ^ n"
proof -
  have "push_bit n b = word_of_int (sint b * 2 ^ n)" by (simp add: push_bit_eq_mult)
  also have "sint \<dots> = sint b * 2 ^ n"
    using assms by (subst sint_sbintrunc', intro signed_take_bit_int_eq_self)
      (simp_all add: order_trans [of "- 9223372036854775808 :: int" 0])
  finally show ?thesis .
qed

definition demo_env :: tls_env where
  "demo_env = \<lparr>ctx_ok = True, load_cert_ok = (\<lambda>_. True), load_key_ok = (\<lambda>_. True), key_matches = True,
     dial_ok = True, ssl_new_ok = True, handshake_ok = True, peer = Digest ''x'',
     ssl_write = (\<lambda>k len. min 70 len), ssl_reads = [''HTTP/1.1 20'', ''0 OK'']\<rparr>"

definition demo_transport :: transport where
  "demo_transport =
     \<lparr>t_cfg = \<lparr>tc_url = [], client_cert_path = [], client_key_path = [], server_pin_sha256 = ''78'', timeout_ms = 1\<rparr>,
      t_url = \<lparr>scheme = ''https'', url_host = ''h'', port = 443, path = ''/''\<rparr>, t_pin = ''78''\<rparr>"

lemma demo_post_ok: "ok (fst (post demo_env demo_transport ''{}'' ''application/json''))"
  by code_simp

section \<open>The properties\<close>

text \<open>
  C6: No byte of a request reaches a peer whose certificate does not hash to the configured pin:
  when the digest differs, is missing or cannot be computed, nothing is written and the failure
  is permanent.
\<close>

theorem post_sends_only_to_pinned_peer:
  assumes "\<And>d. peer e = Digest d \<Longrightarrow> hex_lower d \<noteq> t_pin t"
  shows "snd (post e t bdy ctype) = [] \<and> \<not> ok (fst (post e t bdy ctype)) \<and>
    (dial_ok e \<and> ssl_new_ok e \<and> handshake_ok e \<longrightarrow> \<not> retryable (fst (post e t bdy ctype)))"
proof -
  have "\<exists>err. verify_pin e (t_pin t) = Some err"
    using assms by (cases "peer e") (auto simp: verify_pin_def)
  then show ?thesis using post_verified [of e t bdy ctype] assms by (auto simp: post_def empty_result_def)
qed

theorem post_sends_only_to_pinned_peer_witness:
  "snd (post (demo_env\<lparr>peer := Digest ''y''\<rparr>) demo_transport ''secret'' ''text/plain'') = []"
  by (rule post_sends_only_to_pinned_peer [THEN conjunct1])
    (simp add: hex_lower_def kHex_def demo_env_def demo_transport_def)

text \<open>
  C20: A successful post delivered the whole request: every byte of it was written to the pinned
  peer and the answer carried a 2xx status. A failed one is retryable exactly when the connection
  broke before an answer or the status is 5xx or 429.
\<close>

theorem post_ok_delivers:
  assumes "\<And>k len. ssl_write e k len \<le> len" and "post e t bdy ctype = (r, wire)"
  shows "(ok r \<longrightarrow> wire = request_text (t_url t) bdy ctype \<and> 200 \<le> http_status r \<and> http_status r < 300 \<and>
       \<not> retryable r \<and> (\<exists>d. peer e = Digest d \<and> hex_lower d = t_pin t)) \<and>
     (http_status r \<noteq> 0 \<longrightarrow> (retryable r \<longleftrightarrow> 500 \<le> http_status r \<or> http_status r = 429))"
proof -
  let ?req = "request_text (t_url t) bdy ctype"
  have w: "snd (write_all e 0 ?req 0) = length ?req" if "fst (write_all e 0 ?req 0)"
    using write_all_sent [of 0 ?req e 0] assms(1) that by simp
  have st: "http_status (response_result s) = (if s = [] then 0 else status_of_response s)" for s
    by (simp add: response_result_def empty_result_def Let_def)
  have "ok r \<Longrightarrow> \<exists>d. peer e = Digest d \<and> hex_lower d = t_pin t"
    using post_verified [of e t bdy ctype] assms(2) by simp
  moreover have "r = response_result (concat (ssl_reads e)) \<and> wire = ?req \<or>
      (\<not> ok r \<and> http_status r = 0)"
    using assms(2) w by (auto simp: post_def empty_result_def Let_def split: if_splits option.splits prod.splits)
  ultimately show ?thesis
    by (auto simp: response_result_ok response_result_retryable st split: if_splits)
qed

theorem post_ok_delivers_witness:
  "ok (fst (post demo_env demo_transport ''{}'' ''application/json'')) \<and>
   snd (post demo_env demo_transport ''{}'' ''application/json'') =
     request_text (t_url demo_transport) ''{}'' ''application/json''"
proof -
  have "\<And>k len. ssl_write demo_env k len \<le> len" by (simp add: demo_env_def)
  from post_ok_delivers [OF this surjective_pairing] demo_post_ok show ?thesis by blast
qed

text \<open>
  A URL put together from a host, a port and a path parses back into them, and every URL that
  parses has the scheme https and a host: plain HTTP is refused.
\<close>

theorem parse_url_roundtrip:
  assumes "hst \<noteq> []" and "CHR ''/'' \<notin> set hst" and "n < 2 ^ 31" and "pth = [] \<or> hd pth = CHR ''/''"
  shows "parse_url (''https://'' @ hst @ '':'' @ show_nat n @ pth) =
      Inr \<lparr>scheme = ''https'', url_host = hst, port = int n, path = (if pth = [] then ''/'' else pth)\<rparr> \<and>
    (\<forall>url u. parse_url url = Inr u \<longrightarrow> starts_with ''https://'' url \<and> url_host u \<noteq> [])"
proof
  let ?auth = "hst @ CHR '':'' # show_nat n"
  have "CHR ''/'' \<notin> set (show_nat n)" using show_nat_digitD [of "CHR ''/''" n] by (auto simp: is_digit_def)
  then have slash: "CHR ''/'' \<notin> set ?auth" using assms(2) by simp
  have "find_sub ''://'' (''https'' @ ''://'' @ (?auth @ pth)) = Some (length ''https'')" by (rule find_sub_scheme) simp
  moreover have "find_char (CHR ''/'') (?auth @ pth) = (if pth = [] then None else Some (length ?auth))"
    using assms(4) find_char_append_absent [OF slash, of "tl pth"] slash by (cases pth) auto
  ultimately show "parse_url (''https://'' @ hst @ '':'' @ show_nat n @ pth) =
      Inr \<lparr>scheme = ''https'', url_host = hst, port = int n, path = (if pth = [] then ''/'' else pth)\<rparr>"
    using split_port_number [OF assms(3), of hst] assms(1) by (auto simp: parse_url_def)
  show "\<forall>url u. parse_url url = Inr u \<longrightarrow> starts_with ''https://'' url \<and> url_host u \<noteq> []"
  proof (intro allI impI)
    fix url u assume p: "parse_url url = Inr u"
    then obtain i where i: "find_sub ''://'' url = Some i" "take i url = ''https''"
      by (auto simp: parse_url_def Let_def split: option.splits if_splits)
    then obtain t where "url = ''https'' @ ''://'' @ t" using find_sub_Some [OF i(1)] by auto
    moreover have "url_host u \<noteq> []"
      using p by (auto simp: parse_url_def Let_def split: option.splits if_splits prod.splits)
    ultimately show "starts_with ''https://'' url \<and> url_host u \<noteq> []" by (simp add: starts_with_def)
  qed
qed

theorem parse_url_roundtrip_witness:
  "parse_url (''https://'' @ ''[::1]'' @ '':'' @ show_nat 8443 @ ''/v1'') =
     Inr \<lparr>scheme = ''https'', url_host = ''[::1]'', port = 8443, path = ''/v1''\<rparr>"
  using parse_url_roundtrip [of "''[::1]''" 8443 "''/v1''"] by simp

text \<open>
  C34: A retry delay is never negative and never above the cap, whatever the attempt counter is, and
  the ceiling doubles with each attempt until it meets the cap.
\<close>

theorem backoff_within_bounds:
  assumes "\<And>c. 0 \<le> c \<Longrightarrow> 0 \<le> draw c \<and> draw c \<le> c" and "0 \<le> sint cap_ms" and "0 < sint base_ms"
    and "sint base_ms < 2 ^ 42"
  shows "0 \<le> backoff_delay_ms draw attempt base_ms cap_ms \<and>
    backoff_delay_ms draw attempt base_ms cap_ms \<le> min (sint cap_ms) (sint base_ms * 2 ^ nat (min 20 (max 0 attempt)))"
proof -
  define n where "n = nat (min 20 (max 0 attempt))"
  have "(2 :: int) ^ n \<le> 2 ^ 20" unfolding n_def by (rule power_increasing) auto
  then have "sint base_ms * 2 ^ n \<le> sint base_ms * 2 ^ 20" using assms(3) by (intro mult_left_mono) auto
  also have "\<dots> < 2 ^ 63" using assms(4) by simp
  finally have small: "sint base_ms * 2 ^ n < 2 ^ 63" .
  have "nat (min (if attempt < 0 then 0 else attempt) 20) = n" unfolding n_def by (simp add: max_def min.commute)
  then have "backoff_ceiling attempt base_ms cap_ms =
      (if sint cap_ms < sint (push_bit n base_ms) \<or> sint (push_bit n base_ms) \<le> 0 then cap_ms else push_bit n base_ms)"
    unfolding backoff_ceiling_def Let_def by (simp only:)
  moreover have "sint (push_bit n base_ms) = sint base_ms * 2 ^ n" using assms(3) by (intro sint_push_bit [OF _ small]) linarith
  moreover have "0 < sint base_ms * 2 ^ n" using assms(3) by simp
  ultimately have c: "sint (backoff_ceiling attempt base_ms cap_ms) = min (sint cap_ms) (sint base_ms * 2 ^ n)"
    by (cases "sint cap_ms < sint base_ms * 2 ^ n") (simp_all add: min_def)
  have "0 \<le> min (sint cap_ms) (sint base_ms * 2 ^ n)" using assms(2, 3) by simp
  from assms(1) [OF this] show ?thesis unfolding backoff_delay_ms_def c n_def .
qed

theorem backoff_within_bounds_witness:
  "0 \<le> backoff_delay_ms (\<lambda>c. c div 2) 64 1000 300000 \<and> backoff_delay_ms (\<lambda>c. c div 2) 64 1000 300000 \<le> 300000"
  using backoff_within_bounds [of "\<lambda>c. c div 2" 300000 1000 64] by simp

end
