(* ===== verification/Reporter.thy ===== *)
theory Reporter
  imports Spool_Recovery Inventory Transport Cli "HOL-Library.Multiset"
begin

text \<open>
  The reporter of \<^verbatim>\<open>src/src/main.cpp\<close>: opening the spool and the transport, collecting records into
  the spool, draining the spool over the transport, the commands \<^verbatim>\<open>report\<close> and the telemetry hook
  of \<^verbatim>\<open>run\<close>. The loop of \<^verbatim>\<open>drain\<close> is defined over the two spool operations it calls and has fuel:
  \<^const>\<open>None\<close> is a loop still running. The world it meets in its \<open>i\<close>-th round (stop flag, network,
  file system, random draw) is an argument.
\<close>

section \<open>Records\<close>

definition read_first_line :: "string option \<Rightarrow> string" where
  "read_first_line file =
     (case file of
        None \<Rightarrow> []
      | Some txt \<Rightarrow> rev (dropWhile (\<lambda>c. c = CHR 0x0D \<or> c = CHR 0x0A) (rev (takeWhile (\<lambda>c. c \<noteq> CHR 0x0A) txt))))"

definition make_record :: "string \<Rightarrow> string \<Rightarrow> string \<Rightarrow> string" where
  "make_record rid ty payload_json =
     [CHR ''{'', DQ] @ ''id'' @ [DQ, CHR '':'', DQ] @ json_escape rid @
     [DQ, CHR '','', DQ] @ ''type'' @ [DQ, CHR '':'', DQ] @ json_escape ty @
     [DQ, CHR '','', DQ] @ ''payload'' @ [DQ, CHR '':''] @ payload_json @ ''}''"

section \<open>Start-up\<close>

record reporter =
  rp_spool :: spool
  rp_transport :: transport
  rp_opt :: options
  run_tag :: string

datatype init_error = Needs_pin | Spool_failed spool_error | Transport_failed transport_error

text \<open>\<^verbatim>\<open>%08x\<close> of a 32-bit word.\<close>

definition hex8 :: "32 word \<Rightarrow> string" where
  "hex8 w = map (\<lambda>i. kHex ! (unat (drop_bit (4 * (7 - i)) w) mod 16)) [0..<8]"

definition reporter_init ::
  "io_faults \<Rightarrow> tls_env \<Rightarrow> (string \<Rightarrow> string option) \<Rightarrow> (string \<Rightarrow> directory) \<Rightarrow> 32 word \<Rightarrow> 32 word \<Rightarrow> options \<Rightarrow>
     init_error + reporter" where
  "reporter_init io e files dirs rd1 rd2 opt =
     (let pin = (if opt_pin opt = [] \<and> pin_file opt \<noteq> [] then read_first_line (files (pin_file opt)) else opt_pin opt) in
      if pin = [] then Inl Needs_pin
      else
        case open_spool io \<lparr>max_bytes = spool_max_bytes opt, segment_bytes = spool_max_bytes opt div 8 + 1\<rparr>
               (fresh_spool (dirs (spool_dir opt))) of
          (Inl err, _) \<Rightarrow> Inl (Spool_failed err)
        | (Inr _, sp) \<Rightarrow>
            (case make_transport e \<lparr>tc_url = opt_url opt, client_cert_path = client_cert opt,
                   client_key_path = client_key opt, server_pin_sha256 = pin, timeout_ms = 15000\<rparr> of
               Inl err \<Rightarrow> Inl (Transport_failed err)
             | Inr t \<Rightarrow> Inr \<lparr>rp_spool = sp, rp_transport = t, rp_opt = opt, run_tag = hex8 rd1 @ hex8 rd2\<rparr>))"

section \<open>Collecting\<close>

definition synthetic_json :: "nat \<Rightarrow> 64 word \<Rightarrow> string" where
  "synthetic_json i now =
     out (end_object (field_i64 ''ts'' now (field_nat ''n'' i (begin_object (new_writer False)))))"

definition synthetic_id :: "string \<Rightarrow> 64 word \<Rightarrow> nat \<Rightarrow> string" where
  "synthetic_id tag now i = ''synthetic-'' @ tag @ ''-'' @ show_int (sint now) @ ''-'' @ show_nat i"

text \<open>\<open>n\<close> records from number \<open>i\<close> on; the first failure ends the loop.\<close>

fun collect_synthetic ::
  "(nat \<Rightarrow> io_faults) \<Rightarrow> string \<Rightarrow> 64 word \<Rightarrow> nat \<Rightarrow> nat \<Rightarrow> spool \<Rightarrow> (spool_error + unit) \<times> spool" where
  "collect_synthetic io tag now 0 i sp = (Inr (), sp)"
| "collect_synthetic io tag now (Suc n) i sp =
     (case append_record (io i) (make_record (synthetic_id tag now i) ''synthetic'' (synthetic_json i now)) sp of
        (Inl err, sp') \<Rightarrow> (Inl err, sp')
      | (Inr _, sp') \<Rightarrow> collect_synthetic io tag now n (Suc i) sp')"

definition append_inventory :: "io_faults \<Rightarrow> 64 word \<Rightarrow> inventory \<Rightarrow> string \<Rightarrow> spool \<Rightarrow> (spool_error + unit) \<times> spool" where
  "append_inventory io now iv tag sp =
     append_record io
       (make_record (hostname (host iv) @ ''-'' @ tag @ ''-'' @ show_int (sint now) @ ''-inventory'')
          ''inventory'' (to_json False iv)) sp"

definition collect :: "(nat \<Rightarrow> io_faults) \<Rightarrow> 64 word \<Rightarrow> inventory \<Rightarrow> reporter \<Rightarrow> (spool_error + unit) \<times> reporter" where
  "collect io now iv r =
     (let (res, sp) =
        (if 0 < synthetic (rp_opt r)
         then collect_synthetic io (run_tag r) now (nat (synthetic (rp_opt r))) 0 (rp_spool r)
         else append_inventory (io 0) now iv (run_tag r) (rp_spool r))
      in (res, r\<lparr>rp_spool := sp\<rparr>))"

section \<open>Draining\<close>

text \<open>The slices slept; the stop flag is polled before each.\<close>

function sleep_slices :: "(nat \<Rightarrow> bool) \<Rightarrow> nat \<Rightarrow> int \<Rightarrow> int \<Rightarrow> int list" where
  "sleep_slices stop k waited ms =
     (if waited < ms \<and> \<not> stop k
      then (if ms - waited < 200 then ms - waited else 200) # sleep_slices stop (Suc k) (waited + 200) ms
      else [])"
  by pat_completeness auto
termination
  by (relation "measure (\<lambda>(stop, k, waited, ms). nat (ms - waited))") auto

declare sleep_slices.simps [simp del]

definition sleep_interruptible :: "(nat \<Rightarrow> bool) \<Rightarrow> int \<Rightarrow> int list" where
  "sleep_interruptible stop ms = sleep_slices stop 0 0 ms"

definition batch_body :: "string list \<Rightarrow> string" where
  "batch_body batch =
     [CHR ''{'', DQ] @ ''records'' @ [DQ, CHR '':'', CHR ''['']
       @ (case batch of [] \<Rightarrow> [] | p # ps \<Rightarrow> p @ concat (map (\<lambda>q. CHR '','' # q) ps)) @ '']}''"

record drain_result =
  drained :: nat
  gave_up :: bool

datatype drain_event = Posted "string list" post_result | Slept "int list"

record drain_env =
  stop_flag :: "nat \<Rightarrow> bool"
  net :: "nat \<Rightarrow> tls_env"
  disk_faults :: "nat \<Rightarrow> io_faults"
  jitter :: "nat \<Rightarrow> int \<Rightarrow> int"
  stop_poll :: "nat \<Rightarrow> nat \<Rightarrow> bool"

fun drain_with ::
  "('s \<Rightarrow> nat \<Rightarrow> string list) \<Rightarrow> (io_faults \<Rightarrow> nat \<Rightarrow> 's \<Rightarrow> ('e + unit) \<times> 's) \<Rightarrow> drain_env \<Rightarrow> transport \<Rightarrow> options \<Rightarrow>
     nat \<Rightarrow> nat \<Rightarrow> int \<Rightarrow> drain_result \<Rightarrow> drain_event list \<Rightarrow> 's \<Rightarrow> (drain_result \<times> 's \<times> drain_event list) option" where
  "drain_with fetch release env t opt 0 i attempt d ev s = None"
| "drain_with fetch release env t opt (Suc fuel) i attempt d ev s =
     (if stop_flag env i then Some (d, s, ev)
      else
        let batch = fetch s (batch_size opt) in
        if batch = [] then Some (d, s, ev)
        else
          let r = fst (post (net env i) t (batch_body batch) ''application/json''); ev = ev @ [Posted batch r] in
          if ok r then
            (case release (disk_faults env i) (length batch) s of
               (Inl _, s') \<Rightarrow> Some (d\<lparr>gave_up := True\<rparr>, s', ev)
             | (Inr _, s') \<Rightarrow>
                 drain_with fetch release env t opt fuel (Suc i) 0 (d\<lparr>drained := drained d + length batch\<rparr>) ev s')
          else if \<not> retryable r then Some (d\<lparr>gave_up := True\<rparr>, s, ev)
          else if max_attempts opt \<le> attempt + 1 then Some (d\<lparr>gave_up := True\<rparr>, s, ev)
          else
            let delay = backoff_delay_ms (jitter env i) (attempt + 1) 1000 300000
            in drain_with fetch release env t opt fuel (Suc i) (attempt + 1) d
                 (ev @ [Slept (sleep_interruptible (stop_poll env i) delay)]) s)"

definition peek_payloads :: "spool \<Rightarrow> nat \<Rightarrow> string list" where
  "peek_payloads sp n = map payload (fst (peek sp n))"

definition drain :: "drain_env \<Rightarrow> nat \<Rightarrow> reporter \<Rightarrow> (drain_result \<times> spool \<times> drain_event list) option" where
  "drain env fuel r =
     drain_with peek_payloads commit env (rp_transport r) (rp_opt r) fuel 0 0 \<lparr>drained = 0, gave_up = False\<rparr> [] (rp_spool r)"

section \<open>Commands\<close>

definition print_stats :: "drain_result \<Rightarrow> spool \<Rightarrow> bool \<Rightarrow> string" where
  "print_stats d sp p =
     (let st = fst (get_stats sp);
          w = begin_object (new_writer p);
          w = field_str ''backend'' ''openssl'' w;
          w = field_nat ''sent'' (drained d) w;
          w = field_nat ''pending'' (pending st) w;
          w = field_nat ''appended'' (appended st) w;
          w = field_nat ''committed'' (committed st) w;
          w = field_nat ''dropped'' (dropped st) w;
          w = field_nat ''bytes_on_disk'' (bytes_on_disk st) w;
          w = field_bool ''gave_up'' (gave_up d) w
      in out (end_object w) @ [CHR 0x0A])"

text \<open>Exit code, standard output and, where the spool was opened, its state.\<close>

definition cmd_report ::
  "(init_error + reporter) \<Rightarrow> (nat \<Rightarrow> io_faults) \<Rightarrow> 64 word \<Rightarrow> inventory \<Rightarrow> drain_env \<Rightarrow> nat \<Rightarrow> options \<Rightarrow>
     (int \<times> string \<times> spool option) option" where
  "cmd_report started io now iv env fuel opt =
     (if opt_url opt = [] then Some (2, [], None)
      else case started of
        Inl _ \<Rightarrow> Some (1, [], None)
      | Inr r \<Rightarrow>
          let (res, r) = (if drain_only opt then (Inr (), r) else collect io now iv r) in
          (case res of
             Inl _ \<Rightarrow> Some (1, [], Some (rp_spool r))
           | Inr _ \<Rightarrow>
               (case drain env fuel r of
                  None \<Rightarrow> None
                | Some (d, sp, ev) \<Rightarrow>
                    Some (if gave_up d \<and> drained d = 0 then 1 else 0, print_stats d sp (opt_pretty opt), Some sp))))"

text \<open>The hook \<^verbatim>\<open>run\<close> installs: a failed append is logged, and the spool is drained all the same.\<close>

definition on_inventory :: "io_faults \<Rightarrow> 64 word \<Rightarrow> drain_env \<Rightarrow> nat \<Rightarrow> inventory \<Rightarrow> reporter \<Rightarrow> (drain_result \<times> reporter) option" where
  "on_inventory io now env fuel iv r =
     (let (_, sp) = append_inventory io now iv (run_tag r) (rp_spool r); r = r\<lparr>rp_spool := sp\<rparr> in
      case drain env fuel r of
        None \<Rightarrow> None
      | Some (d, sp, ev) \<Rightarrow> Some (d, r\<lparr>rp_spool := sp\<rparr>))"

end
