(* ===== verification/Drain.thy ===== *)
theory Drain
  imports Reporter
begin

text \<open>
  What draining guarantees, over the interface it uses of the spool: records leave only after the
  peer acknowledged them, the loop ends when releasing works, and it does not end when releasing
  silently releases nothing, which is what the spool does at the end of a segment.
\<close>

section \<open>The interface\<close>

definition acked :: "drain_event list \<Rightarrow> string list list" where
  "acked ev = concat (map (\<lambda>e. case e of Posted b r \<Rightarrow> if ok r then [b] else [] | Slept _ \<Rightarrow> []) ev)"

lemma acked_simps [simp]:
  "acked [] = []" "acked (ev @ ev') = acked ev @ acked ev'"
  "acked [Posted b r] = (if ok r then [b] else [])" "acked [Slept x] = []"
  by (simp_all add: acked_def)

locale outbox =
  fixes valid :: "'s \<Rightarrow> bool" and contents :: "'s \<Rightarrow> string list"
    and fetch :: "'s \<Rightarrow> nat \<Rightarrow> string list"
    and release :: "io_faults \<Rightarrow> nat \<Rightarrow> 's \<Rightarrow> ('e + unit) \<times> 's"
  assumes fetch_oldest: "fetch s n = take n (contents s)"
    and release_prefix: "valid s \<Longrightarrow> release io n s = (r, s') \<Longrightarrow>
      valid s' \<and> (\<exists>k \<le> n. contents s' = drop k (contents s))"
begin

lemma acked_covers:
  assumes "valid s" and "drain_with fetch release env t opt fuel i a d ev s = Some (d', s', ev')"
  shows "valid s' \<and> (\<exists>k new. contents s' = drop k (contents s) \<and> ev' = ev @ new \<and>
    mset (take k (contents s)) \<subseteq># mset (concat (acked new)) \<and> drained d' \<le> drained d + length (concat (acked new)))"
  using assms
proof (induction fuel arbitrary: i a d ev s)
  case (Suc fuel)
  let ?b = "fetch s (batch_size opt)"
  let ?r = "fst (post (net env i) t (batch_body ?b) ''application/json'')"
  show ?case
  proof (cases "stop_flag env i \<or> ?b = []")
    case True
    then show ?thesis using Suc.prems by (auto simp: Let_def split: if_splits intro!: exI [of _ 0])
  next
    case go: False
    show ?thesis
    proof (cases "ok ?r")
      case True
      obtain r1 s1 where rel: "release (disk_faults env i) (length ?b) s = (r1, s1)" by fastforce
      from release_prefix [OF Suc.prems(1) rel] obtain k1
        where v1: "valid s1" and k1: "k1 \<le> length ?b" "contents s1 = drop k1 (contents s)" by blast
      have "mset (take k1 ?b) \<subseteq># mset ?b" by (metis append_take_drop_id mset_append mset_subset_eq_add_left)
      moreover have "take k1 ?b = take k1 (contents s)" using k1(1) by (simp add: fetch_oldest min_absorb1)
      ultimately have sub: "mset (take k1 (contents s)) \<subseteq># mset ?b" by simp
      show ?thesis
      proof (cases r1)
        case (Inl e)
        then show ?thesis
          using Suc.prems(2) go True rel v1 k1 sub
          by (auto simp: Let_def intro!: exI [of _ k1] exI [of _ "[Posted ?b ?r]"])
      next
        case (Inr u)
        with Suc.prems(2) go True rel have "drain_with fetch release env t opt fuel (Suc i) 0
            (d\<lparr>drained := drained d + length ?b\<rparr>) (ev @ [Posted ?b ?r]) s1 = Some (d', s', ev')"
          by (simp add: Let_def)
        from Suc.IH [OF v1 this] obtain k new where ih: "valid s'" "contents s' = drop k (contents s1)"
          "ev' = (ev @ [Posted ?b ?r]) @ new" "mset (take k (contents s1)) \<subseteq># mset (concat (acked new))"
          "drained d' \<le> drained (d\<lparr>drained := drained d + length ?b\<rparr>) + length (concat (acked new))" by blast
        have "take (k1 + k) (contents s) = take k1 (contents s) @ take k (contents s1)"
          by (simp add: take_add k1(2))
        then have "mset (take (k1 + k) (contents s)) \<subseteq># mset ?b + mset (concat (acked new))"
          using sub ih(4) by (simp add: subset_mset.add_mono)
        then show ?thesis
          using ih k1(2) True
          by (intro conjI exI [of _ "k1 + k"] exI [of _ "Posted ?b ?r # new"]) (auto simp: acked_def add.commute)
      qed
    next
      case False
      show ?thesis
      proof (cases "\<not> retryable ?r \<or> max_attempts opt \<le> a + 1")
        case True
        then show ?thesis
          using Suc.prems go False by (auto simp: Let_def split: if_splits intro!: exI [of _ 0] exI [of _ "[Posted ?b ?r]"])
      next
        case again: False
        obtain sl where "drain_with fetch release env t opt fuel (Suc i) (a + 1) d
            (ev @ [Posted ?b ?r, Slept sl]) s = Some (d', s', ev')"
          using Suc.prems(2) go False again by (auto simp: Let_def)
        from Suc.IH [OF Suc.prems(1) this] show ?thesis
          using False by (fastforce simp: acked_def)
      qed
    qed
  qed
qed simp

lemma drained_unless_given_up:
  assumes "drain_with fetch release env t opt fuel i a d ev s = Some (d', s', ev')"
    and "\<And>i. \<not> stop_flag env i" and "0 < batch_size opt" and "\<not> gave_up d'"
  shows "contents s' = []"
  using assms(1)
proof (induction fuel arbitrary: i a d ev s)
  case (Suc fuel)
  then show ?case
    using assms(2-4)
    by (auto simp: Let_def fetch_oldest split: if_splits prod.splits sum.splits)
qed simp

lemma stuck_forever:
  assumes stuck: "\<And>s n. stuck s \<Longrightarrow> contents s = c \<and> (\<exists>s'. release no_faults n s = (Inr (), s') \<and> stuck s')"
    and "\<And>i. \<not> stop_flag env i" and "\<And>i. disk_faults env i = no_faults"
    and "take (batch_size opt) c \<noteq> []"
    and "\<And>i. ok (fst (post (net env i) t (batch_body (take (batch_size opt) c)) ''application/json''))"
    and "stuck s"
  shows "drain_with fetch release env t opt fuel i a d ev s = None"
  using assms(6)
proof (induction fuel arbitrary: i a d ev s)
  case (Suc fuel)
  from stuck [OF Suc.prems] obtain s' where "contents s = c"
    "release no_faults (length (take (batch_size opt) c)) s = (Inr (), s')" "stuck s'" by blast
  then show ?case using assms(2-5) Suc.IH [of s'] by (simp add: Let_def fetch_oldest)
qed simp

end

text \<open>An outbox in which releasing what was fetched always works.\<close>

locale live_outbox = outbox +
  fixes live :: "'s \<Rightarrow> bool"
  assumes live_release: "live s \<Longrightarrow> n \<le> length (contents s) \<Longrightarrow>
    \<exists>s'. release no_faults n s = (Inr (), s') \<and> live s' \<and> contents s' = drop n (contents s)"
begin

lemma drain_returns:
  assumes "\<And>i. disk_faults env i = no_faults"
    and "live s" and "0 \<le> a" and "a < max 1 (max_attempts opt)"
    and "length (contents s) * nat (max 1 (max_attempts opt)) + nat (max 1 (max_attempts opt) - a) < fuel"
  shows "\<exists>d' s' ev'. drain_with fetch release env t opt fuel i a d ev s = Some (d', s', ev')"
  using assms(2-5)
proof (induction fuel arbitrary: i a d ev s)
  case (Suc fuel)
  let ?A = "nat (max 1 (max_attempts opt))"
  let ?b = "fetch s (batch_size opt)"
  let ?r = "fst (post (net env i) t (batch_body ?b) ''application/json'')"
  show ?case
  proof (cases "stop_flag env i \<or> ?b = [] \<or> (\<not> ok ?r \<and> (\<not> retryable ?r \<or> max_attempts opt \<le> a + 1))")
    case True
    then show ?thesis by (auto simp: Let_def)
  next
    case go: False
    show ?thesis
    proof (cases "ok ?r")
      case True
      have len: "length ?b \<le> length (contents s)" "0 < length ?b" using go by (auto simp: fetch_oldest)
      from live_release [OF Suc.prems(1) len(1)] obtain s' where s': "release no_faults (length ?b) s = (Inr (), s')"
        "live s'" "contents s' = drop (length ?b) (contents s)" by blast
      have pos: "0 < nat (max 1 (max_attempts opt) - a)" using Suc.prems(3) by simp
      have "Suc (length (contents s')) \<le> length (contents s)" using s'(3) len by (simp add: Suc_le_eq del: length_greater_0_conv)
      then have "Suc (length (contents s')) * ?A \<le> length (contents s) * ?A" by (rule mult_le_mono1)
      then have "length (contents s') * ?A + nat (max 1 (max_attempts opt) - 0) < fuel"
        using Suc.prems(4) pos unfolding mult_Suc diff_zero by linarith
      from Suc.IH [OF s'(2) _ _ this] show ?thesis using go True s'(1) assms(1) by (simp add: Let_def)
    next
      case False
      have "length (contents s) * ?A + nat (max 1 (max_attempts opt) - (a + 1)) < fuel" using Suc.prems by simp
      from Suc.IH [OF Suc.prems(1) _ _ this] show ?thesis
        using go False Suc.prems(2) by (simp add: Let_def)
    qed
  qed
qed simp

lemma drain_delivers:
  assumes "\<And>i. disk_faults env i = no_faults" and "\<And>i. \<not> stop_flag env i" and "0 < batch_size opt"
    and "\<And>i j. ok (fst (post (net env i) t (batch_body (take (batch_size opt) (drop j c))) ''application/json''))"
    and "live s" and "contents s = drop m c" and "length (contents s) < fuel"
  shows "\<exists>d' s' ev'. drain_with fetch release env t opt fuel i a d ev s = Some (d', s', ev') \<and>
    contents s' = [] \<and> drained d' = drained d + length (contents s) \<and> gave_up d' = gave_up d"
  using assms(5-7)
proof (induction fuel arbitrary: i a d ev s m)
  case (Suc fuel)
  let ?b = "take (batch_size opt) (drop m c)"
  have b: "fetch s (batch_size opt) = ?b" using Suc.prems(2) by (simp add: fetch_oldest)
  show ?case
  proof (cases "?b = []")
    case True
    then show ?thesis using b assms(2,3) Suc.prems(2) by (auto simp: Let_def)
  next
    case False
    from live_release [OF Suc.prems(1), of "length ?b"] Suc.prems(2) obtain s'
      where s': "release no_faults (length ?b) s = (Inr (), s')" "live s'"
        "contents s' = drop (length ?b + m) c" by (auto simp: add.commute)
    then have len: "length (contents s') + length ?b = length (contents s)" using Suc.prems(2) by simp
    moreover have "0 < length ?b" using False by blast
    ultimately have "length (contents s') < fuel" using Suc.prems(3) by linarith
    from Suc.IH [OF s'(2,3) this, of "Suc i" 0 "d\<lparr>drained := drained d + length ?b\<rparr>"] obtain d' s2 ev' where
      "drain_with fetch release env t opt fuel (Suc i) 0 (d\<lparr>drained := drained d + length ?b\<rparr>)
         (ev @ [Posted ?b (fst (post (net env i) t (batch_body ?b) ''application/json''))]) s' = Some (d', s2, ev')"
      "contents s2 = []" "drained d' = drained d + length ?b + length (contents s')" "gave_up d' = gave_up d"
      by fastforce
    then show ?thesis
      using b False s'(1) assms(1,2,4) len by (simp add: Let_def del: length_take length_drop)
  qed
qed simp

end

section \<open>The spool as an outbox\<close>

interpretation spool_outbox: outbox spool_ok queue peek_payloads commit
proof
  show "peek_payloads sp n = take n (queue sp)" for sp n
    by (simp add: peek_payloads_def peek_payload)
  show "spool_ok sp' \<and> (\<exists>k \<le> n. queue sp' = drop k (queue sp))"
    if "spool_ok sp" "commit io n sp = (r, sp')" for sp io n r sp'
    using commit_released [OF that] by (auto simp: released_def)
qed

text \<open>With the cursor in the last segment, a commit that can write its state file cannot fail.\<close>

definition last_segment_spool :: "spool \<Rightarrow> bool" where
  "last_segment_spool sp \<longleftrightarrow> spool_ok sp \<and> (\<exists>xs. segments sp = xs @ [read_segment sp])"

lemma save_state_no_faults: "fst (save_state no_faults sp) = Inr ()"
  by (rule save_state_success) (simp_all add: no_faults_def)

lemma commit_last_segment:
  assumes "last_segment_spool sp" and "commit io n sp = (r, sp')"
  shows "segments sp' = segments sp" "read_segment sp' = read_segment sp"
proof -
  from assms(1) obtain xs where ok: "spool_ok sp" and seg: "segments sp = xs @ [read_segment sp]"
    by (auto simp: last_segment_spool_def)
  obtain qs where qs: "seg_bytes sp (read_segment sp) = frames qs" "list_all fits qs"
    using seg_bytes_frames [OF ok, of "read_segment sp"] seg by auto
  have loop: "segments (commit_loop io n sp) = segments sp \<and> read_segment (commit_loop io n sp) = read_segment sp"
    using commit_loop_step [OF ok seg, of n qs] qs by (cases "n = 0") simp_all
  have "is_open sp" using ok by (simp add: spool_ok_def)
  then have "n = 0 \<and> sp' = sp \<or> save_state io (commit_loop io n sp) = (r, sp')"
    using assms(2) by (auto simp: commit_def split: if_splits)
  then show "segments sp' = segments sp" "read_segment sp' = read_segment sp"
    using loop by (auto dest: save_state_frame(3,4))
qed

interpretation spool_outbox: live_outbox spool_ok queue peek_payloads commit last_segment_spool
proof
  fix sp n
  assume live: "last_segment_spool sp" and n: "n \<le> length (queue sp)"
  then have ok: "spool_ok sp" "live_cursor sp" by (auto simp: last_segment_spool_def live_cursor_def)
  obtain r sp' where c: "commit no_faults n sp = (r, sp')" by fastforce
  have "fst (commit no_faults n sp) = Inr ()"
    using ok(1) save_state_no_faults by (simp add: commit_def spool_ok_def)
  moreover from commit_released [OF ok(1) c] n ok(2) have "released n sp sp'" "spool_ok sp'" by auto
  ultimately show "\<exists>sp'. commit no_faults n sp = (Inr (), sp') \<and> last_segment_spool sp' \<and> queue sp' = drop n (queue sp)"
    using c live commit_last_segment [OF live c] by (auto simp: last_segment_spool_def released_def)
qed

text \<open>At the end of a segment that is not the last, a commit succeeds and changes nothing.\<close>

definition at_segment_end :: "spool \<Rightarrow> bool" where
  "at_segment_end sp \<longleftrightarrow> spool_ok sp \<and> seg_bytes sp (read_segment sp) = [] \<and>
     (\<exists>xs y ys. segments sp = xs @ read_segment sp # y # ys)"

lemma commit_at_segment_end:
  assumes "at_segment_end sp"
  shows "\<exists>sp'. commit no_faults n sp = (Inr (), sp') \<and> at_segment_end sp' \<and> queue sp' = queue sp"
proof -
  from assms have ok: "spool_ok sp" by (simp add: at_segment_end_def)
  have loop: "commit_loop no_faults n sp = sp"
    using assms commit_loop_stuck by (auto simp: at_segment_end_def)
  obtain sp' where s: "save_state no_faults sp = (Inr (), sp')"
    using save_state_no_faults [of sp] by (cases "save_state no_faults sp") auto
  have "seg_bytes sp' (read_segment sp') = seg_bytes sp (read_segment sp)"
    by (auto simp: seg_bytes_def save_state_frame [OF s] split: option.split)
  then have "at_segment_end sp'"
    using assms save_state_frame(3,4) [OF s] save_state_queue(2) [OF s] by (simp add: at_segment_end_def)
  then show ?thesis
    using s loop ok assms save_state_queue(1) [OF s] by (auto simp: commit_def spool_ok_def)
qed

section \<open>The properties\<close>

text \<open>Concrete instances: a pinned server that accepts everything, and no fault or stop request.\<close>

definition demo_drain_env :: drain_env where
  "demo_drain_env = \<lparr>stop_flag = (\<lambda>_. False), net = (\<lambda>_. demo_env), disk_faults = (\<lambda>_. no_faults),
     jitter = (\<lambda>_ _. 0), stop_poll = (\<lambda>_ _. False)\<rparr>"

definition demo_reporter :: "spool \<Rightarrow> reporter" where
  "demo_reporter sp = \<lparr>rp_spool = sp, rp_transport = demo_transport,
     rp_opt = default_options\<lparr>batch_size := 1, max_attempts := 2\<rparr>, run_tag = ''0''\<rparr>"

lemma one_segment_last:
  "0 < segment_bytes c \<Longrightarrow> ps \<noteq> [] \<Longrightarrow> list_all fits ps \<Longrightarrow> last_segment_spool (one_segment c ps)"
  using one_segment_ok(1) [of c ps] by (simp add: last_segment_spool_def) (simp add: one_segment_def)

lemma demo_accepts:
  "ok (fst (post demo_env demo_transport (batch_body []) ''application/json''))"
  "ok (fst (post demo_env demo_transport (batch_body [''a'']) ''application/json''))"
  "ok (fst (post demo_env demo_transport (batch_body [''b'']) ''application/json''))"
  by code_simp+

text \<open>
  C4: Draining delivers at least once. What is missing from the queue after a drain is a prefix of
  what was there, every record of that prefix is in a batch the peer acknowledged, the spool
  stays well formed, and no more is reported as sent than was acknowledged; on every fault of the
  network and the disk, stop request and give-up.
\<close>

theorem drain_at_least_once:
  assumes "spool_ok (rp_spool r)" and "drain env fuel r = Some (d, sp', ev)"
  shows "spool_ok sp' \<and> drained d \<le> length (concat (acked ev)) \<and>
    (\<exists>k. queue sp' = drop k (queue (rp_spool r)) \<and> mset (take k (queue (rp_spool r))) \<subseteq># mset (concat (acked ev)))"
  using spool_outbox.acked_covers [OF assms(1) assms(2) [unfolded drain_def]] by auto

theorem drain_at_least_once_witness:
  "\<exists>d sp' ev. drain demo_drain_env 9 (demo_reporter (one_segment \<lparr>max_bytes = 100, segment_bytes = 50\<rparr> [''a'']))
       = Some (d, sp', ev) \<and> spool_ok sp' \<and> drained d \<le> length (concat (acked ev))"
proof -
  let ?r = "demo_reporter (one_segment \<lparr>max_bytes = 100, segment_bytes = 50\<rparr> [''a''])"
  have "\<exists>d sp' ev. drain demo_drain_env 9 ?r = Some (d, sp', ev)"
    unfolding drain_def
    by (rule spool_outbox.drain_returns)
      (simp_all add: demo_drain_env_def demo_reporter_def one_segment_last one_segment_ok)
  then obtain d sp' ev where d: "drain demo_drain_env 9 ?r = Some (d, sp', ev)" by blast
  have "spool_ok (rp_spool ?r)" by (simp add: demo_reporter_def one_segment_ok)
  from drain_at_least_once [OF this d] d show ?thesis by blast
qed





text \<open>
  C35: A batch that ends exactly at the end of a segment which is not the last makes draining run
  for ever: the server accepts every request, nothing asks for a stop and nothing fails, and yet
  no number of rounds is enough. After the first batch the cursor stands at the end of the
  segment, every later commit succeeds without releasing anything, and the same records are
  posted again and again.
\<close>

theorem drain_livelock:
  assumes "spool_ok (rp_spool r)" and "segments (rp_spool r) = xs @ read_segment (rp_spool r) # y # ys"
    and "seg_bytes (rp_spool r) (read_segment (rp_spool r)) = frames qs" and "list_all fits qs"
    and "batch_size (rp_opt r) = length qs" and "qs \<noteq> []"
    and "\<And>i. disk_faults env i = no_faults" and "\<And>i. \<not> stop_flag env i"
    and "\<And>i j. ok (fst (post (net env i) (rp_transport r)
           (batch_body (take (length qs) (drop j (queue (rp_spool r))))) ''application/json''))"
  shows "drain env fuel r = None"
proof (cases fuel)
  case (Suc m)
  let ?sp = "rp_spool r"
  let ?b = "take (length qs) (queue ?sp)"
  obtain e sp1 where c: "commit no_faults (length qs) ?sp = (e, sp1)" by fastforce
  note ex = commit_exhausts [OF assms(1-4,6) c]
  have at: "at_segment_end sp1" using ex by (auto simp: at_segment_end_def)
  have e: "e = Inr ()"
    using c assms(1) save_state_no_faults [of "commit_loop no_faults (length qs) ?sp"] by (auto simp: commit_def spool_ok_def split: if_splits)
  have lb: "length ?b = length qs" "?b \<noteq> []"
    using queue_at_cursor [OF _ assms(2)] assms(1,3,4,6) by (auto simp: spool_ok_def readable_frames)
  have stuck: "queue sp = queue sp1 \<and> (\<exists>sp'. commit no_faults n sp = (Inr (), sp') \<and>
      at_segment_end sp' \<and> queue sp' = queue sp1)" if "at_segment_end sp \<and> queue sp = queue sp1" for sp n
    using commit_at_segment_end [of sp n] that by simp
  have acc: "ok (fst (post (net env i) (rp_transport r)
      (batch_body (take (batch_size (rp_opt r)) (queue sp1))) ''application/json''))" for i
    using assms(9) [of i "length qs"] by (simp add: ex(4) assms(5))
  have "take (batch_size (rp_opt r)) (queue sp1) \<noteq> []" using ex(5) assms(5,6) by simp
  note loop = spool_outbox.stuck_forever [OF stuck assms(8,7) this acc conjI [OF at refl]]
  then show ?thesis
    using assms(5,7,8) assms(9) [of 0 0] lb c e loop by (simp add: Suc drain_def Let_def peek_payloads_def peek_payload)
qed (simp add: drain_def)

theorem drain_livelock_witness:
  "\<forall>fuel. drain demo_drain_env fuel (demo_reporter (two_segments \<lparr>max_bytes = 100, segment_bytes = 10\<rparr> [''a''] [''b''])) = None"
proof -
  let ?r = "demo_reporter (two_segments \<lparr>max_bytes = 100, segment_bytes = 10\<rparr> [''a''] [''b''])"
  have "ok (fst (post demo_env demo_transport (batch_body (take 1 (drop j [''a'', ''b'']))) ''application/json''))" for j
  proof (cases j)
    case (Suc k)
    then show ?thesis using demo_accepts by (cases k) simp_all
  qed (use demo_accepts in simp)
  then have "drain demo_drain_env fuel ?r = None" for fuel
    using drain_livelock [of ?r "[]" 2 "[]" "[''a'']" demo_drain_env fuel]
    by (simp add: demo_drain_env_def demo_reporter_def two_segments_ok)
  then show ?thesis ..
qed

end
