(* ===== verification/Batch.thy ===== *)
theory Batch
  imports Drain
begin

text \<open>
  What the far end reads: the records the reporter makes and the batches it posts are JSON texts
  whose trees hold the records, whatever was sent, and a drain posts nothing else.
\<close>

section \<open>Texts of records and batches\<close>

lemma items_compact: "items False d xs = (case xs of [] \<Rightarrow> [] | y # ys \<Rightarrow> y @ concat (map (\<lambda>z. CHR '','' # z) ys))"
proof -
  have "items False d (x # xs) = x @ concat (map (\<lambda>z. CHR '','' # z) xs)" for x xs
    by (induction xs arbitrary: x) (simp_all add: nl_def)
  then show ?thesis by (cases xs) simp_all
qed

text \<open>The compact text of a tree does not depend on the containers around it.\<close>

lemma render_compact: "render False d v = render False d' v"
proof (induction v arbitrary: d d')
  case (JObj ms)
  have "map (\<lambda>(k, v). key_text False k @ render False (Suc d) v) ms = map (\<lambda>(k, v). key_text False k @ render False (Suc d') v) ms"
    using JObj by (auto simp: case_prod_beta intro!: map_cong)
  then show ?case by (simp add: items_compact closing_def nl_def del: map_eq_conv)
next
  case (JArr vs)
  have "map (render False (Suc d)) vs = map (render False (Suc d')) vs" using JArr by (intro map_cong) auto
  then show ?case by (simp add: items_compact closing_def nl_def del: map_eq_conv)
qed simp_all

text \<open>A record: identifier, type and the tree of its payload.\<close>

type_synonym telemetry = "string \<times> string \<times> jval"

definition record_tree :: "telemetry \<Rightarrow> jval" where
  "record_tree r = (case r of (rid, ty, v) \<Rightarrow> JObj [(''id'', JStr rid), (''type'', JStr ty), (''payload'', v)])"

definition record_text :: "telemetry \<Rightarrow> string" where
  "record_text r = (case r of (rid, ty, v) \<Rightarrow> make_record rid ty (render False 0 v))"

definition batch_tree :: "telemetry list \<Rightarrow> jval" where
  "batch_tree rs = JObj [(''records'', JArr (map record_tree rs))]"

lemma plain_keys: "json_escape ''id'' = ''id''" "json_escape ''type'' = ''type''" "json_escape ''payload'' = ''payload''"
  "json_escape ''records'' = ''records''"
  by (simp_all add: json_escape_def escape_char_def)

lemma record_text_render: "record_text r = render False 0 (record_tree r)"
proof -
  obtain rid ty v where r: "r = (rid, ty, v)" by (cases r)
  show ?thesis
    using render_compact [of "Suc 0" v 0]
    by (simp add: r record_text_def record_tree_def make_record_def items_compact key_text_def quoted_def plain_keys closing_def nl_def)
qed

lemma batch_body_render: "batch_body (map record_text rs) = render False 0 (batch_tree rs)"
proof -
  have "map (render False 2) (map record_tree rs) = map record_text rs"
    using render_compact [of 2 _ 0] by (simp add: record_text_render)
  then show ?thesis
    by (simp add: batch_body_def batch_tree_def items_compact key_text_def quoted_def plain_keys closing_def nl_def
        numeral_2_eq_2 del: map_map)
qed

lemma batch_parses: "list_all (\<lambda>(_, _, v). nums_ok v) rs \<Longrightarrow> json_parse (batch_body (map record_text rs)) = Some (batch_tree rs)"
  unfolding batch_body_render
  by (rule json_parse_render) (auto simp: batch_tree_def record_tree_def list_all_iff)

lemma record_parses: "nums_ok v \<Longrightarrow> json_parse (record_text (rid, ty, v)) = Some (record_tree (rid, ty, v))"
  unfolding record_text_render by (rule json_parse_render) (simp add: record_tree_def)

lemma sublist_of_image: "set ys \<subseteq> f ` set xs \<Longrightarrow> \<exists>ts. ys = map f ts \<and> set ts \<subseteq> set xs"
proof (induction ys)
  case (Cons y ys)
  then obtain x ts where "x \<in> set xs" "y = f x" "ys = map f ts" "set ts \<subseteq> set xs" by auto
  then show ?case by (intro exI [of _ "x # ts"]) simp
qed simp

text \<open>What the reporter spools: an inventory as its record.\<close>

lemma inventory_record:
  "make_record rid ty (to_json False iv) = record_text (rid, ty, inventory_tree iv)" "nums_ok (inventory_tree iv)"
proof -
  have "to_json False iv = render False 0 (inventory_tree iv)"
    using inv_report.report_emit [of False iv] emit_render [OF inv_report.tree_emittable, of iv False] inv_report.tree_object [of iv]
    by auto
  then show "make_record rid ty (to_json False iv) = record_text (rid, ty, inventory_tree iv)" by (simp add: record_text_def)
  show "nums_ok (inventory_tree iv)" by (rule inv_report.tree_nums) simp
qed

section \<open>What a drain posts\<close>

context outbox
begin

lemma acked_from_contents:
  assumes "valid s" and "drain_with fetch release env t opt fuel i a d ev s = Some (d', s', ev')"
  shows "\<exists>new. ev' = ev @ new \<and> (\<forall>b \<in> set (acked new). set b \<subseteq> set (contents s))"
  using assms
proof (induction fuel arbitrary: i a d ev s)
  case (Suc fuel)
  let ?b = "fetch s (batch_size opt)"
  let ?r = "fst (post (net env i) t (batch_body ?b) ''application/json'')"
  have b: "set ?b \<subseteq> set (contents s)" by (simp add: fetch_oldest set_take_subset)
  obtain r1 s1 where rel: "release (disk_faults env i) (length ?b) s = (r1, s1)" by fastforce
  from release_prefix [OF Suc.prems(1) rel] have v1: "valid s1" and c1: "set (contents s1) \<subseteq> set (contents s)"
    by (auto dest: in_set_dropD)
  consider "stop_flag env i \<or> ?b = []" | (rel) u where "\<not> stop_flag env i" "?b \<noteq> []" "ok ?r" "r1 = Inr u"
    | (err) e where "\<not> stop_flag env i" "?b \<noteq> []" "ok ?r" "r1 = Inl e"
    | (ended) "\<not> stop_flag env i" "?b \<noteq> []" "\<not> ok ?r" "\<not> retryable ?r \<or> max_attempts opt \<le> a + 1"
    | (again) "\<not> stop_flag env i" "?b \<noteq> []" "\<not> ok ?r" "\<not> (\<not> retryable ?r \<or> max_attempts opt \<le> a + 1)"
    by (cases r1) blast+
  then show ?case
  proof cases
    case 1
    then show ?thesis using Suc.prems(2) by (auto simp: Let_def split: if_splits)
  next
    case rel': rel
    then have "drain_with fetch release env t opt fuel (Suc i) 0 (d\<lparr>drained := drained d + length ?b\<rparr>) (ev @ [Posted ?b ?r]) s1 =
        Some (d', s', ev')"
      using Suc.prems(2) rel by (simp add: Let_def)
    from Suc.IH [OF v1 this] obtain new where "ev' = (ev @ [Posted ?b ?r]) @ new" "\<forall>b \<in> set (acked new). set b \<subseteq> set (contents s1)"
      by blast
    moreover have "acked (Posted ?b ?r # new) = ?b # acked new" using rel'(3) by (simp add: acked_def)
    ultimately show ?thesis using b c1 by (intro exI [of _ "Posted ?b ?r # new"]) fastforce
  next
    case err
    then show ?thesis using Suc.prems(2) rel b by (auto simp: Let_def intro!: exI [of _ "[Posted ?b ?r]"])
  next
    case ended
    then show ?thesis using Suc.prems(2) by (auto simp: Let_def split: if_splits intro!: exI [of _ "[Posted ?b ?r]"])
  next
    case again
    then obtain sl where "drain_with fetch release env t opt fuel (Suc i) (a + 1) d (ev @ [Posted ?b ?r, Slept sl]) s = Some (d', s', ev')"
      using Suc.prems(2) by (auto simp: Let_def)
    from Suc.IH [OF Suc.prems(1) this] show ?thesis using again(3) by (fastforce simp: acked_def)
  qed
qed simp

end

section \<open>The property\<close>

text \<open>
  C5: What leaves the spool has been read at the far end. When the queue holds records of the
  reporter, every acknowledged request body is a JSON document with a list of such records, and
  the records that are gone from the queue are among those read, each with its identifier and its
  payload, as often as they were queued.
\<close>

theorem far_end_reads_records:
  assumes "spool_ok (rp_spool r)" and "queue (rp_spool r) = map record_text rs" and "list_all (\<lambda>(_, _, v). nums_ok v) rs"
    and "drain env fuel r = Some (d, sp', ev)"
  shows "\<exists>bs k. map (\<lambda>b. json_parse (batch_body b)) (acked ev) = map (\<lambda>ts. Some (batch_tree ts)) bs \<and>
    queue sp' = map record_text (drop k rs) \<and> mset (map record_tree (take k rs)) \<subseteq># mset (map record_tree (concat bs))"
proof -
  let ?q = "queue (rp_spool r)"
  have run: "drain_with peek_payloads commit env (rp_transport r) (rp_opt r) fuel 0 0 \<lparr>drained = 0, gave_up = False\<rparr> [] (rp_spool r) =
      Some (d, sp', ev)" using assms(4) by (simp add: drain_def)
  from spool_outbox.acked_covers [OF assms(1) run] obtain k where
    k: "queue sp' = drop k ?q" "mset (take k ?q) \<subseteq># mset (concat (acked ev))" by auto
  from spool_outbox.acked_from_contents [OF assms(1) run] have "\<forall>b \<in> set (acked ev). set b \<subseteq> set ?q" by auto
  then have "\<forall>b \<in> set (acked ev). \<exists>ts. b = map record_text ts \<and> set ts \<subseteq> set rs"
    using sublist_of_image [of _ record_text rs] by (simp add: assms(2))
  then obtain f where f: "\<And>b. b \<in> set (acked ev) \<Longrightarrow> b = map record_text (f b) \<and> set (f b) \<subseteq> set rs" by metis
  let ?bs = "map f (acked ev)"
  let ?p = "\<lambda>s. the (json_parse s)"
  have p: "map ?p (map record_text ts) = map record_tree ts" if "set ts \<subseteq> set rs" for ts
  proof -
    have "the (json_parse (record_text x)) = record_tree x" if "x \<in> set ts" for x
    proof -
      obtain rid ty v where x: "x = (rid, ty, v)" by (cases x)
      then have "nums_ok v" using assms(3) \<open>set ts \<subseteq> set rs\<close> \<open>x \<in> set ts\<close> by (fastforce simp: list_all_iff)
      then show ?thesis by (simp add: x record_parses)
    qed
    then show ?thesis by simp
  qed
  have "json_parse (batch_body b) = Some (batch_tree (f b))" if "b \<in> set (acked ev)" for b
  proof -
    have "list_all (\<lambda>(_, _, v). nums_ok v) (f b)" using f [OF that] assms(3) unfolding list_all_iff by blast
    from batch_parses [OF this] f [OF that] show ?thesis by simp
  qed
  then have "map (\<lambda>b. json_parse (batch_body b)) (acked ev) = map (\<lambda>ts. Some (batch_tree ts)) ?bs" by simp
  moreover have "mset (map record_tree (take k rs)) \<subseteq># mset (map record_tree (concat ?bs))"
  proof -
    have "map (map record_text) ?bs = acked ev" using f by (simp add: map_idI)
    then have "concat (acked ev) = map record_text (concat ?bs)" by (metis map_concat)
    moreover have "set (concat ?bs) \<subseteq> set rs" using f by auto
    ultimately have "map ?p (concat (acked ev)) = map record_tree (concat ?bs)" using p by metis
    moreover have "map ?p (take k ?q) = map record_tree (take k rs)"
      using p [of "take k rs"] by (simp add: assms(2) take_map set_take_subset)
    ultimately show ?thesis using image_mset_subseteq_mono [OF k(2), of ?p] by (metis mset_map)
  qed
  moreover have "queue sp' = map record_text (drop k rs)" using k(1) assms(2) by (simp add: drop_map)
  ultimately show ?thesis by blast
qed

definition demo_record :: telemetry where
  "demo_record = (''h-1'', ''synthetic'', JObj [(''n'', JNum ''0'')])"

theorem far_end_reads_records_witness:
  "\<exists>d sp' ev bs. drain demo_drain_env 9 (demo_reporter (one_segment \<lparr>max_bytes = 100, segment_bytes = 50\<rparr> [record_text demo_record]))
       = Some (d, sp', ev) \<and> map (\<lambda>b. json_parse (batch_body b)) (acked ev) = map (\<lambda>ts. Some (batch_tree ts)) bs"
proof -
  let ?r = "demo_reporter (one_segment \<lparr>max_bytes = 100, segment_bytes = 50\<rparr> [record_text demo_record])"
  have fits: "list_all fits [record_text demo_record]" "list_all (\<lambda>(_, _, v). nums_ok v) [demo_record]"
    by (simp_all add: record_text_def demo_record_def make_record_def json_escape_def escape_char_def key_text_def quoted_def
        nl_def closing_def num_text_def num_int_def num_frac_def num_exp_def is_digit_def num_char_def)
  have sp: "spool_ok (rp_spool ?r)" "queue (rp_spool ?r) = map record_text [demo_record]"
    using one_segment_ok [OF _ _ fits(1)] by (simp_all add: demo_reporter_def)
  have "\<exists>d sp' ev. drain demo_drain_env 9 ?r = Some (d, sp', ev)"
    unfolding drain_def
    by (rule spool_outbox.drain_returns)
      (use one_segment_last [OF _ _ fits(1)] sp(2) in \<open>simp_all add: demo_drain_env_def demo_reporter_def\<close>)
  then obtain d sp' ev where d: "drain demo_drain_env 9 ?r = Some (d, sp', ev)" by blast
  from far_end_reads_records [OF sp fits(2) d] d show ?thesis by blast
qed

end
