(* ===== verification/Platform_Linux.thy ===== *)
theory Platform_Linux
  imports Cve_Match CInt "HOL-Library.List_Lexorder"
begin

unbundle bit_operations_syntax

text \<open>
  The Linux collectors of \<^verbatim>\<open>src/src/platform/platform_linux.cpp\<close>: host identity, interfaces,
  listening sockets with their owning processes, processes and packages. What the kernel and the
  C library answer (file contents, directory entries, links, the interface list, user names, the
  output of the package query, \<^verbatim>\<open>inet_ntop\<close>, \<^verbatim>\<open>std::sort\<close>) is an argument, read as one snapshot
  per collector.
\<close>

section \<open>Text helpers\<close>

definition strip_quotes :: "string \<Rightarrow> string" where
  "strip_quotes s = (if 2 \<le> length s \<and> hd s = CHR 0x22 \<and> last s = CHR 0x22 then take (length s - 2) (tl s) else s)"

definition read_file :: "(string \<Rightarrow> string option) \<Rightarrow> string \<Rightarrow> string" where
  "read_file files p = (case files p of None \<Rightarrow> [] | Some txt \<Rightarrow> txt)"

definition linux_trim :: "string \<Rightarrow> string" where
  "linux_trim s =
     rev (dropWhile (\<lambda>c. c \<in> set ('' '' @ [TAB, CHR 0x0D, NL])) (rev (dropWhile (\<lambda>c. c \<in> set ('' '' @ [TAB, CHR 0x0D, NL])) s)))"

definition is_number :: "string \<Rightarrow> bool" where
  "is_number s \<longleftrightarrow> s \<noteq> [] \<and> list_all is_digit s"

text \<open>A C string: what stands before the first null byte.\<close>

definition c_str :: "string \<Rightarrow> string" where
  "c_str s = takeWhile (\<lambda>c. c \<noteq> CHR 0x00) s"

definition os_release_line :: "string \<Rightarrow> string \<times> string \<Rightarrow> string \<times> string" where
  "os_release_line line nv =
     (case find_char (CHR ''='') line of
        None \<Rightarrow> nv
      | Some eq \<Rightarrow>
          let k = take eq line; val = strip_quotes (linux_trim (drop (eq + 1) line))
          in if k = ''NAME'' then (val, snd nv) else if k = ''VERSION_ID'' then (fst nv, val) else nv)"

text \<open>Success, name and version; the latter start as given.\<close>

definition read_os_release :: "string option \<Rightarrow> string \<times> string \<Rightarrow> bool \<times> string \<times> string" where
  "read_os_release file nv =
     (case file of
        None \<Rightarrow> (False, nv)
      | Some txt \<Rightarrow> let nv = fold os_release_line (getline_all NL txt) nv in (fst nv \<noteq> [], nv))"

section \<open>Socket tables\<close>

definition strtol16 :: "string \<Rightarrow> int" where
  "strtol16 s =
     (let (neg, u) = split_sign (dropWhile is_space s);
          u = (if starts_with_ci ''0x'' u \<and> takeWhile is_hex (drop 2 u) \<noteq> [] then drop 2 u else u);
          v = int (based_val 16 (takeWhile is_hex u))
      in if neg then max (- v) (- (2 ^ 63)) else min v (2 ^ 63 - 1))"

text \<open>The bytes of a word in memory on a little-endian machine.\<close>

definition memory_bytes :: "32 word \<Rightarrow> 8 word list" where
  "memory_bytes v = map (\<lambda>i. ucast (drop_bit (8 * i) v)) [0..<4]"

datatype family = Inet | Inet6

type_synonym ntop = "family \<Rightarrow> 8 word list \<Rightarrow> string option"

definition hex_word :: "string \<Rightarrow> 32 word" where
  "hex_word s = of_nat (strtoul16 s)"

definition parse_hex_addr :: "ntop \<Rightarrow> string \<Rightarrow> string option" where
  "parse_hex_addr inet_ntop hex =
     (if length hex = 8 then inet_ntop Inet (memory_bytes (hex_word hex))
      else if length hex = 32
      then inet_ntop Inet6 (concat (map (\<lambda>i. memory_bytes (hex_word (take 8 (drop (i * 8) hex)))) [0..<4]))
      else None)"

definition is_wildcard :: "string \<Rightarrow> bool" where
  "is_wildcard addr \<longleftrightarrow> addr = ''0.0.0.0'' \<or> addr = ''::''"

definition kTcpListen :: int where
  "kTcpListen = 0x0A"

record raw_socket =
  rs_proto :: string
  rs_addr :: string
  rs_port :: "16 word"
  rs_inode :: nat

definition parse_proc_line :: "ntop \<Rightarrow> string \<Rightarrow> bool \<Rightarrow> string \<Rightarrow> raw_socket list" where
  "parse_proc_line inet_ntop pr tcp_only_listen line =
     (case stream_words line of
        sl # local # remote # st # txrx # uid # timeout # inode # _ \<Rightarrow>
          if tcp_only_listen \<and> strtol16 st \<noteq> kTcpListen then []
          else
            (case rfind_char (CHR '':'') local of
               None \<Rightarrow> []
             | Some colon \<Rightarrow>
                 (case parse_hex_addr inet_ntop (take colon local) of
                    None \<Rightarrow> []
                  | Some a \<Rightarrow>
                      [\<lparr>rs_proto = pr, rs_addr = a, rs_port = of_nat (strtoul16 (drop (colon + 1) local)),
                        rs_inode = strtoull inode\<rparr>]))
      | _ \<Rightarrow> [])"

definition parse_proc_net :: "ntop \<Rightarrow> string option \<Rightarrow> string \<Rightarrow> bool \<Rightarrow> raw_socket list \<Rightarrow> bool \<times> raw_socket list" where
  "parse_proc_net inet_ntop file pr tcp_only_listen raw =
     (case file of
        None \<Rightarrow> (False, raw)
      | Some txt \<Rightarrow>
          (True, raw @ concat (map (parse_proc_line inet_ntop pr tcp_only_listen) (drop 1 (getline_all NL txt)))))"

text \<open>
  The descriptor directory of a process: refused, gone, or its entries with their link targets.
\<close>

datatype fd_dir = Fd_denied | Fd_gone | Fds "(string \<times> string option) list"

definition add_fd :: "string \<Rightarrow> string \<times> string option \<Rightarrow> (nat \<times> 64 word) list \<Rightarrow> (nat \<times> 64 word) list" where
  "add_fd pid_s fd m =
     (if starts_with ''.'' (fst fd) then m
      else
        case snd fd of
          None \<Rightarrow> m
        | Some link \<Rightarrow>
            let target = c_str (take 127 link) in
            if \<not> starts_with ''socket:['' target then m
            else let inode = strtoull (drop 8 target)
                 in if inode \<noteq> 0 \<and> map_of m inode = None then (inode, word_of_int (strtoll pid_s)) # m else m)"

definition add_process_fds :: "string \<times> fd_dir \<Rightarrow> (nat \<times> 64 word) list \<times> nat \<Rightarrow> (nat \<times> 64 word) list \<times> nat" where
  "add_process_fds p md =
     (if \<not> is_number (fst p) then md
      else
        case snd p of
          Fd_denied \<Rightarrow> (fst md, snd md + 1)
        | Fd_gone \<Rightarrow> md
        | Fds fds \<Rightarrow> (fold (add_fd (fst p)) fds (fst md), snd md))"

text \<open>The map from inodes to processes and the number of processes that refused.\<close>

definition build_inode_to_pid :: "(string \<times> fd_dir) list option \<Rightarrow> (nat \<times> 64 word) list \<times> nat" where
  "build_inode_to_pid dir = (case dir of None \<Rightarrow> ([], 0) | Some ps \<Rightarrow> fold add_process_fds ps ([], 0))"

definition process_comm :: "(string \<Rightarrow> string option) \<Rightarrow> 64 word \<Rightarrow> string" where
  "process_comm files p = linux_trim (read_file files (''/proc/'' @ show_int (sint p) @ ''/comm''))"

section \<open>Collectors\<close>

definition good_status :: status where
  "good_status = \<lparr>implemented = True, st_warnings = []\<rparr>"

definition warn :: "string \<Rightarrow> status \<Rightarrow> status" where
  "warn w st = st\<lparr>st_warnings := st_warnings st @ [w]\<rparr>"

text \<open>The answers of \<^verbatim>\<open>gethostname\<close> (the buffer) and \<^verbatim>\<open>uname\<close> (release and machine), or the error text.\<close>

definition linux_host ::
  "string + string \<Rightarrow> (string \<Rightarrow> string option) \<Rightarrow> string + string \<times> string \<Rightarrow> host_info \<times> status" where
  "linux_host gethostname files uname =
     (let h = empty_host; st = good_status;
          (h, st) = (case gethostname of
              Inr buf \<Rightarrow> (h\<lparr>hostname := c_str (take 255 buf)\<rparr>, st)
            | Inl e \<Rightarrow> (h, warn (''gethostname failed: '' @ e) st));
          (found, nm, ver) = read_os_release (files ''/etc/os-release'') (os_name h, os_version h);
          h = h\<lparr>os_name := nm, os_version := ver\<rparr>;
          st = (if \<not> found then warn ''/etc/os-release unreadable or had no NAME'' st else st)
      in case uname of
           Inr (release, machine) \<Rightarrow> (h\<lparr>kernel := release, arch := machine\<rparr>, st)
         | Inl e \<Rightarrow> (h, warn (''uname failed: '' @ e) st))"

subsection \<open>Interfaces\<close>

datatype sockaddr = Sa_inet "8 word list" | Sa_inet6 "8 word list" | Sa_packet nat "8 word list" | Sa_other

record ifaddr =
  ifa_name :: "string option"
  ifa_flags :: "32 word"
  ifa_addr :: "sockaddr option"
  ifa_netmask :: "8 word list option"

definition ntohl :: "8 word list \<Rightarrow> 32 word" where
  "ntohl bs = foldl (\<lambda>v b. push_bit 8 v OR ucast b) 0 bs"

function prefix_v4 :: "32 word \<Rightarrow> nat \<Rightarrow> nat" where
  "prefix_v4 m p = (if p < 32 \<and> m AND drop_bit p 0x80000000 \<noteq> 0 then prefix_v4 m (p + 1) else p)"
  by pat_completeness auto
termination
  by (relation "measure (\<lambda>(m, p). 32 - p)") auto

declare prefix_v4.simps [simp del]

text \<open>The set bits of a byte from bit \<open>b\<close> down, and whether a clear one was met.\<close>

fun prefix_byte :: "8 word \<Rightarrow> nat \<Rightarrow> nat \<times> bool" where
  "prefix_byte m 0 = (0, False)"
| "prefix_byte m (Suc b) =
     (if m AND push_bit b 1 \<noteq> 0 then (let (n, stop) = prefix_byte m b in (Suc n, stop)) else (0, True))"

fun prefix_v6 :: "8 word list \<Rightarrow> nat" where
  "prefix_v6 [] = 0"
| "prefix_v6 (m # ms) = (let (n, stop) = prefix_byte m 8 in if stop then n else n + prefix_v6 ms)"

definition hex2 :: "8 word \<Rightarrow> string" where
  "hex2 b = [kHex ! unat (drop_bit 4 b), kHex ! unat (b AND 0xF)]"

definition mac_text :: "8 word list \<Rightarrow> string" where
  "mac_text bs = (case map hex2 (take 6 bs) of [] \<Rightarrow> [] | x # xs \<Rightarrow> x @ concat (map (\<lambda>y. CHR '':'' # y) xs))"

definition empty_interface :: net_interface where
  "empty_interface = \<lparr>if_name = [], mac = [], addresses = [], up = False, loopback = False\<rparr>"

type_synonym slots = "(string \<times> nat) list \<times> net_interface list"

definition slot :: "string \<Rightarrow> slots \<Rightarrow> nat \<times> slots" where
  "slot ifname s =
     (case s of (ix, ifs) \<Rightarrow>
        case map_of ix ifname of
          Some k \<Rightarrow> (k, s)
        | None \<Rightarrow> (length ifs, (ifname, length ifs) # ix, ifs @ [empty_interface\<lparr>if_name := ifname\<rparr>]))"

definition add_address :: "ntop \<Rightarrow> family \<Rightarrow> 8 word list \<Rightarrow> nat \<Rightarrow> net_interface \<Rightarrow> net_interface" where
  "add_address inet_ntop fam src pfx ni =
     (case inet_ntop fam src of
        None \<Rightarrow> ni
      | Some buf \<Rightarrow> ni\<lparr>addresses := addresses ni @ [buf @ ''/'' @ show_nat pfx]\<rparr>)"

definition node_address :: "ntop \<Rightarrow> ifaddr \<Rightarrow> net_interface \<Rightarrow> net_interface" where
  "node_address inet_ntop n ni =
     (case ifa_addr n of
        None \<Rightarrow> ni
      | Some (Sa_inet a) \<Rightarrow>
          add_address inet_ntop Inet a (case ifa_netmask n of None \<Rightarrow> 0 | Some m \<Rightarrow> prefix_v4 (ntohl m) 0) ni
      | Some (Sa_inet6 a) \<Rightarrow>
          add_address inet_ntop Inet6 a (case ifa_netmask n of None \<Rightarrow> 0 | Some m \<Rightarrow> prefix_v6 (take 16 m)) ni
      | Some (Sa_packet halen a) \<Rightarrow> if halen = 6 then ni\<lparr>mac := mac_text a\<rparr> else ni
      | Some Sa_other \<Rightarrow> ni)"

definition add_node :: "ntop \<Rightarrow> ifaddr \<Rightarrow> slots \<Rightarrow> slots" where
  "add_node inet_ntop n s =
     (case ifa_name n of
        None \<Rightarrow> s
      | Some nm \<Rightarrow>
          let (k, ix, ifs) = slot nm s;
              ni = (ifs ! k)\<lparr>up := ifa_flags n AND 0x1 \<noteq> 0, loopback := ifa_flags n AND 0x8 \<noteq> 0\<rparr>
          in (ix, ifs[k := node_address inet_ntop n ni]))"

definition linux_interfaces :: "ntop \<Rightarrow> string + ifaddr list \<Rightarrow> net_interface list \<times> status" where
  "linux_interfaces inet_ntop getifaddrs =
     (case getifaddrs of
        Inl e \<Rightarrow> ([], warn (''getifaddrs failed: '' @ e) good_status)
      | Inr nodes \<Rightarrow> (snd (fold (add_node inet_ntop) nodes ([], [])), good_status))"

subsection \<open>Sockets\<close>

definition tables :: "(string \<times> string \<times> bool) list" where
  "tables = [(''/proc/net/tcp'', ''tcp'', True), (''/proc/net/tcp6'', ''tcp6'', True),
     (''/proc/net/udp'', ''udp'', False), (''/proc/net/udp6'', ''udp6'', False)]"

definition read_table ::
  "ntop \<Rightarrow> (string \<Rightarrow> string option) \<Rightarrow> string \<times> string \<times> bool \<Rightarrow> raw_socket list \<times> status \<Rightarrow> raw_socket list \<times> status" where
  "read_table inet_ntop files t rst =
     (case t of (p, pr, listen_only) \<Rightarrow>
        let (readable, raw) = parse_proc_net inet_ntop (files p) pr listen_only (fst rst)
        in (raw, if readable then snd rst else warn (''could not read '' @ p) (snd rst)))"

definition own_socket :: "(string \<Rightarrow> string option) \<Rightarrow> (nat \<times> 64 word) list \<Rightarrow> raw_socket \<Rightarrow> listening_socket" where
  "own_socket files inode_to_pid r =
     (let s = \<lparr>proto = rs_proto r, local_addr = rs_addr r, local_port = rs_port r, sock_pid = -1,
               process_name = [], world_reachable = is_wildcard (rs_addr r)\<rparr>
      in case map_of inode_to_pid (rs_inode r) of
           None \<Rightarrow> s
         | Some p \<Rightarrow> s\<lparr>sock_pid := p, process_name := process_comm files p\<rparr>)"

definition socket_before :: "listening_socket \<Rightarrow> listening_socket \<Rightarrow> bool" where
  "socket_before a b \<longleftrightarrow>
     (if proto a \<noteq> proto b then map byte (proto a) < map byte (proto b) else local_port a < local_port b)"

definition denied_text :: "nat \<Rightarrow> string" where
  "denied_text n = show_nat n @
     '' processes denied fd enumeration (run as root to resolve every socket to its owning process)''"

definition linux_listening_sockets ::
  "ntop \<Rightarrow> (string \<Rightarrow> string option) \<Rightarrow> (string \<times> fd_dir) list option \<Rightarrow>
     ((listening_socket \<Rightarrow> listening_socket \<Rightarrow> bool) \<Rightarrow> listening_socket list \<Rightarrow> listening_socket list) \<Rightarrow>
     listening_socket list \<times> status" where
  "linux_listening_sockets inet_ntop files dir sort_by =
     (let (raw, st) = fold (read_table inet_ntop files) tables ([], good_status);
          (inode_to_pid, denied) = build_inode_to_pid dir;
          st = (if 0 < denied then warn (denied_text denied) st else st)
      in (sort_by socket_before (map (own_socket files inode_to_pid) raw), st))"

subsection \<open>Processes\<close>

text \<open>The parent in \<^verbatim>\<open>/proc/<pid>/stat\<close>: the second word after the last closing parenthesis.\<close>

definition stat_ppid :: "string \<Rightarrow> 64 word" where
  "stat_ppid stat =
     (case rfind_char (CHR '')'') stat of
        None \<Rightarrow> -1
      | Some k \<Rightarrow>
          if k + 2 < length stat
          then (case stream_words (drop (k + 2) stat) of _ # pp # _ \<Rightarrow> word_of_int (strtoll pp) | _ \<Rightarrow> -1)
          else -1)"

text \<open>\<^verbatim>\<open>operator>>\<close> into a 32-bit unsigned integer.\<close>

definition extract_u32 :: "string \<Rightarrow> nat option" where
  "extract_u32 s =
     (let (neg, u) = split_sign (dropWhile is_space s); ds = takeWhile is_digit u; n = dec_val ds
      in if ds = [] \<or> 2 ^ 32 \<le> n then None else Some (if neg then (2 ^ 32 - n) mod 2 ^ 32 else n))"

fun status_user :: "(nat \<Rightarrow> string option) \<Rightarrow> string list \<Rightarrow> string" where
  "status_user getpwuid [] = []"
| "status_user getpwuid (line # ls) =
     (if \<not> starts_with ''Uid:'' line then status_user getpwuid ls
      else
        case extract_u32 (drop 4 line) of
          None \<Rightarrow> []
        | Some uid \<Rightarrow> (case getpwuid uid of Some pw \<Rightarrow> pw | None \<Rightarrow> show_nat uid))"

record proc_env =
  pe_files :: "string \<Rightarrow> string option"
  pe_exe :: "string \<Rightarrow> string option"
  pe_getpwuid :: "nat \<Rightarrow> string option"

definition read_process :: "proc_env \<Rightarrow> string \<Rightarrow> process_info" where
  "read_process e pid_s =
     (let p = word_of_int (strtoll pid_s) in
      \<lparr>pid = p, ppid = stat_ppid (read_file (pe_files e) (''/proc/'' @ pid_s @ ''/stat'')),
       proc_name = process_comm (pe_files e) p,
       exe_path = (case pe_exe e (''/proc/'' @ pid_s @ ''/exe'') of None \<Rightarrow> [] | Some l \<Rightarrow> c_str (take 4095 l)),
       user = (case pe_files e (''/proc/'' @ pid_s @ ''/status'') of
                 None \<Rightarrow> [] | Some txt \<Rightarrow> status_user (pe_getpwuid e) (getline_all NL txt))\<rparr>)"

definition no_exe_link :: "proc_env \<Rightarrow> string \<Rightarrow> bool" where
  "no_exe_link e pid_s \<longleftrightarrow> (case pe_exe e (''/proc/'' @ pid_s @ ''/exe'') of None \<Rightarrow> True | Some l \<Rightarrow> l = [])"

definition add_process :: "proc_env \<Rightarrow> string \<Rightarrow> process_info list \<times> nat \<Rightarrow> process_info list \<times> nat" where
  "add_process e pid_s pn =
     (if \<not> is_number pid_s then pn
      else let p = read_process e pid_s
           in (if proc_name p \<noteq> [] then fst pn @ [p] else fst pn, if no_exe_link e pid_s then snd pn + 1 else snd pn))"

definition no_exe_text :: "nat \<Rightarrow> nat \<Rightarrow> string" where
  "no_exe_text n m = show_nat n @ '' of '' @ show_nat m @
     '' processes had no readable exe link (kernel threads, or run as root for full coverage)''"

definition linux_processes :: "proc_env \<Rightarrow> string + string list \<Rightarrow> process_info list \<times> status" where
  "linux_processes e dir =
     (case dir of
        Inl err \<Rightarrow> ([], warn (''opendir(/proc) failed: '' @ err) good_status)
      | Inr names \<Rightarrow>
          let (ps, no_exe) = fold (add_process e) names ([], 0)
          in (ps, if 0 < no_exe then warn (no_exe_text no_exe (length ps + no_exe)) good_status else good_status))"

subsection \<open>Packages\<close>

text \<open>\<^verbatim>\<open>fgets\<close> with a buffer of \<open>n + 1\<close> bytes, until the end of the output.\<close>

definition fgets_len :: "nat \<Rightarrow> string \<Rightarrow> nat" where
  "fgets_len n s = min n (case find_char NL s of None \<Rightarrow> length s | Some k \<Rightarrow> k + 1)"

function fgets_all :: "nat \<Rightarrow> string \<Rightarrow> string list" where
  "fgets_all n s = (if s = [] \<or> n = 0 then [] else take (fgets_len n s) s # fgets_all n (drop (fgets_len n s) s))"
  by pat_completeness auto
termination
  by (relation "measure (\<lambda>(n, s). length s)") (auto simp: fgets_len_def split: option.splits)

declare fgets_all.simps [simp del]

text \<open>One \<^verbatim>\<open>std::getline\<close>: the field and what is left of the stream.\<close>

definition getline1 :: "char \<Rightarrow> string \<Rightarrow> string \<times> string" where
  "getline1 c s = (takeWhile (\<lambda>x. x \<noteq> c) s, tl (dropWhile (\<lambda>x. x \<noteq> c) s))"

definition package_of_line :: "string \<Rightarrow> string \<Rightarrow> package list" where
  "package_of_line src line =
     (let (st, r) = getline1 TAB (c_str line);
          (pkg, r) = getline1 TAB r;
          (ver, r) = getline1 TAB r;
          (vend, _) = getline1 NL r
      in if linux_trim st \<noteq> ''installed'' \<or> pkg = [] then []
         else [\<lparr>pkg_name = linux_trim pkg, pkg_version = linux_trim ver, pkg_vendor = linux_trim vend, pkg_source = src\<rparr>])"

text \<open>Which databases are present, and the query's output with its exit status or an error text.\<close>

definition linux_packages ::
  "bool \<Rightarrow> bool \<Rightarrow> string + string \<times> int \<Rightarrow> ((package \<Rightarrow> package \<Rightarrow> bool) \<Rightarrow> package list \<Rightarrow> package list) \<Rightarrow>
     package list \<times> status" where
  "linux_packages have_dpkg have_rpm popen sort_by =
     (if \<not> have_dpkg \<and> \<not> have_rpm
      then ([], warn ''no dpkg or rpm database found; installed software not collected'' (good_status\<lparr>implemented := False\<rparr>))
      else
        let src = (if have_dpkg then ''dpkg'' else ''rpm'') in
        case popen of
          Inl e \<Rightarrow> ([], warn (''popen failed for '' @ src @ '': '' @ e) good_status)
        | Inr (txt, rc) \<Rightarrow>
            let ps = concat (map (package_of_line src) (fgets_all 4095 txt));
                st = (if rc \<noteq> 0 then warn (src @ '' query exited with status '' @ show_int rc) good_status else good_status);
                st = (if ps = [] then warn ''package query returned nothing'' st else st)
            in (sort_by (\<lambda>a b. map byte (pkg_name a) < map byte (pkg_name b)) ps, st))"

section \<open>The backend\<close>

record linux =
  lx_gethostname :: "string + string"
  lx_uname :: "string + string \<times> string"
  lx_ntop :: ntop
  lx_getifaddrs :: "string + ifaddr list"
  lx_proc :: proc_env
  lx_proc_dir :: "string + (string \<times> fd_dir) list"
  lx_have_dpkg :: bool
  lx_have_rpm :: bool
  lx_popen :: "string + string \<times> int"
  lx_sort_sockets :: "(listening_socket \<Rightarrow> listening_socket \<Rightarrow> bool) \<Rightarrow> listening_socket list \<Rightarrow> listening_socket list"
  lx_sort_packages :: "(package \<Rightarrow> package \<Rightarrow> bool) \<Rightarrow> package list \<Rightarrow> package list"
  lx_unix_ms :: "64 word"
  lx_elapsed_ms :: "64 word"

definition linux_platform :: "linux \<Rightarrow> platform" where
  "linux_platform k =
     \<lparr>platform_name = ''linux'',
      collect_host = linux_host (lx_gethostname k) (pe_files (lx_proc k)) (lx_uname k),
      collect_interfaces = linux_interfaces (lx_ntop k) (lx_getifaddrs k),
      collect_listening_sockets = linux_listening_sockets (lx_ntop k) (pe_files (lx_proc k))
        (case lx_proc_dir k of Inl _ \<Rightarrow> None | Inr ps \<Rightarrow> Some ps) (lx_sort_sockets k),
      collect_processes = linux_processes (lx_proc k)
        (case lx_proc_dir k of Inl e \<Rightarrow> Inl e | Inr ps \<Rightarrow> Inr (map fst ps)),
      collect_packages = linux_packages (lx_have_dpkg k) (lx_have_rpm k) (lx_popen k) (lx_sort_packages k),
      clock_unix_ms = lx_unix_ms k, clock_elapsed_ms = lx_elapsed_ms k\<rparr>"

end
