(* ===== verification/Linux_Interfaces.thy ===== *)
theory Linux_Interfaces
  imports Platform_Linux
begin

text \<open>
  Merging the system's address list into interfaces: prefix lengths of netmasks, and the invariant
  of the slots while nodes are added.
\<close>

section \<open>Interfaces\<close>

text \<open>A netmask of \<open>p\<close> leading ones in \<open>k\<close> bytes.\<close>

definition mask_byte :: "nat \<Rightarrow> 8 word" where
  "mask_byte j = (if 8 \<le> j then 0xFF else if j = 0 then 0 else NOT (mask (8 - j)))"

definition netmask :: "nat \<Rightarrow> nat \<Rightarrow> 8 word list" where
  "netmask k p = map (\<lambda>i. mask_byte (p - 8 * i)) [0..<k]"

lemma prefix_v4_netmask: "p \<le> 32 \<Longrightarrow> prefix_v4 (ntohl (netmask 4 p)) 0 = p"
proof -
  have "\<forall>p \<in> set [0..<33]. prefix_v4 (ntohl (netmask 4 p)) 0 = p" by code_simp
  then show "p \<le> 32 \<Longrightarrow> prefix_v4 (ntohl (netmask 4 p)) 0 = p" by simp
qed

lemma prefix_byte_mask:
  "prefix_byte (mask_byte j) 8 = (if 8 \<le> j then (8, False) else (j, True))"
proof -
  have "\<forall>j \<in> set [0..<8]. prefix_byte (mask_byte j) 8 = (j, True)" by code_simp
  moreover have "prefix_byte 0xFF 8 = (8, False)" by code_simp
  ultimately show ?thesis by (cases "8 \<le> j") (simp_all add: mask_byte_def)
qed

lemma prefix_v6_netmask: "p \<le> 8 * k \<Longrightarrow> prefix_v6 (netmask k p) = p"
proof (induction k arbitrary: p)
  case (Suc k)
  have "netmask (Suc k) p = mask_byte p # netmask k (p - 8)"
    by (simp add: netmask_def upt_conv_Cons map_Suc_upt [symmetric] del: upt_Suc)
  with Suc show ?case by (simp add: prefix_byte_mask)
qed (simp add: netmask_def)

text \<open>What the list of one interface's nodes says about it: its addresses with prefix length, and the last flags.\<close>

fun node_text :: "ntop \<Rightarrow> ifaddr \<Rightarrow> string list" where
  "node_text inet_ntop n =
     (case ifa_addr n of
        Some (Sa_inet a) \<Rightarrow>
          (case inet_ntop Inet a of None \<Rightarrow> []
           | Some t \<Rightarrow> [t @ ''/'' @ show_nat (case ifa_netmask n of None \<Rightarrow> 0 | Some m \<Rightarrow> prefix_v4 (ntohl m) 0)])
      | Some (Sa_inet6 a) \<Rightarrow>
          (case inet_ntop Inet6 a of None \<Rightarrow> []
           | Some t \<Rightarrow> [t @ ''/'' @ show_nat (case ifa_netmask n of None \<Rightarrow> 0 | Some m \<Rightarrow> prefix_v6 (take 16 m))])
      | _ \<Rightarrow> [])"

definition nodes_of :: "string \<Rightarrow> ifaddr list \<Rightarrow> ifaddr list" where
  "nodes_of nm ns = filter (\<lambda>n. ifa_name n = Some nm) ns"

definition merged :: "ntop \<Rightarrow> ifaddr list \<Rightarrow> net_interface \<Rightarrow> bool" where
  "merged inet_ntop ns i \<longleftrightarrow>
     nodes_of (if_name i) ns \<noteq> [] \<and>
     addresses i = concat (map (node_text inet_ntop) (nodes_of (if_name i) ns)) \<and>
     up i = (ifa_flags (last (nodes_of (if_name i) ns)) AND 0x1 \<noteq> 0) \<and>
     loopback i = (ifa_flags (last (nodes_of (if_name i) ns)) AND 0x8 \<noteq> 0)"

definition slots_ok :: "ntop \<Rightarrow> ifaddr list \<Rightarrow> slots \<Rightarrow> bool" where
  "slots_ok inet_ntop ns s \<longleftrightarrow>
     (\<forall>nm k. map_of (fst s) nm = Some k \<longleftrightarrow> k < length (snd s) \<and> if_name (snd s ! k) = nm) \<and>
     (\<forall>n \<in> set ns. \<forall>nm. ifa_name n = Some nm \<longrightarrow> nm \<in> if_name ` set (snd s)) \<and>
     list_all (merged inet_ntop ns) (snd s)"

lemma node_address_frame [simp]:
  "if_name (node_address inet_ntop n ni) = if_name ni" "up (node_address inet_ntop n ni) = up ni"
  "loopback (node_address inet_ntop n ni) = loopback ni"
  "addresses (node_address inet_ntop n ni) = addresses ni @ node_text inet_ntop n"
  by (auto simp: node_address_def add_address_def split: option.split sockaddr.split)

lemma nodes_of_snoc: "nodes_of nm (ns @ [n]) = nodes_of nm ns @ (if ifa_name n = Some nm then [n] else [])"
  by (simp add: nodes_of_def)

lemma merged_other: "merged f ns i \<Longrightarrow> ifa_name n \<noteq> Some (if_name i) \<Longrightarrow> merged f (ns @ [n]) i"
  by (simp add: merged_def nodes_of_snoc)

lemma slots_ok_add_node:
  assumes "slots_ok inet_ntop ns s"
  shows "slots_ok inet_ntop (ns @ [n]) (add_node inet_ntop n s)"
proof (cases "ifa_name n")
  case None
  then show ?thesis using assms
    by (auto simp: add_node_def slots_ok_def list_all_iff intro: merged_other)
next
  case (Some nm)
  obtain ix ifs where s: "s = (ix, ifs)" by (cases s)
  have ix: "map_of ix a = Some k \<longleftrightarrow> k < length ifs \<and> if_name (ifs ! k) = a" for a k
    using assms by (simp add: slots_ok_def s)
  have names: "m \<in> set ns \<Longrightarrow> ifa_name m = Some a \<Longrightarrow> a \<in> if_name ` set ifs" for m a
    using assms by (auto simp: slots_ok_def s)
  have mg: "k < length ifs \<Longrightarrow> merged inet_ntop ns (ifs ! k)" for k
    using assms by (simp add: slots_ok_def s list_all_length)
  let ?new = "\<lambda>i. node_address inet_ntop n (i\<lparr>up := ifa_flags n AND 0x1 \<noteq> 0, loopback := ifa_flags n AND 0x8 \<noteq> 0\<rparr>)"
  have old: "merged inet_ntop (ns @ [n]) i" if "i \<in> set ifs" "if_name i \<noteq> nm" for i
    using merged_other [of inet_ntop ns i n] mg that Some by (auto simp: in_set_conv_nth)
  show ?thesis
  proof (cases "map_of ix nm")
    case None
    then have "if_name (ifs ! k) \<noteq> nm" if "k < length ifs" for k using ix [of nm k] that by simp
    then have fresh: "nm \<notin> if_name ` set ifs" by (metis imageE in_set_conv_nth)
    then have empty: "nodes_of nm ns = []" using names [of _ nm] by (auto simp: nodes_of_def filter_empty_conv)
    let ?i = "?new (empty_interface\<lparr>if_name := nm\<rparr>)"
    have eq: "add_node inet_ntop n s = ((nm, length ifs) # ix, ifs @ [?i])"
      using None Some by (simp add: add_node_def slot_def s)
    have "merged inet_ntop (ns @ [n]) ?i"
      using empty Some by (simp add: merged_def nodes_of_snoc empty_interface_def)
    moreover have "map_of ((nm, length ifs) # ix) a = Some k \<longleftrightarrow>
        k < length (ifs @ [?i]) \<and> if_name ((ifs @ [?i]) ! k) = a" for a k
      using ix [of a k] fresh None by (auto simp: nth_append less_Suc_eq)
    ultimately show ?thesis
      unfolding slots_ok_def eq using old fresh Some names by (auto simp: list_all_iff)
  next
    case k: (Some k)
    then have kl: "k < length ifs" "if_name (ifs ! k) = nm" using ix by auto
    have uniq: "j = k" if "j < length ifs" "if_name (ifs ! j) = nm" for j using ix [of nm j] k that by simp
    let ?i = "?new (ifs ! k)"
    have eq: "add_node inet_ntop n s = (ix, ifs[k := ?i])"
      using k Some by (simp add: add_node_def slot_def s)
    have nms: "map if_name (ifs[k := ?i]) = map if_name ifs"
      using kl by (simp add: map_update list_update_same_conv)
    have "merged inet_ntop (ns @ [n]) ?i"
      using mg [OF kl(1)] kl(2) Some by (simp add: merged_def nodes_of_snoc)
    moreover have "i \<in> set ifs \<and> if_name i \<noteq> nm" if i: "i \<in> set (ifs[k := ?i])" "i \<noteq> ?i" for i
    proof -
      obtain j where j: "j < length ifs" "i = ifs[k := ?i] ! j" using i(1) by (auto simp: in_set_conv_nth)
      with i(2) kl have "j \<noteq> k" by auto
      with j uniq show ?thesis by auto
    qed
    ultimately have "list_all (merged inet_ntop (ns @ [n])) (ifs[k := ?i])" using old by (auto simp: list_all_iff)
    moreover have "if_name (ifs[k := ?i] ! j) = if_name (ifs ! j)" for j
      using kl by (cases "j = k") simp_all
    moreover have "if_name ` set (ifs[k := ?i]) = if_name ` set ifs" using nms by (metis set_map)
    moreover have "nm \<in> if_name ` set ifs" using kl by force
    ultimately show ?thesis unfolding slots_ok_def eq using ix Some names by auto
  qed
qed

lemma slots_ok_fold: "slots_ok inet_ntop ns (fold (add_node inet_ntop) ns ([], []))"
proof (induction ns rule: rev_induct)
  case (snoc n ns)
  then show ?case using slots_ok_add_node by simp
qed (simp add: slots_ok_def)

lemma slots_ok_distinct: "slots_ok inet_ntop ns s \<Longrightarrow> distinct (map if_name (snd s))"
  unfolding slots_ok_def distinct_conv_nth by (metis length_map nth_map option.inject)

text \<open>
  The interface list by its meaning: an address with the length of its network prefix where a
  netmask is given, a link address, or neither.
\<close>

datatype node_addr = Addr4 "8 word list" "nat option" | Addr6 "8 word list" "nat option" | Link "8 word list" | No_addr

record net_node =
  nn_name :: string
  nn_flags :: "32 word"
  nn_addr :: node_addr

fun node_ok :: "node_addr \<Rightarrow> bool" where
  "node_ok (Addr4 a (Some p)) \<longleftrightarrow> p \<le> 32"
| "node_ok (Addr6 a (Some p)) \<longleftrightarrow> p \<le> 128"
| "node_ok _ \<longleftrightarrow> True"

definition node_ifaddr :: "net_node \<Rightarrow> ifaddr" where
  "node_ifaddr n =
     \<lparr>ifa_name = Some (nn_name n), ifa_flags = nn_flags n,
      ifa_addr = (case nn_addr n of Addr4 a _ \<Rightarrow> Some (Sa_inet a) | Addr6 a _ \<Rightarrow> Some (Sa_inet6 a)
        | Link a \<Rightarrow> Some (Sa_packet (length a) a) | No_addr \<Rightarrow> None),
      ifa_netmask = (case nn_addr n of Addr4 _ p \<Rightarrow> map_option (netmask 4) p | Addr6 _ p \<Rightarrow> map_option (netmask 16) p | _ \<Rightarrow> None)\<rparr>"

definition address_text :: "ntop \<Rightarrow> net_node \<Rightarrow> string list" where
  "address_text inet_ntop n =
     (case nn_addr n of
        Addr4 a p \<Rightarrow> (case inet_ntop Inet a of None \<Rightarrow> [] | Some t \<Rightarrow> [t @ ''/'' @ show_nat (case p of None \<Rightarrow> 0 | Some p \<Rightarrow> p)])
      | Addr6 a p \<Rightarrow> (case inet_ntop Inet6 a of None \<Rightarrow> [] | Some t \<Rightarrow> [t @ ''/'' @ show_nat (case p of None \<Rightarrow> 0 | Some p \<Rightarrow> p)])
      | _ \<Rightarrow> [])"

lemma node_text_ifaddr: "node_ok (nn_addr n) \<Longrightarrow> node_text inet_ntop (node_ifaddr n) = address_text inet_ntop n"
proof -
  have "take 16 (netmask 16 p) = netmask 16 p" for p by (simp add: netmask_def)
  then show "node_ok (nn_addr n) \<Longrightarrow> ?thesis"
    by (cases "nn_addr n")
      (auto simp: node_ifaddr_def address_text_def prefix_v4_netmask prefix_v6_netmask split: option.split)
qed

text \<open>
  C32: The interfaces reported are those the system lists, each once although the list has a
  node per address: an interface has the addresses of all its nodes in order, each with the prefix
  length of its netmask, and the flags of its last node.
\<close>

theorem interfaces_merged:
  assumes "\<And>n. n \<in> set ns \<Longrightarrow> node_ok (nn_addr n)"
    and "ifs = fst (linux_interfaces inet_ntop (Inr (map node_ifaddr ns)))"
  shows "distinct (map if_name ifs) \<and> if_name ` set ifs = nn_name ` set ns \<and>
    (\<forall>i \<in> set ifs. let own = filter (\<lambda>n. nn_name n = if_name i) ns in
       addresses i = concat (map (address_text inet_ntop) own) \<and>
       up i = (nn_flags (last own) AND 0x1 \<noteq> 0) \<and> loopback i = (nn_flags (last own) AND 0x8 \<noteq> 0))"
proof -
  let ?s = "fold (add_node inet_ntop) (map node_ifaddr ns) ([], [])"
  have ifs: "ifs = snd ?s" using assms(2) by (simp add: linux_interfaces_def)
  note ok = slots_ok_fold [of inet_ntop "map node_ifaddr ns"]
  have own: "nodes_of nm (map node_ifaddr ns) = map node_ifaddr (filter (\<lambda>n. nn_name n = nm) ns)" for nm
    by (induction ns) (simp_all add: nodes_of_def node_ifaddr_def)
  have mg: "merged inet_ntop (map node_ifaddr ns) i" if "i \<in> set ifs" for i
    using ok that by (simp add: slots_ok_def ifs list_all_iff)
  have "nn_name ` set ns \<subseteq> if_name ` set ifs" using ok by (auto simp: slots_ok_def ifs node_ifaddr_def)
  moreover have "if_name i \<in> nn_name ` set ns" if "i \<in> set ifs" for i
  proof -
    have "filter (\<lambda>n. nn_name n = if_name i) ns \<noteq> []" using mg [OF that] unfolding merged_def own by simp
    then show ?thesis by (force simp: filter_empty_conv)
  qed
  moreover have "addresses i = concat (map (address_text inet_ntop) (filter (\<lambda>n. nn_name n = if_name i) ns)) \<and>
      up i = (nn_flags (last (filter (\<lambda>n. nn_name n = if_name i) ns)) AND 0x1 \<noteq> 0) \<and>
      loopback i = (nn_flags (last (filter (\<lambda>n. nn_name n = if_name i) ns)) AND 0x8 \<noteq> 0)" if "i \<in> set ifs" for i
  proof -
    define F where "F = filter (\<lambda>n. nn_name n = if_name i) ns"
    note m = mg [OF that, unfolded merged_def own, folded F_def]
    then have "F \<noteq> []" by simp
    then have "ifa_flags (last (map node_ifaddr F)) = nn_flags (last F)" by (simp add: last_map node_ifaddr_def)
    moreover have "map (node_text inet_ntop) (map node_ifaddr F) = map (address_text inet_ntop) F"
      using node_text_ifaddr assms(1) by (auto simp: F_def simp del: node_text.simps)
    ultimately show ?thesis using m unfolding F_def [symmetric] by metis
  qed
  ultimately show ?thesis using slots_ok_distinct [OF ok] unfolding ifs by (auto simp: Let_def)
qed

definition demo_nodes :: "net_node list" where
  "demo_nodes =
     [\<lparr>nn_name = ''lo'', nn_flags = 9, nn_addr = Addr4 [127, 0, 0, 1] (Some 8)\<rparr>,
      \<lparr>nn_name = ''eth0'', nn_flags = 1, nn_addr = Link [1, 2, 3, 4, 5, 6]\<rparr>,
      \<lparr>nn_name = ''lo'', nn_flags = 9, nn_addr = Addr6 [0, 0] (Some 128)\<rparr>]"

theorem interfaces_merged_witness:
  "let ifs = fst (linux_interfaces (\<lambda>f bs. Some ''a'') (Inr (map node_ifaddr demo_nodes)))
   in distinct (map if_name ifs) \<and> if_name ` set ifs = {''lo'', ''eth0''}"
proof -
  have "node_ok (nn_addr n)" if "n \<in> set demo_nodes" for n using that by (auto simp: demo_nodes_def)
  moreover have "nn_name ` set demo_nodes = {''lo'', ''eth0''}" by (auto simp: demo_nodes_def)
  ultimately show ?thesis using interfaces_merged [of demo_nodes _ "\<lambda>f bs. Some ''a''", OF _ refl] by (simp add: Let_def)
qed

end
