(* ===== verification/Linux_Sockets.thy ===== *)
theory Linux_Sockets
  imports Platform_Linux
begin

text \<open>
  Reading the kernel's socket tables: rows in the documented format decode to their address and
  port, and what the collector of listening sockets reports for them.
\<close>

section \<open>The kernel's socket tables\<close>

text \<open>\<^verbatim>\<open>%0nX\<close>.\<close>

fun hex_digits :: "nat \<Rightarrow> nat \<Rightarrow> string" where
  "hex_digits 0 v = []"
| "hex_digits (Suc n) v = hex_digits n (v div 16) @ [''0123456789ABCDEF'' ! (v mod 16)]"

lemma hex_val_digit: "k < 16 \<Longrightarrow> hex_val (''0123456789ABCDEF'' ! k) = Some k"
proof -
  have "\<forall>k \<in> set [0..<16]. hex_val (''0123456789ABCDEF'' ! k) = Some k" by code_simp
  then show "k < 16 \<Longrightarrow> hex_val (''0123456789ABCDEF'' ! k) = Some k" by simp
qed

lemma based_val_snoc: "based_val b (s @ [c]) = based_val b s * b + the (hex_val c)"
  by (simp add: based_val_def)

lemma hex_digits_value: "based_val 16 (hex_digits n v) = v mod 16 ^ n"
proof (induction n arbitrary: v)
  case (Suc n)
  have "v mod 16 ^ Suc n = (v div 16 mod 16 ^ n) * 16 + v mod 16"
    by (simp add: mod_mult2_eq mult.commute)
  then show ?case by (simp add: based_val_snoc Suc hex_val_digit)
qed (simp add: based_val_def)

lemma length_hex_digits [simp]: "length (hex_digits n v) = n"
  by (induction n arbitrary: v) simp_all

lemma hex_digits_hex: "list_all is_hex (hex_digits n v)"
  by (induction n arbitrary: v) (simp_all add: is_hex_def hex_val_digit)

lemma is_hex_byte: "is_hex c \<Longrightarrow> 48 \<le> byte c \<and> byte c \<le> 57 \<or> 97 \<le> byte c \<and> byte c \<le> 102 \<or> 65 \<le> byte c \<and> byte c \<le> 70"
  by (auto simp: is_hex_def hex_val_def is_digit_def split: if_splits)

lemma is_hex_not:
  assumes "is_hex c"
  shows "\<not> is_space c" "c \<noteq> CHR '':''" "c \<noteq> CHR ''-''" "c \<noteq> CHR ''+''" "tolower c \<noteq> CHR ''x''"
proof -
  note b = is_hex_byte [OF assms]
  show "\<not> is_space c" using b by (auto simp: is_space_def)
  show "c \<noteq> CHR '':''" "c \<noteq> CHR ''-''" "c \<noteq> CHR ''+''" using b by (auto)
  show "tolower c \<noteq> CHR ''x''"
  proof
    assume "tolower c = CHR ''x''"
    then have "byte (tolower c) = 120" by simp
    then show False using b by (auto simp: tolower_def split: if_splits)
  qed
qed

lemma hex_text:
  assumes "list_all is_hex s" "s \<noteq> []"
  shows "dropWhile is_space s = s" "split_sign s = (False, s)" "\<not> starts_with_ci ''0x'' s" "takeWhile is_hex s = s"
proof -
  obtain c r where s: "s = c # r" using assms(2) by (cases s) auto
  with assms(1) show "dropWhile is_space s = s" "split_sign s = (False, s)"
    using is_hex_not [of c] by (simp_all add: split_sign_def)
  show "\<not> starts_with_ci ''0x'' s"
    using assms(1) is_hex_not [of "hd r"] unfolding s by (cases r) (auto simp: starts_with_ci_def)
  show "takeWhile is_hex s = s" using assms(1) by (simp add: takeWhile_eq_all_conv list_all_iff)
qed

lemma strtoul16_hex: "list_all is_hex s \<Longrightarrow> s \<noteq> [] \<Longrightarrow> based_val 16 s \<le> u64_max \<Longrightarrow> strtoul16 s = based_val 16 s"
  by (simp add: strtoul16_def Let_def hex_text)

lemma strtol16_hex: "list_all is_hex s \<Longrightarrow> s \<noteq> [] \<Longrightarrow> based_val 16 s < 2 ^ 63 \<Longrightarrow> strtol16 s = int (based_val 16 s)"
  by (simp add: strtol16_def Let_def hex_text)

lemma hex_word_digits: "hex_word (hex_digits 8 (unat w)) = w"
proof -
  have "unat w < 2 ^ 32" using unsigned_less [of w] by simp
  then have "strtoul16 (hex_digits 8 (unat w)) = unat w"
    by (subst strtoul16_hex) (simp_all add: hex_digits_hex hex_digits_value u64_max_def flip: length_0_conv)
  then show ?thesis by (simp add: hex_word_def)
qed

text \<open>
  A row of the tables \<^verbatim>\<open>/proc/net/tcp\<close>, \<^verbatim>\<open>tcp6\<close>, \<^verbatim>\<open>udp\<close> and \<^verbatim>\<open>udp6\<close> as the kernel documents it: after the
  state come the queue lengths, the timer, the retransmissions, the user, the timeout and the inode.
\<close>

record kernel_socket =
  ks_slot :: string
  ks_addr :: "32 word list"
  ks_port :: "16 word"
  ks_remote :: string
  ks_state :: "8 word"
  ks_queues :: string
  ks_timer :: string
  ks_retrnsmt :: string
  ks_uid :: nat
  ks_timeout :: string
  ks_inode :: nat
  ks_more :: "string list"

definition kernel_words :: "kernel_socket \<Rightarrow> string list" where
  "kernel_words e =
     [ks_slot e, concat (map (\<lambda>w. hex_digits 8 (unat w)) (ks_addr e)) @ CHR '':'' # hex_digits 4 (unat (ks_port e)),
      ks_remote e, hex_digits 2 (unat (ks_state e)), ks_queues e, ks_timer e, ks_retrnsmt e,
      show_nat (ks_uid e), ks_timeout e, show_nat (ks_inode e)] @ ks_more e"

definition kernel_socket_ok :: "kernel_socket \<Rightarrow> bool" where
  "kernel_socket_ok e \<longleftrightarrow> (length (ks_addr e) = 1 \<or> length (ks_addr e) = 4) \<and> ks_uid e < 2 ^ 32 \<and> ks_inode e < 2 ^ 64"

definition kernel_line :: "kernel_socket \<Rightarrow> string \<Rightarrow> bool" where
  "kernel_line e l \<longleftrightarrow> NL \<notin> set l \<and> stream_words l = kernel_words e \<and> kernel_socket_ok e"

definition kernel_table :: "kernel_socket list \<Rightarrow> string \<Rightarrow> bool" where
  "kernel_table es txt \<longleftrightarrow>
     (\<exists>header ls. txt = file_lines (header # ls) \<and> NL \<notin> set header \<and> list_all2 kernel_line es ls)"

definition kernel_addr :: "ntop \<Rightarrow> kernel_socket \<Rightarrow> string option" where
  "kernel_addr inet_ntop e = inet_ntop (if length (ks_addr e) = 1 then Inet else Inet6) (concat (map memory_bytes (ks_addr e)))"

lemma parse_hex_addr_words:
  assumes "length ws = 1 \<or> length ws = 4"
  shows "parse_hex_addr inet_ntop (concat (map (\<lambda>w. hex_digits 8 (unat w)) ws)) =
    inet_ntop (if length ws = 1 then Inet else Inet6) (concat (map memory_bytes ws))"
  using assms
proof
  assume "length ws = 1"
  then obtain w where "ws = [w]" by (cases ws) auto
  then show ?thesis by (simp add: parse_hex_addr_def hex_word_digits)
next
  assume "length ws = 4"
  then obtain a b c d where ws: "ws = [a, b, c, d]" by (auto simp: length_Suc_conv numeral_eq_Suc)
  have up: "[0..<4] = [0, 1, 2, 3]" by (simp add: upt_rec)
  show ?thesis unfolding ws by (simp add: parse_hex_addr_def up hex_word_digits)
qed

lemma parse_proc_line_kernel:
  assumes "kernel_line e l"
  shows "parse_proc_line inet_ntop pr lo l =
    (if lo \<and> ks_state e \<noteq> 10 then []
     else case kernel_addr inet_ntop e of
       None \<Rightarrow> []
     | Some a \<Rightarrow> [\<lparr>rs_proto = pr, rs_addr = a, rs_port = ks_port e, rs_inode = ks_uid e\<rparr>])"
proof -
  let ?a = "concat (map (\<lambda>w. hex_digits 8 (unat w)) (ks_addr e))" and ?p = "hex_digits 4 (unat (ks_port e))"
  have w: "stream_words l = kernel_words e" and ok: "kernel_socket_ok e" using assms by (simp_all add: kernel_line_def)
  have "unat (ks_state e) < 256" using unsigned_less [of "ks_state e"] by simp
  then have "strtol16 (hex_digits 2 (unat (ks_state e))) = int (unat (ks_state e))"
    by (subst strtol16_hex) (simp_all add: hex_digits_hex hex_digits_value flip: length_0_conv)
  then have st: "strtol16 (hex_digits 2 (unat (ks_state e))) = kTcpListen \<longleftrightarrow> ks_state e = 10"
    by (simp add: kTcpListen_def word_uint_eq_iff)
  have "CHR '':'' \<notin> set ?p"
    using hex_digits_hex [of 4 "unat (ks_port e)"] is_hex_not by (auto simp: list_all_iff)
  then have colon: "rfind_char (CHR '':'') (?a @ CHR '':'' # ?p) = Some (length ?a)"
    by (simp add: rfind_char_append_absent)
  have "unat (ks_port e) < 2 ^ 16" using unsigned_less [of "ks_port e"] by simp
  then have port: "strtoul16 ?p = unat (ks_port e)"
    by (subst strtoul16_hex) (simp_all add: hex_digits_hex hex_digits_value u64_max_def flip: length_0_conv)
  have uid: "strtoull (show_nat (ks_uid e)) = ks_uid e"
    using ok strtoull_digits [of "show_nat (ks_uid e)" "[]"] show_nat_digits [of "ks_uid e"]
    by (simp add: kernel_socket_ok_def u64_max_def)
  have addr: "parse_hex_addr inet_ntop ?a = kernel_addr inet_ntop e"
    unfolding kernel_addr_def by (rule parse_hex_addr_words) (use ok in \<open>simp add: kernel_socket_ok_def\<close>)
  show ?thesis
    unfolding parse_proc_line_def w kernel_words_def
    by (simp add: st colon addr port uid split: option.split)
qed

text \<open>The entry reported for a row: its owner is looked up under the number in the user column.\<close>

definition socket_of :: "ntop \<Rightarrow> (string \<Rightarrow> string option) \<Rightarrow> (nat \<times> 64 word) list \<Rightarrow> string \<Rightarrow> kernel_socket \<Rightarrow> listening_socket" where
  "socket_of inet_ntop files m pr e =
     (let a = the (kernel_addr inet_ntop e); p = map_of m (ks_uid e) in
      \<lparr>proto = pr, local_addr = a, local_port = ks_port e, sock_pid = (case p of None \<Rightarrow> -1 | Some p \<Rightarrow> p),
       process_name = (case p of None \<Rightarrow> [] | Some p \<Rightarrow> process_comm files p),
       world_reachable = (a = ''0.0.0.0'' \<or> a = ''::'')\<rparr>)"

definition raw_of :: "ntop \<Rightarrow> string \<Rightarrow> kernel_socket \<Rightarrow> raw_socket" where
  "raw_of inet_ntop pr e =
     \<lparr>rs_proto = pr, rs_addr = the (kernel_addr inet_ntop e), rs_port = ks_port e, rs_inode = ks_uid e\<rparr>"

lemma own_socket_raw: "own_socket files m (raw_of inet_ntop pr e) = socket_of inet_ntop files m pr e"
  by (simp add: own_socket_def raw_of_def socket_of_def is_wildcard_def Let_def split: option.split)

lemma parse_proc_net_kernel:
  assumes "kernel_table es tx" and "\<And>f bs. inet_ntop f bs \<noteq> None"
  shows "parse_proc_net inet_ntop (Some tx) pr lo raw =
    (True, raw @ map (raw_of inet_ntop pr) (filter (\<lambda>e. lo \<longrightarrow> ks_state e = 10) es))"
proof -
  obtain header ls where tx: "tx = file_lines (header # ls)" and h: "NL \<notin> set header"
    and ls: "list_all2 kernel_line es ls" using assms(1) by (auto simp: kernel_table_def)
  have lines: "getline_all NL tx = header # ls"
    unfolding tx by (rule getline_file_lines) (use h ls in \<open>auto simp: list_all2_conv_all_nth in_set_conv_nth kernel_line_def\<close>)
  have "parse_proc_line inet_ntop pr lo l = (if lo \<longrightarrow> ks_state e = 10 then [raw_of inet_ntop pr e] else [])"
    if "kernel_line e l" for e l
  proof -
    have "kernel_addr inet_ntop e \<noteq> None" unfolding kernel_addr_def by (rule assms(2))
    then show ?thesis using parse_proc_line_kernel [OF that] by (auto simp: raw_of_def)
  qed
  with ls have "concat (map (parse_proc_line inet_ntop pr lo) ls) =
      map (raw_of inet_ntop pr) (filter (\<lambda>e. lo \<longrightarrow> ks_state e = 10) es)"
    by (induction rule: list_all2_induct) auto
  then show ?thesis by (simp add: parse_proc_net_def lines)
qed

text \<open>
  C31: On socket tables in the kernel's format the collector reports exactly the rows that listen
  (every row of the UDP tables), with the row's address and port, and as reachable from outside
  exactly when the address is a wildcard. The owning process is looked up under the row's user
  id, not its inode: the reader takes the eighth word of a row, and the inode is the tenth.
\<close>

theorem listening_sockets_of_tables:
  assumes "\<And>p pr lo. (p, pr, lo) \<in> set tables \<Longrightarrow> \<exists>tx. files p = Some tx \<and> kernel_table (es pr) tx"
    and "\<And>f bs. inet_ntop f bs \<noteq> None" and "\<And>P xs. mset (sort_by P xs) = mset xs"
  shows "mset (fst (linux_listening_sockets inet_ntop files dir sort_by)) =
    mset (concat (map (\<lambda>(p, pr, lo). map (socket_of inet_ntop files (fst (build_inode_to_pid dir)) pr)
      (filter (\<lambda>e. lo \<longrightarrow> ks_state e = 10) (es pr))) tables))"
proof -
  have read: "fold (read_table inet_ntop files) ts (raw, st) =
      (raw @ concat (map (\<lambda>(p, pr, lo). map (raw_of inet_ntop pr) (filter (\<lambda>e. lo \<longrightarrow> ks_state e = 10) (es pr))) ts), st)"
    if "set ts \<subseteq> set tables" for ts raw st
    using that
  proof (induction ts arbitrary: raw)
    case (Cons t ts)
    obtain p pr lo where t: "t = (p, pr, lo)" by (cases t)
    with Cons.prems assms(1) [of p pr lo] obtain tx where "files p = Some tx" "kernel_table (es pr) tx" by auto
    then show ?case
      using Cons parse_proc_net_kernel [OF _ assms(2), of "es pr" tx] by (simp add: t read_table_def)
  qed simp
  have own: "map (own_socket files m) (concat (map (\<lambda>(p, pr, lo). map (raw_of inet_ntop pr) (filter (\<lambda>e. lo \<longrightarrow> ks_state e = 10) (es pr))) ts)) =
      concat (map (\<lambda>(p, pr, lo). map (socket_of inet_ntop files m pr) (filter (\<lambda>e. lo \<longrightarrow> ks_state e = 10) (es pr))) ts)" for m ts
    by (induction ts) (auto simp: own_socket_raw)
  show ?thesis
    unfolding linux_listening_sockets_def read [OF order_refl] by (simp add: assms(3) own split_beta del: mset_map mset_concat)
qed

definition demo_row :: kernel_socket where
  "demo_row = \<lparr>ks_slot = ''0:'', ks_addr = [0], ks_port = 22, ks_remote = ''0:0'', ks_state = 10,
     ks_queues = ''0:0'', ks_timer = ''00:0'', ks_retrnsmt = ''0'', ks_uid = 7, ks_timeout = ''0'', ks_inode = 9,
     ks_more = []\<rparr>"

definition demo_line :: string where
  "demo_line = concat (map (\<lambda>w. CHR '' '' # w) (kernel_words demo_row))"

definition demo_proc :: "string \<Rightarrow> string option" where
  "demo_proc p = Some (file_lines (''sl'' # (if p = ''/proc/net/tcp'' then [demo_line] else [])))"

definition plain_word :: "string \<Rightarrow> bool" where
  "plain_word w \<longleftrightarrow> w \<noteq> [] \<and> list_all (\<lambda>c. \<not> is_space c) w"

lemma is_space_blank [simp]: "is_space (CHR '' '')" "is_space NL" "is_space TAB"
  by (simp_all add: is_space_def)

lemma stream_words_word:
  assumes "plain_word w" and "t = [] \<or> is_space (hd t)"
  shows "stream_words (w @ t) = w # stream_words t"
proof -
  obtain c r where w: "w = c # r" "\<not> is_space c" using assms(1) by (cases w) (auto simp: plain_word_def)
  have "dropWhile is_space (w @ t) = w @ t" using w by simp
  moreover have "takeWhile (\<lambda>c. \<not> is_space c) (w @ t) = w" "dropWhile (\<lambda>c. \<not> is_space c) (w @ t) = t"
    using assms by (cases t; auto simp: plain_word_def list_all_iff takeWhile_append dropWhile_append)+
  ultimately show ?thesis using w by (subst stream_words.simps) (simp add: Let_def)
qed

lemma stream_words_blank: "is_space c \<Longrightarrow> stream_words (c # t) = stream_words t"
  by (subst (1 2) stream_words.simps) (simp add: Let_def)

lemma stream_words_join: "list_all plain_word ws \<Longrightarrow> stream_words (concat (map (\<lambda>w. CHR '' '' # w) ws)) = ws"
proof (induction ws)
  case (Cons w ws)
  have "concat (map (\<lambda>w. CHR '' '' # w) ws) = [] \<or> is_space (hd (concat (map (\<lambda>w. CHR '' '' # w) ws)))"
    by (cases ws) simp_all
  with Cons show ?case by (simp add: stream_words_blank stream_words_word)
qed (simp add: stream_words.simps)

lemma plain_word_blank: "plain_word w \<Longrightarrow> is_space c \<Longrightarrow> c \<notin> set w"
  by (auto simp: plain_word_def list_all_iff)

lemma join_no_newline: "list_all plain_word ws \<Longrightarrow> NL \<notin> set (concat (map (\<lambda>w. CHR '' '' # w) ws))"
  by (induction ws) (simp_all add: plain_word_blank)

lemma plain_hex: "0 < n \<Longrightarrow> plain_word (hex_digits n v)"
  using hex_digits_hex [of n v] is_hex_not(1)
  by (auto simp: plain_word_def list_all_iff simp flip: length_greater_0_conv)

lemma plain_show_nat: "plain_word (show_nat n)"
  using show_nat_digits [of n] is_digit_not_space by (auto simp: plain_word_def list_all_iff)

lemma plain_append: "plain_word (a @ b) \<longleftrightarrow> (plain_word a \<or> plain_word b) \<and> list_all (\<lambda>c. \<not> is_space c) (a @ b)"
  by (auto simp: plain_word_def)

lemma demo_words: "list_all plain_word (kernel_words demo_row)"
proof -
  have "plain_word (hex_digits 8 0 @ CHR '':'' # hex_digits 4 22)"
    using plain_hex [of 8 0] plain_hex [of 4 22] by (simp add: plain_word_def is_space_def)
  then show ?thesis
    by (simp add: kernel_words_def demo_row_def plain_hex plain_show_nat) (simp add: plain_word_def is_space_def)
qed

lemma demo_kernel_line: "kernel_line demo_row demo_line"
proof -
  show ?thesis
    using stream_words_join [OF demo_words] join_no_newline [OF demo_words]
    by (simp add: kernel_line_def demo_line_def) (simp add: kernel_socket_ok_def demo_row_def)
qed

lemma demo_tables:
  "(p, pr, lo) \<in> set tables \<Longrightarrow> kernel_table (if pr = ''tcp'' then [demo_row] else []) (the (demo_proc p))"
  unfolding kernel_table_def tables_def demo_proc_def
  by (auto simp: demo_kernel_line intro!: exI [of _ "''sl''"] exI [of _ "[demo_line]"])

theorem listening_sockets_of_tables_witness:
  "mset (fst (linux_listening_sockets (\<lambda>f bs. Some ''0.0.0.0'') demo_proc
      (Some [(''3'', Fds [(''4'', Some ''socket:[9]'')])]) (\<lambda>P xs. xs))) =
   {# \<lparr>proto = ''tcp'', local_addr = ''0.0.0.0'', local_port = 22, sock_pid = -1, process_name = [], world_reachable = True\<rparr> #}"
proof -
  have m: "fst (build_inode_to_pid (Some [(''3'', Fds [(''4'', Some ''socket:[9]'')])])) = [(9, 3)]"
    by (simp add: build_inode_to_pid_def add_process_fds_def is_number_def is_digit_def add_fd_def starts_with_def c_str_def
        Let_def strtoull_def split_sign_def dec_val_def digit_val_def strtoll_def u64_max_def is_space_def)
  have "\<exists>tx. demo_proc p = Some tx \<and> kernel_table (if pr = ''tcp'' then [demo_row] else []) tx" if "(p, pr, lo) \<in> set tables" for p pr lo
    using demo_tables [OF that] by (simp add: demo_proc_def)
  from listening_sockets_of_tables [of demo_proc "\<lambda>pr. if pr = ''tcp'' then [demo_row] else []", OF this,
      where inet_ntop = "\<lambda>f bs. Some ''0.0.0.0''" and sort_by = "\<lambda>P xs. xs" and dir = "Some [(''3'', Fds [(''4'', Some ''socket:[9]'')])]"]
  show ?thesis by (simp add: m tables_def socket_of_def kernel_addr_def demo_row_def)
qed

end
