(* ===== verification/Linux_Processes.thy ===== *)
theory Linux_Processes
  imports Linux_Sockets
begin

text \<open>
  Processes and packages on Linux: the parent in a stat line with any command name, the listing of
  the process directory, the lines of the package query, and the note lost without a database.
\<close>

section \<open>Processes\<close>

text \<open>
  The line of \<^verbatim>\<open>/proc/<pid>/stat\<close> as the kernel documents it: the process, its command name in
  parentheses, the state letter, the parent, and further fields.
\<close>

definition stat_line :: "nat \<Rightarrow> string \<Rightarrow> char \<Rightarrow> nat \<Rightarrow> string \<Rightarrow> string" where
  "stat_line p comm st pp fs = show_nat p @ '' ('' @ comm @ '') '' @ [st] @ '' '' @ show_nat pp @ '' '' @ fs"

lemma stat_ppid_line:
  assumes "\<not> is_space st" "st \<noteq> CHR '')''" "CHR '')'' \<notin> set fs" "pp < 2 ^ 63"
  shows "stat_ppid (stat_line p comm st pp fs) = of_nat pp"
proof -
  let ?t = "show_nat pp @ CHR '' '' # fs"
  define a where "a = show_nat p @ '' ('' @ comm"
  have line: "stat_line p comm st pp fs = a @ CHR '')'' # CHR '' '' # st # CHR '' '' # ?t" by (simp add: stat_line_def a_def)
  have "CHR '')'' \<notin> set (show_nat pp)"
    using show_nat_digits [of pp] by (auto simp: list_all_iff is_digit_def)
  then have k: "rfind_char (CHR '')'') (a @ CHR '')'' # CHR '' '' # st # CHR '' '' # ?t) = Some (length a)"
    using assms by (intro rfind_char_append_absent) simp
  have "stream_words ([st] @ CHR '' '' # ?t) = [st] # stream_words (CHR '' '' # ?t)"
    using assms(1) by (intro stream_words_word) (simp_all add: plain_word_def)
  moreover have "stream_words ?t = show_nat pp # stream_words (CHR '' '' # fs)"
    by (rule stream_words_word) (simp_all add: plain_show_nat)
  ultimately have w: "stream_words (st # CHR '' '' # ?t) = [st] # show_nat pp # stream_words (CHR '' '' # fs)"
    by (simp add: stream_words_blank)
  have "strtoll (show_nat pp) = int pp"
    using strtoll_digits [of "show_nat pp" "[]"] show_nat_digits [of pp] assms(4) by simp
  then show ?thesis unfolding stat_ppid_def line k by (simp add: w)
qed

lemma fold_add_process:
  "fold (add_process e) names (ps, n) =
    (ps @ map (read_process e) (filter (\<lambda>p. is_number p \<and> proc_name (read_process e p) \<noteq> []) names),
     n + length (filter (\<lambda>p. is_number p \<and> no_exe_link e p) names))"
  by (induction names arbitrary: ps n) (simp_all add: add_process_def Let_def)

text \<open>
  C33: Every numbered entry of the process directory whose command name is readable is reported,
  with the process of its name, and with the parent its stat line carries whatever characters
  the command name in it has, parentheses and spaces included. When executables could not be
  read, the note counts the processes without one twice: it claims them out of the reported
  processes and themselves once fs.
\<close>

theorem processes_reported:
  assumes "pid_s \<in> set names" and "pid_s = show_nat p" and "p < 2 ^ 63"
    and "linux_trim (read_file (pe_files e) (''/proc/'' @ pid_s @ ''/comm'')) = nm" and "nm \<noteq> []"
    and "pe_files e (''/proc/'' @ pid_s @ ''/stat'') = Some (stat_line p comm st pp fs)"
    and "\<not> is_space st" and "st \<noteq> CHR '')''" and "CHR '')'' \<notin> set fs" and "pp < 2 ^ 63"
    and "linux_processes e (Inr names) = (ps, sts)"
  shows "(\<exists>q \<in> set ps. pid q = of_nat p \<and> ppid q = of_nat pp \<and> proc_name q = nm) \<and>
    (let n = length (filter (\<lambda>p. is_number p \<and> no_exe_link e p) names) in
     st_warnings sts = (if n = 0 then [] else [no_exe_text n (length ps + n)]))"
proof -
  let ?q = "read_process e pid_s"
  have "strtoll pid_s = int p"
    using strtoll_digits [of "show_nat p" "[]"] show_nat_digits [of p] assms(2,3) by simp
  moreover have "sint (word_of_int (int p) :: 64 word) = int p"
    using assms(3) by (subst sint_sbintrunc') (simp add: signed_take_bit_int_eq_self)
  ultimately have "pid ?q = of_nat p" "proc_name ?q = nm"
    using assms(2,4) by (simp_all add: read_process_def process_comm_def Let_def show_int_def)
  moreover have "ppid ?q = of_nat pp"
    using assms(6) stat_ppid_line [OF assms(7-10)] by (simp add: read_process_def read_file_def Let_def)
  moreover have "is_number pid_s" using assms(2) show_nat_digits [of p] by (simp add: is_number_def)
  ultimately show ?thesis
    using assms(1,5,11) by (auto simp: linux_processes_def fold_add_process Let_def warn_def good_status_def)
qed

definition demo_procfs :: "string \<Rightarrow> string option" where
  "demo_procfs f = (if f = ''/proc/7/comm'' then Some ''(x'' else if f = ''/proc/7/stat'' then Some (stat_line 7 ''a) (b'' (CHR ''S'') 3 ''0'') else None)"

definition demo_proc_env :: proc_env where
  "demo_proc_env = \<lparr>pe_files = demo_procfs, pe_exe = (\<lambda>_. None), pe_getpwuid = (\<lambda>_. None)\<rparr>"

theorem processes_reported_witness:
  "\<exists>q \<in> set (fst (linux_processes demo_proc_env (Inr [''self'', ''7'']))). pid q = 7 \<and> ppid q = 3 \<and> proc_name q = ''(x''"
proof -
  let ?e = demo_proc_env
  have "''7'' \<in> set [''self'', ''7'']" "''(x'' \<noteq> []" "(7::nat) < 2 ^ 63" "(3::nat) < 2 ^ 63" by simp_all
  moreover have "''7'' = show_nat 7" by code_simp
  moreover have "linux_trim (read_file (pe_files ?e) (''/proc/'' @ ''7'' @ ''/comm'')) = ''(x''"
    by (simp add: demo_proc_env_def demo_procfs_def read_file_def linux_trim_def)
  moreover have "pe_files ?e (''/proc/'' @ ''7'' @ ''/stat'') = Some (stat_line 7 ''a) (b'' (CHR ''S'') 3 ''0'')"
    by (simp add: demo_proc_env_def demo_procfs_def)
  moreover have "\<not> is_space (CHR ''S'')" "CHR ''S'' \<noteq> CHR '')''" "CHR '')'' \<notin> set ''0''" by (simp_all add: is_space_def)
  ultimately have "\<exists>q \<in> set (fst (linux_processes ?e (Inr [''self'', ''7'']))).
      pid q = of_nat 7 \<and> ppid q = of_nat 3 \<and> proc_name q = ''(x''"
    by (intro processes_reported [THEN conjunct1, OF _ _ _ _ _ _ _ _ _ _ surjective_pairing])
  then show ?thesis by simp
qed

section \<open>Packages\<close>

text \<open>A line of the package query: status, name, version and vendor.\<close>

definition query_line :: "string \<times> string \<times> string \<times> string \<Rightarrow> string" where
  "query_line q = (case q of (st, nm, ver, vend) \<Rightarrow> st @ TAB # nm @ TAB # ver @ TAB # vend @ [NL])"

definition plain_field :: "string \<Rightarrow> bool" where
  "plain_field f \<longleftrightarrow> TAB \<notin> set f \<and> NL \<notin> set f \<and> CHR 0x00 \<notin> set f"

fun query_ok :: "string \<times> string \<times> string \<times> string \<Rightarrow> bool" where
  "query_ok (st, nm, ver, vend) \<longleftrightarrow>
     list_all plain_field [st, nm, ver, vend] \<and> length (query_line (st, nm, ver, vend)) \<le> 4095"

fun query_package :: "string \<Rightarrow> string \<times> string \<times> string \<times> string \<Rightarrow> package list" where
  "query_package src (st, nm, ver, vend) =
     (if linux_trim st = ''installed'' \<and> nm \<noteq> []
      then [\<lparr>pkg_name = linux_trim nm, pkg_version = linux_trim ver, pkg_vendor = linux_trim vend, pkg_source = src\<rparr>] else [])"

lemma getline1_sep: "c \<notin> set f \<Longrightarrow> getline1 c (f @ c # t) = (f, t)"
proof -
  assume "c \<notin> set f"
  then have "takeWhile (\<lambda>x. x \<noteq> c) (f @ c # t) = f" "dropWhile (\<lambda>x. x \<noteq> c) (f @ c # t) = c # t"
    by (auto simp: takeWhile_append dropWhile_append)
  then show ?thesis by (simp add: getline1_def)
qed

lemma c_str_plain: "CHR 0x00 \<notin> set s \<Longrightarrow> c_str s = s"
  unfolding c_str_def by (rule takeWhile_eq_all_conv [THEN iffD2]) blast

lemma package_of_query_line: "query_ok q \<Longrightarrow> package_of_line src (query_line q) = query_package src q"
proof (cases q)
  case (fields st nm ver vend)
  assume ok: "query_ok q"
  then have "CHR 0x00 \<notin> set (query_line q)" by (simp add: fields query_line_def plain_field_def)
  then show ?thesis
    using ok getline1_sep [of TAB] getline1_sep [of NL vend "[]"]
    by (simp add: package_of_line_def c_str_plain) (simp add: fields query_line_def plain_field_def)
qed

lemma fgets_all_line:
  assumes "NL \<notin> set l" "length l < n"
  shows "fgets_all n (l @ NL # t) = (l @ [NL]) # fgets_all n t"
proof -
  have "fgets_len n (l @ NL # t) = length l + 1"
    using assms find_char_append_absent [of NL l t] by (simp add: fgets_len_def)
  then show ?thesis using assms(2) by (subst fgets_all.simps) simp
qed

text \<open>The packages reported are the installed ones of the query, in its order before sorting.\<close>

lemma packages_of_query:
  "list_all query_ok qs \<Longrightarrow>
   concat (map (package_of_line src) (fgets_all 4095 (concat (map query_line qs)))) = concat (map (query_package src) qs)"
proof (induction qs)
  case (Cons q qs)
  obtain st nm ver vend where q: "q = (st, nm, ver, vend)" by (cases q)
  have l: "query_line q = (st @ TAB # nm @ TAB # ver @ TAB # vend) @ [NL]" by (simp add: q query_line_def)
  have "fgets_all 4095 (query_line q @ concat (map query_line qs)) = query_line q # fgets_all 4095 (concat (map query_line qs))"
    using fgets_all_line [of "st @ TAB # nm @ TAB # ver @ TAB # vend" 4095 "concat (map query_line qs)"] Cons.prems
    by (simp add: l) (simp add: q query_line_def plain_field_def)
  with Cons show ?case by (simp add: package_of_query_line)
qed (simp add: fgets_all.simps)

text \<open>
  Without a package database the collector's own note is not part of the report: the inventory
  drops the notes of a collector that is not implemented.
\<close>

lemma no_database_note_dropped:
  "\<not> lx_have_dpkg k \<Longrightarrow> \<not> lx_have_rpm k \<Longrightarrow>
   last (warnings (collect_inventory (linux_platform k))) = ''packages: not implemented on linux yet''"
  by (simp add: collect_inventory_def linux_platform_def linux_packages_def fold_status_def Let_def warn_def good_status_def split_beta)

end
