(* ===== verification/Agent.thy ===== *)
theory Agent
  imports Cve_Match Cli
begin

text \<open>
  The agent of \<^verbatim>\<open>src/src/agent.cpp\<close>, one request or scan at a time: the worker's scan, the handlers of
  the control pipe with their JSON answers, and the watchdog. What the locks do when scans and
  requests overlap is in another theory. The database, the process information, the clocks, the
  dump writer, and whether another thread holds the database lock or delivers a scan in time
  are arguments.
\<close>

section \<open>Faults and results\<close>

datatype fault = No_fault | UseAfterFree | Deadlock | WorkerCrash

definition parse_fault :: "string \<Rightarrow> fault option" where
  "parse_fault nm =
     (if nm = ''none'' then Some No_fault else if nm = ''uaf'' then Some UseAfterFree
      else if nm = ''deadlock'' then Some Deadlock else if nm = ''worker-crash'' then Some WorkerCrash else None)"

fun fault_name :: "fault \<Rightarrow> string" where
  "fault_name No_fault = ''none''"
| "fault_name UseAfterFree = ''uaf''"
| "fault_name Deadlock = ''deadlock''"
| "fault_name WorkerCrash = ''worker-crash''"

record agent_config =
  ac_index_path :: string
  ac_alias_path :: string
  db_connection :: string
  ac_interval_s :: int
  ac_hang_timeout_s :: int
  ac_fault :: fault

record scan_result =
  sr_ok :: bool
  scan_id :: "64 word"
  sr_packages :: nat
  sr_findings :: nat
  sr_critical :: nat
  duration_ms :: "64 word"
  finished_unix_ms :: "64 word"
  worst :: string
  db_error :: string

definition no_result :: scan_result where
  "no_result = \<lparr>sr_ok = False, scan_id = 0, sr_packages = 0, sr_findings = 0, sr_critical = 0, duration_ms = 0,
     finished_unix_ms = 0, worst = [], db_error = []\<rparr>"

text \<open>\<^verbatim>\<open>std::max_element\<close>: the first of the largest.\<close>

fun max_score :: "finding \<Rightarrow> finding list \<Rightarrow> finding" where
  "max_score b [] = b"
| "max_score b (f # fs) = max_score (if dless (cvss_score b) (cvss_score f) then f else b) fs"

text \<open>Nothing is the exception of \<^verbatim>\<open>at\<close>, which ends the worker thread and with it the process.\<close>

definition worst_finding :: "finding list \<Rightarrow> fault \<Rightarrow> string option" where
  "worst_finding fs flt =
     (if flt = WorkerCrash then None
      else case fs of [] \<Rightarrow> Some ''none'' | f # r \<Rightarrow> Some (cve_id (max_score f r)))"

definition write_result :: "scan_result \<Rightarrow> json_writer \<Rightarrow> json_writer" where
  "write_result r w =
     (let w = field_bool ''ok'' (sr_ok r) w;
          w = field_i64 ''scan_id'' (scan_id r) w;
          w = field_nat ''packages'' (sr_packages r) w;
          w = field_nat ''findings'' (sr_findings r) w;
          w = field_nat ''critical'' (sr_critical r) w;
          w = field_str ''worst'' (worst r) w;
          w = field_i64 ''duration_ms'' (duration_ms r) w;
          w = field_i64 ''finished_unix_ms'' (finished_unix_ms r) w
      in if db_error r \<noteq> [] then field_str ''db_error'' (db_error r) w else w)"

definition error_json :: "string \<Rightarrow> string" where
  "error_json msg = out (end_object (field_str ''error'' msg (begin_object (new_writer False))))"

definition valid_cve_id :: "string \<Rightarrow> bool" where
  "valid_cve_id s \<longleftrightarrow> \<not> (length s < 9 \<or> 32 < length s \<or> \<not> starts_with ''CVE-'' s) \<and>
     list_all (\<lambda>c. is_digit c \<or> c = CHR ''-'') (drop 4 s)"

section \<open>Scanning\<close>

record finding_row =
  fr_hostname :: string
  fr_cve_id :: string
  fr_package :: string
  fr_version :: string
  fr_cvss :: cdouble
  fr_severity :: string
  fr_exposed :: bool
  fr_scan_id :: "64 word"

text \<open>
  The database as the agent uses it: an error text or nothing for connecting; for recording a
  scan also the identifier it leaves behind.
\<close>

record database =
  connect_result :: "string option"
  record_result :: "inventory \<Rightarrow> finding list \<Rightarrow> 64 word \<Rightarrow> string option \<times> 64 word"
  host_result :: "string \<Rightarrow> cdouble \<Rightarrow> int \<Rightarrow> string + finding_row list"
  affected_result :: "string \<Rightarrow> string + finding_row list"

record agent =
  connected :: bool
  started_unix_ms :: "64 word"
  scans :: nat
  ag_hostname :: string
  last_scan :: scan_result
  listeners :: "nat list"
  scan_requested :: bool
  stopping :: bool

definition fresh_agent :: agent where
  "fresh_agent = \<lparr>connected = False, started_unix_ms = 0, scans = 0, ag_hostname = [], last_scan = no_result,
     listeners = [], scan_requested = False, stopping = False\<rparr>"

definition request_scan :: "agent \<Rightarrow> agent" where
  "request_scan ag = ag\<lparr>scan_requested := True\<rparr>"

definition write_db :: "agent_config \<Rightarrow> database \<Rightarrow> inventory \<Rightarrow> finding list \<Rightarrow> agent \<Rightarrow> scan_result \<Rightarrow> agent \<times> scan_result" where
  "write_db cf db iv fs ag r =
     (if db_connection cf = [] then (ag, r)
      else
        let (conn, err) = (if connected ag then (True, []) else case connect_result db of None \<Rightarrow> (True, []) | Some e \<Rightarrow> (False, e)) in
        if \<not> conn then (ag\<lparr>connected := False\<rparr>, r\<lparr>db_error := err\<rparr>)
        else
          (case record_result db iv fs (scan_id r) of
             (None, sid) \<Rightarrow> (ag\<lparr>connected := True\<rparr>, r\<lparr>scan_id := sid\<rparr>)
           | (Some e, sid) \<Rightarrow> (ag\<lparr>connected := False\<rparr>, r\<lparr>scan_id := sid, db_error := e\<rparr>)))"

definition update_state :: "inventory \<Rightarrow> scan_result \<Rightarrow> agent \<Rightarrow> agent" where
  "update_state iv r ag = ag\<lparr>scans := scans ag + 1, ag_hostname := hostname (host iv), last_scan := r\<rparr>"

text \<open>
  The result, the listeners it is handed to and the agent after the scan; nothing when the worker
  died. The clocks say how long it took and when it ended.
\<close>

definition run_scan ::
  "agent_config \<Rightarrow> unspecified \<Rightarrow> cve_index \<Rightarrow> database \<Rightarrow> 64 word \<Rightarrow> 64 word \<Rightarrow> inventory \<Rightarrow> agent \<Rightarrow>
     (scan_result \<times> nat list \<times> agent) option" where
  "run_scan cf u ix db elapsed now iv ag =
     (let (fs, sm) = scan u ix iv empty_summary;
          r = no_result\<lparr>sr_packages := length (packages iv), sr_findings := length fs, sr_critical := critical sm\<rparr> in
      case worst_finding fs (ac_fault cf) of
        None \<Rightarrow> None
      | Some wst \<Rightarrow>
          let (ag, r) = write_db cf db iv fs ag (r\<lparr>worst := wst\<rparr>);
              r = r\<lparr>sr_ok := (db_error r = []), duration_ms := elapsed, finished_unix_ms := now\<rparr>;
              ag = update_state iv r ag
          in Some (r, listeners ag, ag\<lparr>listeners := []\<rparr>))"

text \<open>One turn of the worker's loop after its wait: a stop request, or a scan.\<close>

definition worker_round ::
  "agent_config \<Rightarrow> unspecified \<Rightarrow> cve_index \<Rightarrow> database \<Rightarrow> 64 word \<Rightarrow> 64 word \<Rightarrow> inventory \<Rightarrow> agent \<Rightarrow>
     (scan_result \<times> nat list \<times> agent) option + agent" where
  "worker_round cf u ix db elapsed now iv ag =
     (if stopping ag then Inr ag else Inl (run_scan cf u ix db elapsed now iv (ag\<lparr>scan_requested := False\<rparr>)))"

section \<open>The watchdog\<close>

record watchdog =
  wd_next :: nat
  wd_active :: "(nat \<times> string \<times> int) list"
  wd_timeout_ms :: int

definition wd_enter :: "string \<Rightarrow> int \<Rightarrow> watchdog \<Rightarrow> nat \<times> watchdog" where
  "wd_enter what now w = (wd_next w + 1, w\<lparr>wd_next := wd_next w + 1, wd_active := wd_active w @ [(wd_next w + 1, what, now)]\<rparr>)"

definition wd_leave :: "nat \<Rightarrow> watchdog \<Rightarrow> watchdog" where
  "wd_leave k w = w\<lparr>wd_active := filter (\<lambda>e. fst e \<noteq> k) (wd_active w)\<rparr>"

text \<open>One look of the loop: what is stuck and for how long.\<close>

definition wd_check :: "int \<Rightarrow> watchdog \<Rightarrow> (string \<times> int) option" where
  "wd_check now w = map_option (\<lambda>(k, what, since). (what, now - since))
     (List.find (\<lambda>(k, what, since). \<not> now - since < wd_timeout_ms w) (wd_active w))"

section \<open>Requests\<close>

record proc_info =
  pi_pid :: nat
  pi_user :: string
  elevated :: bool
  privileges_enabled :: nat
  private_bytes :: nat
  working_set :: nat
  peak_working_set :: nat
  handles :: nat
  threads :: nat

record agent_env =
  ae_proc :: proc_info
  ae_requests :: nat
  ae_dumps :: nat
  ae_now :: "64 word"
  ae_db :: database
  ae_db_busy :: bool
  ae_delivered :: "int \<Rightarrow> scan_result option"
  ae_waiter :: nat
  ae_dump :: "string + string"

text \<open>Division that rounds towards zero.\<close>

definition trunc_div :: "int \<Rightarrow> int \<Rightarrow> int" where
  "trunc_div a b = (if a < 0 then - (- a div b) else a div b)"

definition handle_status :: "agent_config \<Rightarrow> agent_env \<Rightarrow> agent \<Rightarrow> string" where
  "handle_status cf e ag =
     (let p = ae_proc e;
          w = begin_object (new_writer False);
          w = field_cstr ''service'' (Some kAgentName) w;
          w = field_cstr ''version'' (Some kAgentVersion) w;
          w = field_cstr ''fault'' (Some (fault_name (ac_fault cf))) w;
          w = begin_object_key ''process'' w;
          w = field_nat ''pid'' (pi_pid p) w;
          w = field_str ''user'' (pi_user p) w;
          w = field_bool ''elevated'' (elevated p) w;
          w = field_nat ''privileges_enabled'' (privileges_enabled p) w;
          w = field_nat ''private_bytes'' (private_bytes p) w;
          w = field_nat ''working_set'' (working_set p) w;
          w = field_nat ''peak_working_set'' (peak_working_set p) w;
          w = field_nat ''handles'' (handles p) w;
          w = field_nat ''threads'' (threads p) w;
          w = end_object w;
          w = field_nat ''pipe_requests_served'' (ae_requests e) w;
          w = field_nat ''dumps_written'' (ae_dumps e) w;
          w = field_i64 ''uptime_s'' (word_of_int (trunc_div (sint (ae_now e - started_unix_ms ag)) 1000)) w;
          w = field_str ''hostname'' (ag_hostname ag) w;
          w = field_nat ''scans_completed'' (scans ag) w;
          w = begin_object_key ''last_scan'' w;
          w = write_result (last_scan ag) w;
          w = end_object w;
          db_state = (if ac_fault cf \<noteq> Deadlock \<and> ae_db_busy e then ''busy''
                      else if connected ag then ''connected'' else ''disconnected'');
          w = begin_object_key ''database'' w;
          w = field_bool ''configured'' (db_connection cf \<noteq> []) w;
          w = field_cstr ''state'' (Some db_state) w;
          w = end_object w
      in out (end_object w))"

text \<open>
  The wait a scan request is allowed, half the watchdog's budget; nothing where the product
  leaves the range of \<^verbatim>\<open>int\<close>.
\<close>

definition scan_cap :: "int \<Rightarrow> int option" where
  "scan_cap hang_s =
     (if 0 < hang_s then (if hang_s * 500 < 2 ^ 31 then Some (hang_s * 500) else None) else Some 60000)"

definition clamp :: "int \<Rightarrow> int \<Rightarrow> int \<Rightarrow> int" where
  "clamp v lo hi = (if v < lo then lo else if hi < v then hi else v)"

text \<open>The wait a request for a scan leads to.\<close>

definition scan_wait :: "agent_config \<Rightarrow> int \<Rightarrow> int option" where
  "scan_wait cf wait_ms = map_option (clamp wait_ms 0) (scan_cap (ac_hang_timeout_s cf))"

text \<open>The scan delivered within that time, if any, is that of the environment.\<close>

definition handle_scan :: "agent_config \<Rightarrow> agent_env \<Rightarrow> int \<Rightarrow> agent \<Rightarrow> string \<times> agent" where
  "handle_scan cf e wait_ms ag =
     (let ag = request_scan (ag\<lparr>listeners := listeners ag @ [ae_waiter e]\<rparr>);
          delivered = Option.bind (scan_wait cf wait_ms) (ae_delivered e);
          w = begin_object (new_writer False);
          w = field_bool ''completed'' (delivered \<noteq> None) w;
          w = (case delivered of
                 Some r \<Rightarrow> end_object (write_result r (begin_object_key ''scan'' w))
               | None \<Rightarrow> field_cstr ''note'' (Some ''scan still running; it will finish in the background'') w)
      in (out (end_object w), ag))"

definition row_json :: "finding_row \<Rightarrow> json_writer \<Rightarrow> json_writer" where
  "row_json r w =
     (let w = begin_object w;
          w = field_str ''host'' (fr_hostname r) w;
          w = field_str ''cve'' (fr_cve_id r) w;
          w = field_str ''package'' (fr_package r) w;
          w = field_str ''version'' (fr_version r) w;
          w = field_double ''cvss'' (fr_cvss r) w;
          w = field_str ''severity'' (fr_severity r) w;
          w = field_bool ''exposed'' (fr_exposed r) w;
          w = field_i64 ''scan_id'' (fr_scan_id r) w
      in end_object w)"

definition rows_json :: "finding_row list \<Rightarrow> string" where
  "rows_json rows =
     (let w = begin_object (new_writer False);
          w = field_nat ''count'' (length rows) w;
          w = end_array (fold row_json rows (begin_array ''rows'' w))
      in out (end_object w))"

definition handle_findings :: "agent_env \<Rightarrow> cdouble \<Rightarrow> int \<Rightarrow> agent \<Rightarrow> string" where
  "handle_findings e min_cvss limit ag =
     (if ag_hostname ag = [] then error_json ''no scan has completed yet''
      else if \<not> connected ag then error_json ''database not connected''
      else case host_result (ae_db e) (ag_hostname ag) min_cvss (clamp limit 1 1000) of
        Inl err \<Rightarrow> error_json err
      | Inr rows \<Rightarrow> rows_json rows)"

definition handle_affected :: "agent_env \<Rightarrow> string \<Rightarrow> agent \<Rightarrow> string" where
  "handle_affected e cve ag =
     (if \<not> valid_cve_id cve then error_json ''expected a CVE id like CVE-2024-6387''
      else if \<not> connected ag then error_json ''database not connected''
      else case affected_result (ae_db e) cve of
        Inl err \<Rightarrow> error_json err
      | Inr rows \<Rightarrow> rows_json rows)"

subsection \<open>Reading a request\<close>

definition read_word :: "string \<Rightarrow> string \<times> string" where
  "read_word s = (let t = dropWhile is_space s in (takeWhile (\<lambda>c. \<not> is_space c) t, dropWhile (\<lambda>c. \<not> is_space c) t))"

text \<open>\<^verbatim>\<open>operator>>\<close> into a 32-bit signed integer: the value, or nothing on failure.\<close>

definition extract_int :: "string \<Rightarrow> int option" where
  "extract_int s =
     (let (neg, u) = split_sign (dropWhile is_space s); ds = takeWhile is_digit u;
          v = (if neg then - int (dec_val ds) else int (dec_val ds))
      in if ds = [] \<or> v < - (2 ^ 31) \<or> 2 ^ 31 \<le> v then None else Some v)"

text \<open>
  \<^verbatim>\<open>operator>>\<close> into a \<^verbatim>\<open>double\<close>: a sign, digits with a point, and an exponent, all of which has to be a
  number; the value and what is left, or nothing on failure.
\<close>

definition extract_double :: "string \<Rightarrow> (cdouble \<times> string) option" where
  "extract_double s =
     (let t = dropWhile is_space s;
          (sg, u) = (case t of c # r \<Rightarrow> if c = CHR ''-'' \<or> c = CHR ''+'' then ([c], r) else ([], t) | [] \<Rightarrow> ([], []));
          i = takeWhile is_digit u; r1 = dropWhile is_digit u;
          (pt, r1) = (case r1 of c # r \<Rightarrow> if c = CHR ''.'' then ([c], r) else ([], r1) | [] \<Rightarrow> ([], []));
          f = (if pt = [] then [] else takeWhile is_digit r1); r2 = (if pt = [] then r1 else dropWhile is_digit r1);
          (x, r3) = (case r2 of c # r \<Rightarrow> if (c = CHR ''e'' \<or> c = CHR ''E'') \<and> i @ f \<noteq> [] then ([c], r) else ([], r2) | [] \<Rightarrow> ([], []));
          (xs, r3) = (if x = [] then ([], r3)
                      else case r3 of c # r \<Rightarrow> if c = CHR ''-'' \<or> c = CHR ''+'' then ([c], r) else ([], r3) | [] \<Rightarrow> ([], []));
          xd = (if x = [] then [] else takeWhile is_digit r3); r4 = (if x = [] then r3 else dropWhile is_digit r3);
          v = strtod (sg @ i @ pt @ f @ x @ xs @ xd)
      in if i @ f = [] \<or> (x \<noteq> [] \<and> xd = []) \<or> (\<exists>b. v = Inf b) then None else Some (v, r4))"

definition pong :: string where
  "pong = [CHR ''{'', DQ] @ ''pong'' @ [DQ] @ '':true}''"

definition handle :: "agent_config \<Rightarrow> agent_env \<Rightarrow> string \<Rightarrow> agent \<Rightarrow> string \<times> agent" where
  "handle cf e request ag =
     (let (cmd, r) = read_word request in
      if cmd = ''ping'' then (pong, ag)
      else if cmd = ''status'' then (handle_status cf e ag, ag)
      else if cmd = ''scan'' then
        handle_scan cf e (case extract_int r of None \<Rightarrow> 30000 | Some v \<Rightarrow> v) ag
      else if cmd = ''findings'' then
        (let (min_cvss, limit) = (case extract_double r of
               None \<Rightarrow> (dnum 0, 20)
             | Some (v, r) \<Rightarrow> (v, case extract_int r of None \<Rightarrow> 20 | Some n \<Rightarrow> n))
         in (handle_findings e min_cvss limit ag, ag))
      else if cmd = ''affected'' then (handle_affected e (fst (read_word r)) ag, ag)
      else if cmd = ''dump'' then
        ((case ae_dump e of
            Inl err \<Rightarrow> error_json err
          | Inr p \<Rightarrow> out (end_object (field_str ''dump'' p (begin_object (new_writer False))))), ag)
      else (error_json ''unknown command; expected ping|status|scan|findings|affected|dump'', ag))"

section \<open>Starting and stopping\<close>

text \<open>
  The server's answer to being started is an error text or nothing; where the control channel is
  missing the agent runs without it, except on Windows.
\<close>

definition agent_start ::
  "unspecified \<Rightarrow> agent_config \<Rightarrow> (string \<Rightarrow> string option) \<Rightarrow> database \<Rightarrow> 64 word \<Rightarrow> bool \<Rightarrow> string option \<Rightarrow>
     cve_index \<Rightarrow> agent \<Rightarrow> (cve_index \<times> agent) option" where
  "agent_start u cf files db now windows server_error ix ag =
     (case load_rules (files (ac_index_path cf)) ix of
        (Inl _, _) \<Rightarrow> None
      | (Inr _, ix) \<Rightarrow>
          (case load_aliases u (files (ac_alias_path cf)) ix of
             (Inl _, _) \<Rightarrow> None
           | (Inr _, ix) \<Rightarrow>
               let ag = (if db_connection cf \<noteq> [] then ag\<lparr>connected := (connect_result db = None)\<rparr> else ag);
                   ag = ag\<lparr>started_unix_ms := now\<rparr>
               in if server_error \<noteq> None \<and> windows then None else Some (ix, ag)))"

definition agent_stop :: "agent \<Rightarrow> agent" where
  "agent_stop ag = ag\<lparr>stopping := True\<rparr>"

end
