(* ===== verification/Agent_Locks.thy ===== *)
theory Agent_Locks
  imports Agent
begin

text \<open>
  The locks of \<^verbatim>\<open>src/src/agent.cpp\<close> when scans and requests overlap: each function is the sequence of
  its lock operations, each thread runs such sequences, and any number of threads interleave.
  Threads that hold one lock at a time can always finish; with the fault \<^verbatim>\<open>deadlock\<close> the worker and
  a status request can block each other for good.
\<close>

section \<open>Locks and threads\<close>

datatype mutex = Db_mu | State_mu | Listeners_mu | Wake_mu | Watchdog_mu | Log_mu | Waiter_mu nat

text \<open>\<open>Try\<close> takes the lock when it is free and goes on without it otherwise; \<open>Work\<close> touches no lock.\<close>

datatype instr = Lock mutex | Unlock mutex | Try mutex | Work

record lock_state =
  programs :: "nat \<Rightarrow> instr list"
  owner :: "mutex \<Rightarrow> nat option"

definition advance :: "nat \<Rightarrow> instr list \<Rightarrow> lock_state \<Rightarrow> lock_state" where
  "advance t p s = s\<lparr>programs := (programs s)(t := p)\<rparr>"

definition set_owner :: "mutex \<Rightarrow> nat option \<Rightarrow> lock_state \<Rightarrow> lock_state" where
  "set_owner m x s = s\<lparr>owner := (owner s)(m := x)\<rparr>"

inductive thread_step :: "nat \<Rightarrow> lock_state \<Rightarrow> lock_state \<Rightarrow> bool" where
  work: "programs s t = Work # p \<Longrightarrow> thread_step t s (advance t p s)"
| lock: "programs s t = Lock m # p \<Longrightarrow> owner s m = None \<Longrightarrow> thread_step t s (advance t p (set_owner m (Some t) s))"
| unlock: "programs s t = Unlock m # p \<Longrightarrow> owner s m = Some t \<Longrightarrow> thread_step t s (advance t p (set_owner m None s))"
| attempt: "programs s t = Try m # p \<Longrightarrow> owner s m = None \<Longrightarrow>
    thread_step t s (advance t (Unlock m # p) (set_owner m (Some t) s))"
| attempt_busy: "programs s t = Try m # p \<Longrightarrow> owner s m \<noteq> None \<Longrightarrow> thread_step t s (advance t p s)"

text \<open>A step of the system: of a thread, or an idle thread starts a sequence it may start.\<close>

inductive system_step :: "(nat \<Rightarrow> instr list \<Rightarrow> bool) \<Rightarrow> lock_state \<Rightarrow> lock_state \<Rightarrow> bool" for starts where
  thread: "thread_step t s s' \<Longrightarrow> system_step starts s s'"
| start: "programs s t = [] \<Longrightarrow> starts t p \<Longrightarrow> system_step starts s (advance t p s)"

definition idle :: lock_state where
  "idle = \<lparr>programs = (\<lambda>_. []), owner = (\<lambda>_. None)\<rparr>"

abbreviation thread_steps :: "lock_state \<Rightarrow> lock_state \<Rightarrow> bool" where
  "thread_steps \<equiv> (\<lambda>s s'. \<exists>t. thread_step t s s')\<^sup>*\<^sup>*"

lemma state_simps [simp]:
  "programs (advance t p s) = (programs s)(t := p)" "owner (advance t p s) = owner s"
  "programs (set_owner m x s) = programs s" "owner (set_owner m x s) = (owner s)(m := x)"
  by (simp_all add: advance_def set_owner_def)

lemma two_steps: "system_step starts s s1 \<Longrightarrow> system_step starts s1 s2 \<Longrightarrow> (system_step starts)\<^sup>*\<^sup>* s s2"
  by (rule converse_rtranclp_into_rtranclp, assumption) (rule r_into_rtranclp)

section \<open>One lock at a time\<close>

text \<open>The sequence, run while holding \<open>h\<close>, never asks for a lock while it holds one and ends holding none.\<close>

fun one_lock :: "mutex option \<Rightarrow> instr list \<Rightarrow> bool" where
  "one_lock h [] \<longleftrightarrow> h = None"
| "one_lock h (Work # p) \<longleftrightarrow> one_lock h p"
| "one_lock h (Lock m # p) \<longleftrightarrow> h = None \<and> one_lock (Some m) p"
| "one_lock h (Unlock m # p) \<longleftrightarrow> h = Some m \<and> one_lock None p"
| "one_lock h (Try m # p) \<longleftrightarrow> h = None \<and> one_lock None p"

lemma one_lock_append: "one_lock h p \<Longrightarrow> one_lock None q \<Longrightarrow> one_lock h (p @ q)"
  by (induction h p rule: one_lock.induct) auto

definition disciplined :: "lock_state \<Rightarrow> bool" where
  "disciplined s \<longleftrightarrow> (\<forall>t. \<exists>h. one_lock h (programs s t) \<and> (\<forall>m. owner s m = Some t \<longleftrightarrow> h = Some m))"

fun weight :: "instr list \<Rightarrow> nat" where
  "weight [] = 0"
| "weight (Try m # p) = 2 + weight p"
| "weight (_ # p) = 1 + weight p"

lemma disciplinedE:
  assumes "disciplined s"
  obtains h where "one_lock h (programs s t)" "\<forall>m. owner s m = Some t \<longleftrightarrow> h = Some m"
  using assms by (auto simp: disciplined_def)

text \<open>A change of one thread: what it holds afterwards, and nothing changed for the others.\<close>

lemma disciplined_change:
  assumes "disciplined s" and "\<And>u. u \<noteq> t \<Longrightarrow> programs s' u = programs s u"
    and "\<And>u m. u \<noteq> t \<Longrightarrow> owner s' m = Some u \<longleftrightarrow> owner s m = Some u"
    and "one_lock h (programs s' t)" and "\<And>m. owner s' m = Some t \<longleftrightarrow> h = Some m"
  shows "disciplined s'"
  unfolding disciplined_def
proof
  fix u
  show "\<exists>h. one_lock h (programs s' u) \<and> (\<forall>m. owner s' m = Some u \<longleftrightarrow> h = Some m)"
    using assms by (cases "u = t") (auto elim: disciplinedE [where t = u])
qed

lemma disciplined_step:
  assumes "thread_step t s s'" and "disciplined s"
  shows "disciplined s'"
proof -
  obtain h where h: "one_lock h (programs s t)" "\<forall>m. owner s m = Some t \<longleftrightarrow> h = Some m"
    by (rule disciplinedE [OF assms(2), of t])
  from assms(1) show ?thesis
  proof cases
    case (work p)
    then show ?thesis using h by (intro disciplined_change [OF assms(2), of t _ h]) auto
  next
    case (lock m p)
    then show ?thesis using h by (intro disciplined_change [OF assms(2), of t _ "Some m"]) auto
  next
    case (unlock m p)
    then show ?thesis using h by (intro disciplined_change [OF assms(2), of t _ None]) (auto dest: spec [of _ m])
  next
    case (attempt m p)
    then show ?thesis using h by (intro disciplined_change [OF assms(2), of t _ "Some m"]) auto
  next
    case (attempt_busy m p)
    then show ?thesis using h by (intro disciplined_change [OF assms(2), of t _ None]) auto
  qed
qed

lemma disciplined_steps: "thread_steps s s' \<Longrightarrow> disciplined s \<Longrightarrow> disciplined s'"
  by (induction rule: rtranclp_induct) (auto intro: disciplined_step)

text \<open>The holder of a lock can run to the point where it gives it back.\<close>

lemma holder_releases:
  assumes "disciplined s" "owner s m = Some u" "programs s u = p"
  shows "\<exists>s'. thread_steps s s' \<and> owner s' m = None \<and> (\<forall>v. v \<noteq> u \<longrightarrow> programs s' v = programs s v)"
  using assms
proof (induction p arbitrary: s)
  case Nil
  then show ?case by (auto elim: disciplinedE [where t = u])
next
  case (Cons i p)
  obtain h where h: "one_lock h (programs s u)" "\<forall>m. owner s m = Some u \<longleftrightarrow> h = Some m"
    by (rule disciplinedE [OF Cons.prems(1), of u])
  then have one: "one_lock (Some m) (i # p)" using Cons.prems by auto
  show ?case
  proof (cases i)
    case Work
    let ?s = "advance u p s"
    have st: "thread_step u s ?s" using Cons.prems Work by (auto intro: thread_step.work)
    from Cons.IH [OF disciplined_step [OF st Cons.prems(1)]] Cons.prems(2) obtain s' where
      "thread_steps ?s s'" "owner s' m = None" "\<forall>v. v \<noteq> u \<longrightarrow> programs s' v = programs ?s v" by auto
    then show ?thesis using st by (intro exI [of _ s']) (auto intro: converse_rtranclp_into_rtranclp)
  next
    case (Unlock m')
    then have "m' = m" using one by simp
    then have "thread_step u s (advance u p (set_owner m None s))"
      using Cons.prems Unlock by (auto intro: thread_step.unlock)
    then show ?thesis by (intro exI [of _ "advance u p (set_owner m None s)"]) (auto intro: r_into_rtranclp)
  qed (use one in auto)
qed

text \<open>Every thread can be brought to the end of its sequence without starting anything new.\<close>

lemma thread_finishes:
  assumes "disciplined s"
  shows "\<exists>s'. thread_steps s s' \<and> programs s' t = []"
  using assms
proof (induction "weight (programs s t)" arbitrary: s rule: less_induct)
  case less
  have step: "\<exists>s'. thread_steps s s' \<and> programs s' t = []"
    if "thread_steps s s1" "thread_step t s1 s2" "weight (programs s2 t) < weight (programs s t)" for s1 s2
  proof -
    have "disciplined s2" using disciplined_steps [OF that(1) less.prems] disciplined_step [OF that(2)] by simp
    from less.hyps [OF that(3) this] obtain s' where "thread_steps s2 s'" "programs s' t = []" by blast
    moreover have "thread_steps s s2" using that(1,2) by (auto intro: rtranclp.rtrancl_into_rtrancl)
    ultimately show ?thesis by (blast intro: rtranclp_trans)
  qed
  obtain h where h: "one_lock h (programs s t)" "\<forall>m. owner s m = Some t \<longleftrightarrow> h = Some m"
    by (rule disciplinedE [OF less.prems, of t])
  show ?case
  proof (cases "programs s t")
    case (Cons i p)
    show ?thesis
    proof (cases i)
      case Work
      then show ?thesis using Cons by (intro step [OF _ thread_step.work]) auto
    next
      case (Unlock m)
      then show ?thesis using Cons h by (intro step [OF _ thread_step.unlock]) auto
    next
      case (Try m)
      show ?thesis
      proof (cases "owner s m")
        case None
        then show ?thesis using Cons Try by (intro step [OF _ thread_step.attempt]) auto
      next
        case (Some u)
        then show ?thesis using Cons Try by (intro step [OF _ thread_step.attempt_busy]) auto
      qed
    next
      case (Lock m)
      show ?thesis
      proof (cases "owner s m")
        case None
        then show ?thesis using Cons Lock by (intro step [OF _ thread_step.lock]) auto
      next
        case (Some u)
        have "u \<noteq> t" using h Cons Lock Some by auto
        with holder_releases [OF less.prems Some refl] obtain s1
          where "thread_steps s s1" "owner s1 m = None" "programs s1 t = programs s t" by auto
        then show ?thesis using Cons Lock by (intro step [OF _ thread_step.lock]) auto
      qed
    qed
  qed auto
qed

section \<open>The discipline as a contract\<close>

locale lock_discipline =
  fixes starts :: "nat \<Rightarrow> instr list \<Rightarrow> bool"
  assumes starts_one_lock: "starts t p \<Longrightarrow> one_lock None p"
begin

lemma reachable_disciplined: "(system_step starts)\<^sup>*\<^sup>* idle s \<Longrightarrow> disciplined s"
proof (induction rule: rtranclp_induct)
  case base
  show ?case by (auto simp: disciplined_def idle_def)
next
  case (step s s')
  from step(2) show ?case
  proof cases
    case (thread t)
    then show ?thesis using disciplined_step step(3) by blast
  next
    case (start t p)
    then show ?thesis
      using step(3) starts_one_lock disciplinedE [OF step(3), of t]
      by (intro disciplined_change [OF step(3), of t _ None]) auto
  qed
qed

lemma never_deadlocked: "(system_step starts)\<^sup>*\<^sup>* idle s \<Longrightarrow> \<exists>s'. thread_steps s s' \<and> programs s' t = []"
  by (rule thread_finishes [OF reachable_disciplined])

end

section \<open>The agent's threads\<close>

text \<open>A \<^verbatim>\<open>lock_guard\<close> around a block, and a wait on a condition variable inside one.\<close>

definition guarded :: "mutex \<Rightarrow> instr list \<Rightarrow> instr list" where
  "guarded m body = Lock m # body @ [Unlock m]"

definition cv_wait :: "mutex \<Rightarrow> instr list" where
  "cv_wait m = [Unlock m, Work, Lock m]"

definition log_call :: "instr list" where
  "log_call = guarded Log_mu [Work]"

text \<open>\<^verbatim>\<open>Watchdog::Scope\<close> around a block.\<close>

definition watched :: "instr list \<Rightarrow> instr list" where
  "watched body = guarded Watchdog_mu [Work] @ body @ guarded Watchdog_mu [Work]"

definition run_scan_program :: "fault \<Rightarrow> nat list \<Rightarrow> instr list" where
  "run_scan_program flt waiting =
     watched ([Work] @
       (if flt = Deadlock then guarded Db_mu ([Work] @ guarded State_mu [Work])
        else guarded Db_mu [Work] @ guarded State_mu [Work]) @
       log_call @ [Work] @ log_call @ guarded Listeners_mu [Work] @
       concat (map (\<lambda>k. guarded (Waiter_mu k) [Work]) waiting))"

definition worker_program :: "fault \<Rightarrow> nat list \<Rightarrow> instr list" where
  "worker_program flt waiting = guarded Wake_mu (cv_wait Wake_mu @ [Work]) @ run_scan_program flt waiting"

definition status_program :: "fault \<Rightarrow> instr list" where
  "status_program flt =
     [Work] @ guarded State_mu ([Work] @ (if flt = Deadlock then guarded Db_mu [Work] else [])) @
     (if flt \<noteq> Deadlock then [Try Db_mu] else []) @ [Work]"

definition scan_program :: "nat \<Rightarrow> instr list" where
  "scan_program k = guarded Listeners_mu [Work] @ guarded Wake_mu [Work] @ guarded (Waiter_mu k) (cv_wait (Waiter_mu k) @ [Work]) @ [Work]"

text \<open>Without a completed scan, or with an identifier that is none, the database is not asked.\<close>

definition findings_program :: "bool \<Rightarrow> instr list" where
  "findings_program scanned = guarded State_mu [Work] @ (if scanned then guarded Db_mu [Work] else [])"

definition affected_program :: "bool \<Rightarrow> instr list" where
  "affected_program valid = (if valid then guarded Db_mu [Work] else [])"

datatype request = Ping | Status_request | Scan_request nat | Findings_request bool | Affected_request bool | Dump_request

definition request_program :: "fault \<Rightarrow> request \<Rightarrow> instr list" where
  "request_program flt r = watched (log_call @
     (case r of Ping \<Rightarrow> [] | Status_request \<Rightarrow> status_program flt | Scan_request k \<Rightarrow> scan_program k
      | Findings_request b \<Rightarrow> findings_program b | Affected_request b \<Rightarrow> affected_program b | Dump_request \<Rightarrow> [Work]))"

text \<open>Thread 0 is the worker, every other thread serves requests.\<close>

definition agent_starts :: "fault \<Rightarrow> nat \<Rightarrow> instr list \<Rightarrow> bool" where
  "agent_starts flt t p \<longleftrightarrow> (if t = 0 then \<exists>ws. p = worker_program flt ws else \<exists>r. p = request_program flt r)"

lemmas program_defs = guarded_def cv_wait_def log_call_def watched_def run_scan_program_def worker_program_def
  status_program_def scan_program_def findings_program_def affected_program_def request_program_def

interpretation agent_locks: lock_discipline "agent_starts No_fault"
proof
  fix t p
  assume "agent_starts No_fault t p"
  have w: "one_lock None (concat (map (\<lambda>k. guarded (Waiter_mu k) [Work]) ws))" for ws
    by (induction ws) (simp_all add: guarded_def)
  have "one_lock None (worker_program No_fault ws)" for ws
    using one_lock_append [OF w, of "[Lock Watchdog_mu, Work, Unlock Watchdog_mu]" ws] by (simp add: program_defs)
  moreover have "one_lock None (request_program No_fault r)" for r
    by (cases r) (simp_all add: program_defs)
  ultimately show "one_lock None p" using \<open>agent_starts No_fault t p\<close> by (auto simp: agent_starts_def split: if_splits)
qed

section \<open>The property\<close>

text \<open>
  C8: Whatever scans and requests have overlapped in whatever order, no thread of the agent is
  ever deadlocked: from every reachable state each thread can be run to the end of what it is
  doing by letting only threads proceed that are already running.
\<close>

theorem agent_never_deadlocked:
  assumes "(system_step (agent_starts No_fault))\<^sup>*\<^sup>* idle s"
  shows "\<exists>s'. thread_steps s s' \<and> programs s' t = []"
  using assms by (rule agent_locks.never_deadlocked)

theorem agent_never_deadlocked_witness:
  "\<exists>s. thread_steps (advance 0 (worker_program No_fault [7]) (advance 1 (request_program No_fault Status_request) idle)) s \<and>
     programs s 1 = []"
proof -
  let ?R = "system_step (agent_starts No_fault)"
  let ?s = "advance 1 (request_program No_fault Status_request) idle"
  have r1: "?R idle ?s" by (rule system_step.start) (auto simp: idle_def agent_starts_def)
  have r2: "?R ?s (advance 0 (worker_program No_fault [7]) ?s)"
    by (rule system_step.start) (auto simp: idle_def agent_starts_def)
  from agent_never_deadlocked [OF two_steps [OF r1 r2], of 1] show ?thesis .
qed

section \<open>The deadlock fault\<close>

lemma advance_simps [simp]: "advance t p (advance t q s) = advance t p s" "set_owner m x (advance t p s) = advance t p (set_owner m x s)"
  "set_owner m x (set_owner m y s) = set_owner m x s"
  by (simp_all add: advance_def set_owner_def)

lemma advance_same: "advance t (programs s t) s = s"
  by (simp add: advance_def)

lemma set_owner_same: "owner s m = x \<Longrightarrow> set_owner m x s = s"
  by (auto simp: set_owner_def fun_upd_idem)

lemma run_work: "thread_steps (advance t (Work # p) s) (advance t p s)"
  using thread_step.work [of "advance t (Work # p) s" t p] by (auto intro: r_into_rtranclp)

lemma run_lock: "owner s m = None \<Longrightarrow> thread_steps (advance t (Lock m # p) s) (advance t p (set_owner m (Some t) s))"
  using thread_step.lock [of "advance t (Lock m # p) s" t m p] by (auto intro: r_into_rtranclp)

lemma run_unlock: "owner s m = Some t \<Longrightarrow> thread_steps (advance t (Unlock m # p) s) (advance t p (set_owner m None s))"
  using thread_step.unlock [of "advance t (Unlock m # p) s" t m p] by (auto intro: r_into_rtranclp)

text \<open>A block under a free lock runs through, and so does a wait.\<close>

lemma run_guarded:
  assumes "owner s m = None"
  shows "thread_steps (advance t (guarded m [Work] @ p) s) (advance t p s)"
proof -
  have "thread_steps (advance t (guarded m [Work] @ p) s) (advance t (Work # Unlock m # p) (set_owner m (Some t) s))"
    using run_lock [OF assms, of t "Work # Unlock m # p"] by (simp add: guarded_def)
  also have "thread_steps \<dots> (advance t (Unlock m # p) (set_owner m (Some t) s))" by (rule run_work)
  also have "thread_steps \<dots> (advance t p s)"
    using run_unlock [of "set_owner m (Some t) s" m t p] set_owner_same [OF assms] by simp
  finally show ?thesis .
qed

lemma run_cv_wait:
  assumes "owner s m = Some t"
  shows "thread_steps (advance t (cv_wait m @ p) s) (advance t p s)"
proof -
  have "thread_steps (advance t (cv_wait m @ p) s) (advance t (Work # Lock m # p) (set_owner m None s))"
    using run_unlock [OF assms, of "Work # Lock m # p"] by (simp add: cv_wait_def)
  also have "thread_steps \<dots> (advance t (Lock m # p) (set_owner m None s))" by (rule run_work)
  also have "thread_steps \<dots> (advance t p s)"
    using run_lock [of "set_owner m None s" m t p] set_owner_same [OF assms] by simp
  finally show ?thesis .
qed

lemma thread_steps_system: "thread_steps s s' \<Longrightarrow> (system_step starts)\<^sup>*\<^sup>* s s'"
  by (induction rule: rtranclp_induct) (auto intro: system_step.thread rtranclp.rtrancl_into_rtrancl)

text \<open>The worker waits for a lock the request holds, and the request for one the worker holds.\<close>

definition embraced :: "lock_state \<Rightarrow> bool" where
  "embraced s \<longleftrightarrow> owner s Db_mu = Some 0 \<and> owner s State_mu = Some 1 \<and>
     (\<exists>p. programs s 0 = Lock State_mu # p) \<and> (\<exists>p. programs s 1 = Lock Db_mu # p)"

lemma embraced_step:
  assumes "thread_step t s s'" and "embraced s"
  shows "embraced s'"
proof -
  have stuck: "\<not> thread_step u s s'" if "u = 0 \<or> u = 1" for u
    using that assms(2) by (auto simp: embraced_def elim!: thread_step.cases)
  have "t \<noteq> 0 \<and> t \<noteq> 1" using assms(1) stuck [of t] by metis
  with assms(1) show ?thesis by cases (use assms(2) in \<open>auto simp: embraced_def\<close>)
qed

lemma embraced_for_ever: "(system_step starts)\<^sup>*\<^sup>* s s' \<Longrightarrow> embraced s \<Longrightarrow> embraced s'"
proof (induction rule: rtranclp_induct)
  case (step s' s'')
  from step(2) step(3) [OF step(4)] show ?case
    by cases (auto intro: embraced_step, auto simp: embraced_def split: if_splits)
qed

text \<open>The worker up to its second lock, and a status request up to its second lock.\<close>

lemma worker_takes_db:
  assumes "programs s t = worker_program Deadlock ws" and "owner s = (\<lambda>_. None)"
  shows "\<exists>p. thread_steps s (advance t (Lock State_mu # p) (set_owner Db_mu (Some t) s))"
proof -
  define p where "p = [Work, Unlock State_mu, Unlock Db_mu] @ log_call @ [Work] @ log_call @ guarded Listeners_mu [Work] @
       concat (map (\<lambda>k. guarded (Waiter_mu k) [Work]) ws) @ guarded Watchdog_mu [Work]"
  let ?q = "Work # Lock Db_mu # Work # Lock State_mu # p"
  have prog: "worker_program Deadlock ws = Lock Wake_mu # cv_wait Wake_mu @ Work # Unlock Wake_mu # guarded Watchdog_mu [Work] @ ?q"
    by (simp add: program_defs p_def)
  let ?w = "set_owner Wake_mu (Some t) s"
  let ?q1 = "guarded Watchdog_mu [Work] @ ?q"
  have "thread_steps (advance t (programs s t) s) (advance t (cv_wait Wake_mu @ Work # Unlock Wake_mu # ?q1) ?w)"
    unfolding assms(1) prog by (rule run_lock) (simp add: assms(2))
  also have "thread_steps \<dots> (advance t (Work # Unlock Wake_mu # ?q1) ?w)" by (rule run_cv_wait) simp
  also have "thread_steps \<dots> (advance t (Unlock Wake_mu # ?q1) ?w)" by (rule run_work)
  also have "thread_steps \<dots> (advance t ?q1 s)"
    using run_unlock [of ?w Wake_mu t ?q1] assms(2) by (simp add: set_owner_same)
  also have "thread_steps \<dots> (advance t ?q s)" by (rule run_guarded) (simp add: assms(2))
  also have "thread_steps \<dots> (advance t (Lock Db_mu # Work # Lock State_mu # p) s)" by (rule run_work)
  also have "thread_steps \<dots> (advance t (Work # Lock State_mu # p) (set_owner Db_mu (Some t) s))"
    by (rule run_lock) (simp add: assms(2))
  also have "thread_steps \<dots> (advance t (Lock State_mu # p) (set_owner Db_mu (Some t) s))" by (rule run_work)
  finally show ?thesis unfolding advance_same by blast
qed

lemma status_takes_state:
  assumes "programs s t = request_program Deadlock Status_request"
    and "owner s Watchdog_mu = None" "owner s Log_mu = None" "owner s State_mu = None"
  shows "\<exists>p. thread_steps s (advance t (Lock Db_mu # p) (set_owner State_mu (Some t) s))"
proof -
  define p where "p = [Work, Unlock Db_mu, Unlock State_mu, Work] @ guarded Watchdog_mu [Work]"
  let ?q = "Work # Lock State_mu # Work # Lock Db_mu # p"
  have prog: "request_program Deadlock Status_request = guarded Watchdog_mu [Work] @ guarded Log_mu [Work] @ ?q"
    by (simp add: program_defs p_def)
  have "thread_steps (advance t (programs s t) s) (advance t (guarded Log_mu [Work] @ ?q) s)"
    unfolding assms(1) prog by (rule run_guarded) (rule assms(2))
  also have "thread_steps \<dots> (advance t ?q s)" by (rule run_guarded) (rule assms(3))
  also have "thread_steps \<dots> (advance t (Lock State_mu # Work # Lock Db_mu # p) s)" by (rule run_work)
  also have "thread_steps \<dots> (advance t (Work # Lock Db_mu # p) (set_owner State_mu (Some t) s))" by (rule run_lock) (rule assms(4))
  also have "thread_steps \<dots> (advance t (Lock Db_mu # p) (set_owner State_mu (Some t) s))" by (rule run_work)
  finally show ?thesis unfolding advance_same by blast
qed

lemma deadlock_fault_blocks:
  "\<exists>s. (system_step (agent_starts Deadlock))\<^sup>*\<^sup>* idle s \<and>
     (\<forall>s'. (system_step (agent_starts Deadlock))\<^sup>*\<^sup>* s s' \<longrightarrow> programs s' 0 \<noteq> [] \<and> programs s' 1 \<noteq> [])"
proof -
  let ?R = "system_step (agent_starts Deadlock)"
  let ?s1 = "advance 1 (request_program Deadlock Status_request) idle"
  let ?s2 = "advance 0 (worker_program Deadlock []) ?s1"
  have r: "?R idle ?s1" "?R ?s1 ?s2"
    by (rule system_step.start, auto simp: idle_def agent_starts_def)+
  obtain p where p: "thread_steps ?s2 (advance 0 (Lock State_mu # p) (set_owner Db_mu (Some 0) ?s2))"
    using worker_takes_db [of ?s2 0 "[]"] by (auto simp: idle_def)
  let ?s3 = "advance 0 (Lock State_mu # p) (set_owner Db_mu (Some 0) ?s2)"
  obtain q where q: "thread_steps ?s3 (advance 1 (Lock Db_mu # q) (set_owner State_mu (Some 1) ?s3))"
    using status_takes_state [of ?s3 1] by (auto simp: idle_def)
  have "?R\<^sup>*\<^sup>* idle ?s2" by (rule two_steps [OF r])
  from rtranclp_trans [OF rtranclp_trans [OF this thread_steps_system [OF p]] thread_steps_system [OF q]]
  have "?R\<^sup>*\<^sup>* idle (advance 1 (Lock Db_mu # q) (set_owner State_mu (Some 1) ?s3))" .
  moreover have e: "embraced (advance 1 (Lock Db_mu # q) (set_owner State_mu (Some 1) ?s3))" by (simp add: embraced_def)
  have "programs s' 0 \<noteq> [] \<and> programs s' 1 \<noteq> []"
    if "?R\<^sup>*\<^sup>* (advance 1 (Lock Db_mu # q) (set_owner State_mu (Some 1) ?s3)) s'" for s'
    using embraced_for_ever [OF that e] by (auto simp: embraced_def)
  ultimately show ?thesis by blast
qed

end
