(* ===== verification/Db.thy ===== *)
theory Db
  imports Agent
begin

text \<open>
  The database client of \<^verbatim>\<open>src/src/db_odbc.cpp\<close> over the tables of \<^verbatim>\<open>src/tools/db/schema.sql\<close>: recording a
  scan in one transaction and the two queries. Every call to the driver may fail with an error
  text, decided by an argument, as are identity values. Statements have the meaning of their SQL
  text; what that leaves to the server and its column types is the record \<open>server\<close>.
\<close>

section \<open>Tables\<close>

record host_row =
  host_id :: "64 word"
  h_hostname :: string
  h_os_name :: string
  h_os_version :: string
  last_seen :: "64 word"
  latest_scan_id :: "64 word option"

record scan_row =
  s_scan_id :: "64 word"
  s_host_id :: "64 word"
  collected_at :: "64 word"
  s_agent_version :: string
  package_count :: nat
  finding_count :: nat

record package_row =
  p_scan_id :: "64 word"
  package_id :: nat
  p_name :: string
  p_version :: string
  p_vendor :: string
  p_source :: string

record finding_entry =
  f_scan_id :: "64 word"
  f_cve_id :: string
  f_package_name :: string
  f_package_version :: string
  f_cvss :: cdouble
  f_severity :: string
  f_exposed :: bool

record db_tables =
  hosts_t :: "host_row list"
  scans_t :: "scan_row list"
  packages_t :: "package_row list"
  findings_t :: "finding_entry list"

text \<open>
  What a score, a Unicode text and a byte text become when stored and read again, the equality and
  order of texts under the collation, and the sorting of a result.
\<close>

record server =
  score_column :: "cdouble \<Rightarrow> cdouble"
  text_column :: "string \<Rightarrow> string"
  char_column :: "string \<Rightarrow> string"
  same_text :: "string \<Rightarrow> string \<Rightarrow> bool"
  text_less :: "string \<Rightarrow> string \<Rightarrow> bool"
  sort_rows :: "(finding_row \<Rightarrow> finding_row \<Rightarrow> bool) \<Rightarrow> finding_row list \<Rightarrow> finding_row list"

section \<open>Transactions\<close>

text \<open>The working copy, the number of driver calls made, and the identifier of the scan.\<close>

record tx =
  work :: db_tables
  calls :: nat
  tx_scan_id :: "64 word"

type_synonym 'a db_m = "tx \<Rightarrow> (string + 'a) \<times> tx"

definition tx_bind :: "'a db_m \<Rightarrow> ('a \<Rightarrow> 'b db_m) \<Rightarrow> 'b db_m" where
  "tx_bind m f t = (case m t of (Inl e, t') \<Rightarrow> (Inl e, t') | (Inr x, t') \<Rightarrow> f x t')"

definition tx_return :: "'a \<Rightarrow> 'a db_m" where
  "tx_return x t = (Inr x, t)"

text \<open>One call of the driver; its error text is prefixed with what was attempted.\<close>

definition driver :: "(nat \<Rightarrow> string option) \<Rightarrow> string \<Rightarrow> unit db_m" where
  "driver fails what t =
     (case fails (calls t) of
        Some e \<Rightarrow> (Inl (what @ e), t\<lparr>calls := calls t + 1\<rparr>)
      | None \<Rightarrow> (Inr (), t\<lparr>calls := calls t + 1\<rparr>))"

text \<open>A result row that cannot be fetched leaves no error text.\<close>

definition fetch_i64 :: "(nat \<Rightarrow> string option) \<Rightarrow> string \<Rightarrow> unit db_m" where
  "fetch_i64 fails what t =
     (case fails (calls t) of
        Some _ \<Rightarrow> (Inl what, t\<lparr>calls := calls t + 1\<rparr>)
      | None \<Rightarrow> (Inr (), t\<lparr>calls := calls t + 1\<rparr>))"

definition alter :: "(db_tables \<Rightarrow> db_tables) \<Rightarrow> unit db_m" where
  "alter f t = (Inr (), t\<lparr>work := f (work t)\<rparr>)"

text \<open>A prepared statement that is executed once, and one executed for each row.\<close>

definition statement :: "(nat \<Rightarrow> string option) \<Rightarrow> string \<Rightarrow> (db_tables \<Rightarrow> db_tables) \<Rightarrow> unit db_m" where
  "statement fails what f =
     tx_bind (driver fails ''prepare: '') (\<lambda>_. tx_bind (driver fails what) (\<lambda>_. alter f))"

fun execute_rows :: "(nat \<Rightarrow> string option) \<Rightarrow> string \<Rightarrow> ('r \<Rightarrow> db_tables \<Rightarrow> db_tables) \<Rightarrow> 'r list \<Rightarrow> unit db_m" where
  "execute_rows fails what ins [] = tx_return ()"
| "execute_rows fails what ins (r # rs) =
     tx_bind (driver fails what) (\<lambda>_. tx_bind (alter (ins r)) (\<lambda>_. execute_rows fails what ins rs))"

section \<open>Recording a scan\<close>

definition is_host :: "server \<Rightarrow> string \<Rightarrow> host_row \<Rightarrow> bool" where
  "is_host sv nm h = same_text sv (h_hostname h) (text_column sv nm)"

definition update_host :: "server \<Rightarrow> 64 word \<Rightarrow> inventory \<Rightarrow> db_tables \<Rightarrow> db_tables" where
  "update_host sv now iv db = db\<lparr>hosts_t := map (\<lambda>h. if is_host sv (hostname (host iv)) h
     then h\<lparr>h_os_name := text_column sv (os_name (host iv)), h_os_version := text_column sv (os_version (host iv)), last_seen := now\<rparr>
     else h) (hosts_t db)\<rparr>"

definition insert_host :: "server \<Rightarrow> 64 word \<Rightarrow> 64 word \<Rightarrow> inventory \<Rightarrow> db_tables \<Rightarrow> db_tables" where
  "insert_host sv k now iv db = db\<lparr>hosts_t := hosts_t db @
     [\<lparr>host_id = k, h_hostname = text_column sv (hostname (host iv)), h_os_name = text_column sv (os_name (host iv)),
       h_os_version = text_column sv (os_version (host iv)), last_seen = now, latest_scan_id = None\<rparr>]\<rparr>"

definition host_named :: "server \<Rightarrow> string \<Rightarrow> db_tables \<Rightarrow> host_row option" where
  "host_named sv nm db = List.find (is_host sv nm) (hosts_t db)"

text \<open>The host's identifier, after the row was updated or inserted.\<close>

definition upsert_host :: "(nat \<Rightarrow> string option) \<Rightarrow> server \<Rightarrow> 64 word \<Rightarrow> 64 word \<Rightarrow> inventory \<Rightarrow> 64 word db_m" where
  "upsert_host fails sv now new_host iv =
     tx_bind (statement fails ''host update: '' (update_host sv now iv)) (\<lambda>_.
     tx_bind (fetch_i64 fails ''host update: '') (\<lambda>_ t.
       case host_named sv (hostname (host iv)) (work t) of
         Some h \<Rightarrow> tx_return (host_id h) t
       | None \<Rightarrow>
           tx_bind (statement fails ''host insert: '' (insert_host sv new_host now iv)) (\<lambda>_.
           tx_bind (fetch_i64 fails ''host insert: '') (\<lambda>_. tx_return new_host)) t))"

definition insert_scan :: "server \<Rightarrow> 64 word \<Rightarrow> 64 word \<Rightarrow> inventory \<Rightarrow> finding list \<Rightarrow> db_tables \<Rightarrow> db_tables" where
  "insert_scan sv sid hid iv fs db = db\<lparr>scans_t := scans_t db @
     [\<lparr>s_scan_id = sid, s_host_id = hid, collected_at = collected_at_unix_ms iv, s_agent_version = char_column sv kAgentVersion,
       package_count = length (packages iv), finding_count = length fs\<rparr>]\<rparr>"

definition package_entry :: "server \<Rightarrow> 64 word \<Rightarrow> nat \<times> package \<Rightarrow> package_row" where
  "package_entry sv sid np = (case np of (n, p) \<Rightarrow>
     \<lparr>p_scan_id = sid, package_id = n, p_name = text_column sv (take 400 (pkg_name p)),
      p_version = text_column sv (take 128 (pkg_version p)), p_vendor = text_column sv (take 256 (pkg_vendor p)),
      p_source = char_column sv (take 32 (pkg_source p))\<rparr>)"

definition entry_of :: "server \<Rightarrow> 64 word \<Rightarrow> finding \<Rightarrow> finding_entry" where
  "entry_of sv sid x =
     \<lparr>f_scan_id = sid, f_cve_id = char_column sv (cve_id x), f_package_name = text_column sv (take 400 (package_name x)),
      f_package_version = text_column sv (take 128 (package_version x)), f_cvss = score_column sv (cvss_score x),
      f_severity = char_column sv (if cvss_severity x = [] then ''NONE'' else cvss_severity x), f_exposed = network_exposed x\<rparr>"

definition insert_package :: "server \<Rightarrow> 64 word \<Rightarrow> nat \<times> package \<Rightarrow> db_tables \<Rightarrow> db_tables" where
  "insert_package sv sid np db = db\<lparr>packages_t := packages_t db @ [package_entry sv sid np]\<rparr>"

definition insert_finding :: "server \<Rightarrow> 64 word \<Rightarrow> finding \<Rightarrow> db_tables \<Rightarrow> db_tables" where
  "insert_finding sv sid x db = db\<lparr>findings_t := findings_t db @ [entry_of sv sid x]\<rparr>"

definition set_latest :: "64 word \<Rightarrow> 64 word \<Rightarrow> db_tables \<Rightarrow> db_tables" where
  "set_latest sid hid db = db\<lparr>hosts_t := map (\<lambda>h. if host_id h = hid then h\<lparr>latest_scan_id := Some sid\<rparr> else h) (hosts_t db)\<rparr>"

definition record_tx ::
  "(nat \<Rightarrow> string option) \<Rightarrow> server \<Rightarrow> 64 word \<Rightarrow> 64 word \<Rightarrow> 64 word \<Rightarrow> inventory \<Rightarrow> finding list \<Rightarrow> unit db_m" where
  "record_tx fails sv now new_host new_scan iv fs =
     tx_bind (upsert_host fails sv now new_host iv) (\<lambda>hid.
     tx_bind (statement fails ''scan insert: '' (insert_scan sv new_scan hid iv fs)) (\<lambda>_.
     tx_bind (fetch_i64 fails ''scan insert: '') (\<lambda>_.
     tx_bind (\<lambda>t. (Inr (), t\<lparr>tx_scan_id := new_scan\<rparr>)) (\<lambda>_.
     tx_bind (driver fails ''prepare: '') (\<lambda>_.
     tx_bind (execute_rows fails ''package insert: '' (insert_package sv new_scan) (enumerate 0 (packages iv))) (\<lambda>_.
     tx_bind (driver fails ''prepare: '') (\<lambda>_.
     tx_bind (execute_rows fails ''finding insert: '' (insert_finding sv new_scan) fs) (\<lambda>_.
     tx_bind (statement fails ''latest_scan_id: '' (set_latest new_scan hid)) (\<lambda>_.
     driver fails ''commit: '')))))))))"

text \<open>
  The error or nothing, what the caller's identifier holds afterwards, and the tables others see:
  a failure rolls back.
\<close>

definition record_scan ::
  "bool \<Rightarrow> (nat \<Rightarrow> string option) \<Rightarrow> server \<Rightarrow> 64 word \<Rightarrow> 64 word \<Rightarrow> 64 word \<Rightarrow> inventory \<Rightarrow> finding list \<Rightarrow>
     64 word \<Rightarrow> db_tables \<Rightarrow> string option \<times> 64 word \<times> db_tables" where
  "record_scan conn fails sv now new_host new_scan iv fs sid db =
     (if \<not> conn then (Some ''not connected'', sid, db)
      else case record_tx fails sv now new_host new_scan iv fs \<lparr>work = db, calls = 0, tx_scan_id = sid\<rparr> of
        (Inl e, t) \<Rightarrow> (Some e, tx_scan_id t, db)
      | (Inr _, t) \<Rightarrow> (None, tx_scan_id t, work t))"

section \<open>Queries\<close>

definition row_of :: "host_row \<Rightarrow> finding_entry \<Rightarrow> finding_row" where
  "row_of h f = \<lparr>fr_hostname = h_hostname h, fr_cve_id = f_cve_id f, fr_package = f_package_name f,
     fr_version = f_package_version f, fr_cvss = f_cvss f, fr_severity = f_severity f, fr_exposed = f_exposed f,
     fr_scan_id = f_scan_id f\<rparr>"

text \<open>Fetching ends with the last row or with the first that fails, without a difference to the caller.\<close>

fun read_rows :: "(nat \<Rightarrow> string option) \<Rightarrow> nat \<Rightarrow> finding_row list \<Rightarrow> finding_row list" where
  "read_rows fails k [] = []"
| "read_rows fails k (r # rs) = (if fails k = None then r # read_rows fails (Suc k) rs else [])"

definition query :: "bool \<Rightarrow> (nat \<Rightarrow> string option) \<Rightarrow> finding_row list \<Rightarrow> string + finding_row list" where
  "query conn fails rows =
     (if \<not> conn then Inl ''not connected''
      else case fails 0 of Some e \<Rightarrow> Inl (''prepare: '' @ e)
      | None \<Rightarrow> (case fails 1 of Some e \<Rightarrow> Inl e | None \<Rightarrow> Inr (read_rows fails 2 rows)))"

definition worse_row :: "server \<Rightarrow> finding_row \<Rightarrow> finding_row \<Rightarrow> bool" where
  "worse_row sv a b \<longleftrightarrow> dless (fr_cvss b) (fr_cvss a) \<or>
     (deq (fr_cvss a) (fr_cvss b) \<and> text_less sv (fr_cve_id a) (fr_cve_id b))"

definition host_findings ::
  "bool \<Rightarrow> (nat \<Rightarrow> string option) \<Rightarrow> server \<Rightarrow> string \<Rightarrow> cdouble \<Rightarrow> nat \<Rightarrow> db_tables \<Rightarrow> string + finding_row list" where
  "host_findings conn fails sv nm min_cvss limit db =
     query conn fails (take limit (sort_rows sv (worse_row sv)
       (concat (map (\<lambda>h. map (row_of h) (filter (\<lambda>f. latest_scan_id h = Some (f_scan_id f) \<and> dle min_cvss (f_cvss f)) (findings_t db)))
          (filter (is_host sv nm) (hosts_t db))))))"

definition hosts_affected ::
  "bool \<Rightarrow> (nat \<Rightarrow> string option) \<Rightarrow> server \<Rightarrow> string \<Rightarrow> db_tables \<Rightarrow> string + finding_row list" where
  "hosts_affected conn fails sv cve db =
     query conn fails (sort_rows sv (\<lambda>a b. text_less sv (fr_hostname a) (fr_hostname b))
       (concat (map (\<lambda>f. map (\<lambda>h. row_of h f) (filter (\<lambda>h. latest_scan_id h = Some (f_scan_id f)) (hosts_t db)))
          (filter (\<lambda>f. same_text sv (f_cve_id f) (char_column sv cve)) (findings_t db)))))"

text \<open>The client as the agent's database, with the tables as they are.\<close>

definition sql_database ::
  "string option \<Rightarrow> (nat \<Rightarrow> string option) \<Rightarrow> server \<Rightarrow> 64 word \<Rightarrow> 64 word \<Rightarrow> 64 word \<Rightarrow> db_tables \<Rightarrow> database" where
  "sql_database connecting fails sv now new_host new_scan db =
     \<lparr>connect_result = connecting,
      record_result = (\<lambda>iv fs sid. case record_scan True fails sv now new_host new_scan iv fs sid db of (e, sid', _) \<Rightarrow> (e, sid')),
      host_result = (\<lambda>nm c n. host_findings True fails sv nm c (nat n) db),
      affected_result = (\<lambda>cve. hosts_affected True fails sv cve db)\<rparr>"

end
