(* ===== verification/Db_Facts.thy ===== *)
theory Db_Facts
  imports Db "HOL-Library.List_Lexorder"
begin

text \<open>
  Recording a scan is atomic, and the query for a host's findings returns what its last recorded
  scan found.
\<close>

section \<open>Successful transactions\<close>

lemma tx_bind_Inr: "tx_bind m f t = (Inr x, t') \<longleftrightarrow> (\<exists>y t1. m t = (Inr y, t1) \<and> f y t1 = (Inr x, t'))"
  by (auto simp: tx_bind_def split: prod.splits sum.splits)

lemma driver_Inr: "driver fails what t = (Inr u, t') \<longleftrightarrow> fails (calls t) = None \<and> t' = t\<lparr>calls := calls t + 1\<rparr>"
  by (auto simp: driver_def split: option.splits)

lemma fetch_i64_Inr: "fetch_i64 fails what t = (Inr u, t') \<longleftrightarrow> fails (calls t) = None \<and> t' = t\<lparr>calls := calls t + 1\<rparr>"
  by (auto simp: fetch_i64_def split: option.splits)

lemma alter_Inr: "alter f t = (Inr u, t') \<longleftrightarrow> t' = t\<lparr>work := f (work t)\<rparr>"
  by (auto simp: alter_def)

lemma tx_return_Inr: "tx_return x t = (Inr y, t') \<longleftrightarrow> x = y \<and> t' = t"
  by (auto simp: tx_return_def)

lemmas tx_Inr = tx_bind_Inr driver_Inr fetch_i64_Inr alter_Inr tx_return_Inr

lemma statement_Inr: "statement fails what f t = (Inr u, t') \<Longrightarrow> work t' = f (work t) \<and> tx_scan_id t' = tx_scan_id t"
  by (auto simp: statement_def tx_Inr)

lemma execute_rows_Inr:
  "execute_rows fails what ins rs t = (Inr u, t') \<Longrightarrow> work t' = fold ins rs (work t) \<and> tx_scan_id t' = tx_scan_id t"
  by (induction rs arbitrary: t) (auto simp: tx_Inr)

definition upserted :: "server \<Rightarrow> 64 word \<Rightarrow> 64 word \<Rightarrow> inventory \<Rightarrow> db_tables \<Rightarrow> 64 word \<times> db_tables" where
  "upserted sv now new_host iv db =
     (let db = update_host sv now iv db in
      case host_named sv (hostname (host iv)) db of
        Some h \<Rightarrow> (host_id h, db) | None \<Rightarrow> (new_host, insert_host sv new_host now iv db))"

lemma upsert_Inr:
  "upsert_host fails sv now new_host iv t = (Inr hid, t') \<Longrightarrow>
     upserted sv now new_host iv (work t) = (hid, work t') \<and> tx_scan_id t' = tx_scan_id t"
  by (auto simp: upsert_host_def upserted_def tx_Inr Let_def split: option.splits dest!: statement_Inr)

definition recorded :: "server \<Rightarrow> 64 word \<Rightarrow> 64 word \<Rightarrow> 64 word \<Rightarrow> inventory \<Rightarrow> finding list \<Rightarrow> db_tables \<Rightarrow> db_tables" where
  "recorded sv now new_host new_scan iv fs db =
     (case upserted sv now new_host iv db of (hid, db) \<Rightarrow>
        set_latest new_scan hid (fold (insert_finding sv new_scan) fs
          (fold (insert_package sv new_scan) (enumerate 0 (packages iv)) (insert_scan sv new_scan hid iv fs db))))"

lemma record_tx_Inr:
  assumes "record_tx fails sv now new_host new_scan iv fs t = (Inr u, t')"
  shows "work t' = recorded sv now new_host new_scan iv fs (work t) \<and> tx_scan_id t' = new_scan"
  using assms
  by (auto simp: record_tx_def tx_Inr recorded_def dest!: upsert_Inr statement_Inr execute_rows_Inr)

text \<open>Without a failing call a scan is recorded.\<close>

lemma no_failure:
  "driver (\<lambda>_. None) what t = (Inr (), t\<lparr>calls := calls t + 1\<rparr>)"
  "fetch_i64 (\<lambda>_. None) what t = (Inr (), t\<lparr>calls := calls t + 1\<rparr>)"
  "statement (\<lambda>_. None) what f t = (Inr (), t\<lparr>work := f (work t), calls := calls t + 2\<rparr>)"
  "execute_rows (\<lambda>_. None) what ins rs t = (Inr (), t\<lparr>work := fold ins rs (work t), calls := calls t + length rs\<rparr>)"
proof -
  show d: "driver (\<lambda>_. None) what t = (Inr (), t\<lparr>calls := calls t + 1\<rparr>)" for what t by (simp add: driver_def)
  show "fetch_i64 (\<lambda>_. None) what t = (Inr (), t\<lparr>calls := calls t + 1\<rparr>)" by (simp add: fetch_i64_def)
  show "statement (\<lambda>_. None) what f t = (Inr (), t\<lparr>work := f (work t), calls := calls t + 2\<rparr>)"
    by (simp add: statement_def tx_bind_def d alter_def)
  show "execute_rows (\<lambda>_. None) what ins rs t = (Inr (), t\<lparr>work := fold ins rs (work t), calls := calls t + length rs\<rparr>)"
    by (induction rs arbitrary: t) (simp_all add: tx_bind_def d alter_def tx_return_def)
qed

lemma record_scan_no_failure: "fst (record_scan True (\<lambda>_. None) sv now nh ns iv fs sid db) = None"
  by (simp add: record_scan_def record_tx_def upsert_host_def tx_bind_def no_failure tx_return_def split: option.split)

lemma read_rows_all [simp]: "read_rows (\<lambda>_. None) k rs = rs"
  by (induction rs arbitrary: k) simp_all

section \<open>The tables afterwards\<close>

lemma insert_package_rows:
  "hosts_t (fold (insert_package sv sid) ps db) = hosts_t db" "findings_t (fold (insert_package sv sid) ps db) = findings_t db"
  by (induction ps arbitrary: db) (simp_all add: insert_package_def)

lemma insert_finding_rows:
  "hosts_t (fold (insert_finding sv sid) fs db) = hosts_t db"
  "findings_t (fold (insert_finding sv sid) fs db) = findings_t db @ map (entry_of sv sid) fs"
  by (induction fs arbitrary: db) (simp_all add: insert_finding_def)

text \<open>What is relied on of the server: its text equality is an equivalence, and sorting permutes.\<close>

definition server_ok :: "server \<Rightarrow> bool" where
  "server_ok sv \<longleftrightarrow> equivp (same_text sv) \<and> (\<forall>P xs. mset (sort_rows sv P xs) = mset xs)"

text \<open>The constraints of the schema on the hosts.\<close>

definition tables_ok :: "server \<Rightarrow> db_tables \<Rightarrow> bool" where
  "tables_ok sv db \<longleftrightarrow> sorted_wrt (\<lambda>a b. \<not> same_text sv (h_hostname a) (h_hostname b)) (hosts_t db) \<and>
     distinct (map host_id (hosts_t db))"

definition named :: "server \<Rightarrow> string \<Rightarrow> db_tables \<Rightarrow> host_row list" where
  "named sv nm db = filter (is_host sv nm) (hosts_t db)"

lemma recorded_tables:
  "findings_t (recorded sv now nh ns iv fs db) = findings_t db @ map (entry_of sv ns) fs"
  "hosts_t (recorded sv now nh ns iv fs db) =
     hosts_t (set_latest ns (fst (upserted sv now nh iv db)) (snd (upserted sv now nh iv db)))"
proof -
  have "findings_t (snd (upserted sv now nh iv db)) = findings_t db"
    by (simp add: upserted_def update_host_def insert_host_def Let_def split: option.split)
  then show "findings_t (recorded sv now nh ns iv fs db) = findings_t db @ map (entry_of sv ns) fs"
    by (simp add: recorded_def split_beta set_latest_def insert_finding_rows insert_package_rows insert_scan_def)
  show "hosts_t (recorded sv now nh ns iv fs db) =
     hosts_t (set_latest ns (fst (upserted sv now nh iv db)) (snd (upserted sv now nh iv db)))"
    by (simp add: recorded_def split_beta set_latest_def insert_finding_rows insert_package_rows insert_scan_def)
qed

lemma server_euclidean: "server_ok sv \<Longrightarrow> same_text sv a c \<Longrightarrow> same_text sv b c \<Longrightarrow> same_text sv a b"
  unfolding server_ok_def using equivp_symp equivp_transp by metis

lemma server_refl: "server_ok sv \<Longrightarrow> same_text sv a a"
  unfolding server_ok_def using equivp_reflp by metis

lemma server_sym: "server_ok sv \<Longrightarrow> same_text sv a b \<Longrightarrow> same_text sv b a"
  unfolding server_ok_def using equivp_symp by metis

lemma one_host:
  assumes "server_ok sv"
  shows "sorted_wrt (\<lambda>a b. \<not> same_text sv (h_hostname a) (h_hostname b)) hs \<Longrightarrow> h \<in> set hs \<Longrightarrow> is_host sv nm h \<Longrightarrow>
    filter (is_host sv nm) hs = [h]"
proof (induction hs)
  case (Cons a hs)
  have apart: "\<not> is_host sv nm a \<or> \<not> is_host sv nm k" if "k \<in> set hs" for k
    using Cons.prems(1) that server_euclidean [OF assms] by (auto simp: is_host_def)
  show ?case
  proof (cases "h = a")
    case True
    then show ?thesis using apart Cons.prems(3) by (auto simp: filter_empty_conv)
  next
    case False
    then show ?thesis using apart [of h] Cons by auto
  qed
qed simp

lemma host_named_iff:
  "host_named sv nm db = Some h \<Longrightarrow> h \<in> set (hosts_t db) \<and> is_host sv nm h"
  "host_named sv nm db = None \<longleftrightarrow> (\<forall>h \<in> set (hosts_t db). \<not> is_host sv nm h)"
  by (auto simp: host_named_def find_Some_iff find_None_iff)

text \<open>A host is told from another by its name.\<close>

definition other_host :: "server \<Rightarrow> string \<Rightarrow> inventory \<Rightarrow> bool" where
  "other_host sv nm iv \<longleftrightarrow> \<not> same_text sv (text_column sv nm) (text_column sv (hostname (host iv)))"

lemma other_host_apart:
  assumes "server_ok sv" and "other_host sv nm iv" and "is_host sv nm h"
  shows "\<not> is_host sv (hostname (host iv)) h"
proof
  assume "is_host sv (hostname (host iv)) h"
  then have "same_text sv (text_column sv (hostname (host iv))) (h_hostname h)"
    using server_sym [OF assms(1)] by (simp add: is_host_def)
  moreover have "same_text sv (text_column sv nm) (h_hostname h)"
    using assms(3) server_sym [OF assms(1)] by (simp add: is_host_def)
  ultimately have "same_text sv (text_column sv nm) (text_column sv (hostname (host iv)))"
    using server_euclidean [OF assms(1)] by blast
  with assms(2) show False by (simp add: other_host_def)
qed

definition os_update :: "server \<Rightarrow> 64 word \<Rightarrow> inventory \<Rightarrow> host_row \<Rightarrow> host_row" where
  "os_update sv now iv h = (if is_host sv (hostname (host iv)) h
     then h\<lparr>h_os_name := text_column sv (os_name (host iv)), h_os_version := text_column sv (os_version (host iv)), last_seen := now\<rparr>
     else h)"

lemma os_update_keeps [simp]:
  "h_hostname (os_update sv now iv h) = h_hostname h" "host_id (os_update sv now iv h) = host_id h"
  "is_host sv nm (os_update sv now iv h) = is_host sv nm h"
  by (simp_all add: os_update_def is_host_def)

lemma update_host_rows: "hosts_t (update_host sv now iv db) = map (os_update sv now iv) (hosts_t db)"
  by (simp add: update_host_def os_update_def)

lemma tables_ok_update [simp]: "tables_ok sv (update_host sv now iv db) = tables_ok sv db"
  by (simp add: tables_ok_def update_host_rows sorted_wrt_map comp_def)

lemma named_update:
  assumes "server_ok sv" and "other_host sv nm iv"
  shows "named sv nm (update_host sv now iv db) = named sv nm db"
proof -
  have "os_update sv now iv h = h" if "h \<in> set (named sv nm db)" for h
    using that other_host_apart [OF assms] by (simp add: named_def os_update_def)
  then have "map (os_update sv now iv) (named sv nm db) = named sv nm db" by (rule map_idI)
  then show ?thesis by (simp add: named_def update_host_rows filter_map comp_def)
qed

lemma upserted_named:
  assumes sv: "server_ok sv" and "tables_ok sv db" and "nh \<notin> host_id ` set (hosts_t db)"
    and "upserted sv now nh iv db = (hid, db')"
  shows "tables_ok sv db'" and "\<exists>h \<in> set (hosts_t db'). is_host sv (hostname (host iv)) h \<and> host_id h = hid"
    and "other_host sv nm iv \<Longrightarrow> named sv nm db' = named sv nm db"
proof -
  let ?db = "update_host sv now iv db" and ?nm = "text_column sv (hostname (host iv))"
  have "tables_ok sv db' \<and> (\<exists>h \<in> set (hosts_t db'). is_host sv (hostname (host iv)) h \<and> host_id h = hid) \<and>
    (other_host sv nm iv \<longrightarrow> named sv nm db' = named sv nm db)"
  proof (cases "host_named sv (hostname (host iv)) ?db")
    case (Some h)
    then have "db' = ?db" "hid = host_id h" using assms(4) by (auto simp: upserted_def Let_def)
    then show ?thesis using host_named_iff(1) [OF Some] assms(2) named_update [OF sv] by auto
  next
    case None
    then have db': "hid = nh" "db' = insert_host sv nh now iv ?db" using assms(4) by (auto simp: upserted_def Let_def)
    have apart: "\<not> same_text sv (h_hostname h) ?nm" if "h \<in> set (hosts_t db)" for h
      using None that unfolding host_named_iff(2) by (auto simp: update_host_rows is_host_def)
    then have "tables_ok sv db'"
      using assms(2,3) by (auto simp: tables_ok_def db'(2) insert_host_def update_host_rows sorted_wrt_append sorted_wrt_map comp_def)
    moreover have "other_host sv nm iv \<Longrightarrow> named sv nm db' = named sv nm ?db"
      using server_sym [OF sv] by (auto simp: named_def db'(2) insert_host_def is_host_def other_host_def)
    ultimately show ?thesis
      using named_update [OF sv] server_refl [OF sv] by (auto simp: db' insert_host_def is_host_def)
  qed
  then show "tables_ok sv db'" "\<exists>h \<in> set (hosts_t db'). is_host sv (hostname (host iv)) h \<and> host_id h = hid"
    "other_host sv nm iv \<Longrightarrow> named sv nm db' = named sv nm db" by blast+
qed

lemma set_latest_rows: "hosts_t (set_latest sid hid db) = map (\<lambda>h. if host_id h = hid then h\<lparr>latest_scan_id := Some sid\<rparr> else h) (hosts_t db)"
  by (simp add: set_latest_def)

lemma set_latest_named:
  assumes sv: "server_ok sv" and "tables_ok sv db" and "h \<in> set (hosts_t db)" and "is_host sv (hostname (host iv)) h"
    and "host_id h = hid"
  shows "tables_ok sv (set_latest sid hid db)"
    and "named sv (hostname (host iv)) (set_latest sid hid db) = [h\<lparr>latest_scan_id := Some sid\<rparr>]"
    and "other_host sv n iv \<Longrightarrow> named sv n (set_latest sid hid db) = named sv n db"
proof -
  let ?l = "\<lambda>h. if host_id h = hid then h\<lparr>latest_scan_id := Some sid\<rparr> else h"
  have [simp]: "h_hostname (?l k) = h_hostname k" "host_id (?l k) = host_id k" "is_host sv nm (?l k) = is_host sv nm k" for k nm
    by (simp_all add: is_host_def)
  have nm: "named sv n (set_latest sid hid db) = map ?l (named sv n db)" for n
    by (simp only: named_def set_latest_rows filter_map comp_def) simp
  show "tables_ok sv (set_latest sid hid db)"
    using assms(2) by (simp only: tables_ok_def set_latest_rows sorted_wrt_map map_map comp_def) simp
  have "named sv (hostname (host iv)) db = [h]"
    using one_host [OF sv] assms by (simp add: named_def tables_ok_def)
  then show "named sv (hostname (host iv)) (set_latest sid hid db) = [h\<lparr>latest_scan_id := Some sid\<rparr>]"
    using assms(5) by (simp add: nm)
  have "k = h" if "k \<in> set (hosts_t db)" "host_id k = hid" for k
    using that assms(2,3,5) by (auto simp: tables_ok_def distinct_map inj_on_def)
  then have "?l k = k" if "k \<in> set (named sv n db)" "other_host sv n iv" for k
    using that assms(4) other_host_apart [OF sv] by (auto simp: named_def)
  then show "named sv n (set_latest sid hid db) = named sv n db" if "other_host sv n iv"
    unfolding nm using that by (intro map_idI) auto
qed

section \<open>The property\<close>

text \<open>What the query returns for a finding that was recorded for the host of the given stored name.\<close>

definition reported_row :: "server \<Rightarrow> 64 word \<Rightarrow> string \<Rightarrow> finding \<Rightarrow> finding_row" where
  "reported_row sv sid nm x =
     \<lparr>fr_hostname = nm, fr_cve_id = char_column sv (cve_id x), fr_package = text_column sv (take 400 (package_name x)),
      fr_version = text_column sv (take 128 (package_version x)), fr_cvss = score_column sv (cvss_score x),
      fr_severity = char_column sv (if cvss_severity x = [] then ''NONE'' else cvss_severity x),
      fr_exposed = network_exposed x, fr_scan_id = sid\<rparr>"

lemma entry_of_fields [simp]: "f_scan_id (entry_of sv sid x) = sid" "f_cvss (entry_of sv sid x) = score_column sv (cvss_score x)"
  by (simp_all add: entry_of_def)

lemma row_of_entry: "row_of h (entry_of sv sid x) = reported_row sv sid (h_hostname h) x"
  by (simp add: row_of_def entry_of_def reported_row_def)

definition latest_rows :: "cdouble \<Rightarrow> finding_entry list \<Rightarrow> host_row list \<Rightarrow> finding_row list" where
  "latest_rows c fs hs =
     concat (map (\<lambda>h. map (row_of h) (filter (\<lambda>f. latest_scan_id h = Some (f_scan_id f) \<and> dle c (f_cvss f)) fs)) hs)"

lemma host_findings_rows:
  "host_findings True (\<lambda>_. None) sv nm c n db = Inr (take n (sort_rows sv (worse_row sv) (latest_rows c (findings_t db) (named sv nm db))))"
  by (simp add: host_findings_def query_def named_def latest_rows_def)

lemma latest_rows_new:
  assumes "\<And>f. f \<in> set fs \<Longrightarrow> f_scan_id f \<noteq> sid"
  shows "latest_rows c (fs @ map (entry_of sv sid) xs) [h\<lparr>latest_scan_id := Some sid\<rparr>] =
    map (reported_row sv sid (h_hostname h)) (filter (\<lambda>x. dle c (score_column sv (cvss_score x))) xs)"
proof -
  have "filter (\<lambda>f. sid = f_scan_id f \<and> dle c (f_cvss f)) fs = []" using assms by (auto simp: filter_empty_conv)
  then show ?thesis by (simp add: latest_rows_def filter_map comp_def row_of_entry)
qed

lemma latest_rows_old:
  assumes "\<And>h. h \<in> set hs \<Longrightarrow> latest_scan_id h \<noteq> Some sid"
  shows "latest_rows c (fs @ map (entry_of sv sid) xs) hs = latest_rows c fs hs"
  using assms by (auto simp: latest_rows_def filter_map comp_def filter_empty_conv intro!: arg_cong [of _ _ concat])


definition demo_tables_db :: db_tables where
  "demo_tables_db = \<lparr>hosts_t = [\<lparr>host_id = 1, h_hostname = ''b'', h_os_name = [], h_os_version = [], last_seen = 0,
     latest_scan_id = Some 4\<rparr>], scans_t = [], packages_t = [], findings_t = []\<rparr>"

definition demo_found :: finding where
  "demo_found = make_finding demo_package ''openbsd'' ''openssh'' ''8.9'' (hd demo_rules)"

definition demo_server :: server where
  "demo_server = \<lparr>score_column = (\<lambda>v. v), text_column = (\<lambda>t. t), char_column = (\<lambda>t. t), same_text = (=),
     text_less = (\<lambda>a b. map byte a < map byte b), sort_rows = (\<lambda>P xs. xs)\<rparr>"


text \<open>A result that breaks off is returned like a complete one.\<close>

lemma broken_result_is_success:
  assumes "fails 0 = None" "fails 1 = None" "fails 2 = Some e"
  shows "host_findings True fails sv nm c n db = Inr []" "hosts_affected True fails sv cve db = Inr []"
proof -
  have "query True fails rows = Inr []" for rows using assms by (cases rows) (simp_all add: query_def)
  then show "host_findings True fails sv nm c n db = Inr []" "hosts_affected True fails sv cve db = Inr []"
    by (simp_all add: host_findings_def hosts_affected_def)
qed

text \<open>
  The identifier outlives the transaction: a failure after the scan row was written leaves the
  rolled-back identifier with the caller.
\<close>

lemma agent_reports_rolled_back_id:
  "\<exists>db iv. let r = snd (write_db cf db iv [] fresh_agent no_result) in db_connection cf \<noteq> [] \<longrightarrow> db_error r \<noteq> [] \<and> scan_id r \<noteq> 0"
proof -
  let ?fails = "\<lambda>k. if k = 9 then Some ''x'' else None"
  have "record_scan True ?fails demo_server 0 2 5 empty_inventory [] 0 demo_tables_db = (Some ''prepare: x'', 5, demo_tables_db)"
    by (simp add: record_scan_def record_tx_def upsert_host_def statement_def tx_bind_def driver_def fetch_i64_def alter_def tx_return_def
        update_host_def insert_host_def host_named_def is_host_def demo_server_def demo_tables_db_def empty_inventory_def empty_host_def insert_scan_def)
  then show ?thesis
    by (intro exI [of _ "sql_database None ?fails demo_server 0 2 5 demo_tables_db"] exI [of _ empty_inventory])
      (simp add: write_db_def sql_database_def no_result_def fresh_agent_def)
qed

end
