(* ===== verification/Service.thy ===== *)
theory Service
  imports Drain Db_Facts
begin

text \<open>
  The command \<^verbatim>\<open>run\<close> of \<^verbatim>\<open>src/src/main.cpp\<close>, which joins the agent and the reporter, with the stop
  flag of \<^verbatim>\<open>src/src/service_linux.cpp\<close> and the dialogue with the service manager of
  \<^verbatim>\<open>src/src/service_windows.cpp\<close>; and what it does when started by the command line that
  \<^verbatim>\<open>service install\<close> registers.
\<close>

section \<open>Running\<close>

definition run_config :: "options \<Rightarrow> fault \<Rightarrow> agent_config" where
  "run_config opt flt = \<lparr>ac_index_path = index_path opt, ac_alias_path = alias_path opt, db_connection = opt_db opt,
     ac_interval_s = interval_s opt, ac_hang_timeout_s = hang_timeout_s opt, ac_fault = flt\<rparr>"

text \<open>What reaches the process between two polls of the flag; a broken pipe is ignored.\<close>

datatype service_event = Sigterm | Sigint | Sigpipe | Request_stop

definition handle_signal :: "service_event \<Rightarrow> bool \<Rightarrow> bool" where
  "handle_signal ev g_stop = (g_stop \<or> ev \<noteq> Sigpipe)"

definition stop_requested :: "(nat \<Rightarrow> service_event list) \<Rightarrow> nat \<Rightarrow> bool" where
  "stop_requested evs k = fold handle_signal (concat (map evs [0..<Suc k])) False"

definition linux_install :: "string + unit" where
  "linux_install = Inl ''install the systemd unit from deploy/nano-sensor.service instead''"

definition linux_uninstall :: "string + unit" where
  "linux_uninstall = Inl ''remove the systemd unit with systemctl disable --now nano-sensor''"

text \<open>The stop flag is polled until it is set; nothing while it is not.\<close>

fun wait_for_stop :: "nat \<Rightarrow> (nat \<Rightarrow> bool) \<Rightarrow> nat \<Rightarrow> nat option" where
  "wait_for_stop 0 stop k = None"
| "wait_for_stop (Suc fuel) stop k = (if stop k then Some k else wait_for_stop fuel stop (Suc k))"

text \<open>The body run as a service: exit code and the agent after its stop.\<close>

definition run_agent ::
  "unspecified \<Rightarrow> (string \<Rightarrow> string option) \<Rightarrow> database \<Rightarrow> 64 word \<Rightarrow> bool \<Rightarrow> string option \<Rightarrow> (nat \<Rightarrow> bool) \<Rightarrow> nat \<Rightarrow> agent_config \<Rightarrow>
     (int \<times> agent) option" where
  "run_agent u files db now windows server_error stop fuel cf =
     (case agent_start u cf files db now windows server_error empty_index fresh_agent of
        None \<Rightarrow> Some (1, fresh_agent)
      | Some (ix, ag) \<Rightarrow> map_option (\<lambda>_. (0, agent_stop ag)) (wait_for_stop fuel stop 0))"

section \<open>Under the Windows service manager\<close>

datatype service_state = Service_stopped | Service_start_pending | Service_stop_pending | Service_running

record service_status =
  current_state :: service_state
  win32_exit_code :: nat
  stop_accepted :: bool
  check_point :: "32 word"
  wait_hint :: nat

text \<open>The globals of the file, with the statuses reported so far.\<close>

record scm_state =
  status_handle :: bool
  checkpoint :: "32 word"
  reported :: "service_status list"
  sg_stop :: bool
  g_exit_code :: int

definition fresh_scm :: scm_state where
  "fresh_scm = \<lparr>status_handle = False, checkpoint = 1, reported = [], sg_stop = False, g_exit_code = 0\<rparr>"

definition report_status :: "service_state \<Rightarrow> nat \<Rightarrow> scm_state \<Rightarrow> scm_state" where
  "report_status st hint s =
     (if \<not> status_handle s then s
      else
        let settled = (st = Service_running \<or> st = Service_stopped) in
        s\<lparr>reported := reported s @ [\<lparr>current_state = st, win32_exit_code = 0, stop_accepted = (st = Service_running),
             check_point = (if settled then 0 else checkpoint s), wait_hint = hint\<rparr>],
          checkpoint := (if settled then checkpoint s else checkpoint s + 1)\<rparr>)"

datatype service_control = Control_stop | Control_shutdown | Other_control

definition control_handler :: "service_control \<Rightarrow> scm_state \<Rightarrow> scm_state" where
  "control_handler c s =
     (if c = Other_control then s else (report_status Service_stop_pending 30000 s)\<lparr>sg_stop := True\<rparr>)"

text \<open>\<open>code\<close> is what the body returns, \<open>ctrls\<close> the controls that arrive while it runs.\<close>

definition service_main :: "bool \<Rightarrow> service_control list \<Rightarrow> int \<Rightarrow> scm_state \<Rightarrow> scm_state" where
  "service_main registered ctrls code s =
     (if \<not> registered then s
      else
        let s = report_status Service_running 0 (report_status Service_start_pending 5000 (s\<lparr>status_handle := True\<rparr>));
            s = fold control_handler ctrls s
        in report_status Service_stopped 0 (s\<lparr>g_exit_code := code\<rparr>))"

text \<open>The exit code of the process and what the manager was told; without it, the body runs as it is.\<close>

definition windows_service_run :: "bool \<Rightarrow> bool \<Rightarrow> service_control list \<Rightarrow> int \<Rightarrow> int \<times> service_status list" where
  "windows_service_run dispatched registered ctrls code =
     (if dispatched then let s = service_main registered ctrls code fresh_scm in (g_exit_code s, reported s) else (code, []))"

datatype console_event = Ctrl_c | Ctrl_break | Ctrl_close | Ctrl_logoff | Ctrl_shutdown

definition console_handler :: "console_event \<Rightarrow> bool \<Rightarrow> bool \<times> bool" where
  "console_handler ev g = (if ev = Ctrl_c \<or> ev = Ctrl_break \<or> ev = Ctrl_close then (True, True) else (False, g))"

text \<open>Registration: the manager's answers are arguments.\<close>

datatype sc_action = Sc_restart nat | Sc_none

record registration =
  sr_command :: string
  sr_account :: string
  sr_actions :: "sc_action list"
  sr_reset_period :: nat
  sr_privileges :: "string list"

definition windows_install :: "nat option \<Rightarrow> nat option \<Rightarrow> string \<Rightarrow> string \<Rightarrow> string + registration" where
  "windows_install manager created exe arguments =
     (case manager of Some err \<Rightarrow> Inl (''OpenSCManager failed (Administrator required), error '' @ show_nat err)
      | None \<Rightarrow>
          (case created of
             Some err \<Rightarrow> Inl (if err = 1073 then ''the nano-sensor service is already installed''
                             else ''CreateService failed, error '' @ show_nat err)
           | None \<Rightarrow> Inr \<lparr>sr_command = [DQ] @ exe @ [DQ] @ (if arguments = [] then [] else '' '' @ arguments),
               sr_account = ''NT SERVICE'' @ [BS] @ ''nano-sensor'', sr_actions = [Sc_restart 10000, Sc_restart 30000, Sc_none],
               sr_reset_period = 86400, sr_privileges = [''SeChangeNotifyPrivilege'']\<rparr>))"

definition windows_uninstall :: "nat option \<Rightarrow> bool \<Rightarrow> nat option \<Rightarrow> string + unit" where
  "windows_uninstall manager opened deleted =
     (case manager of Some err \<Rightarrow> Inl (''OpenSCManager failed (Administrator required), error '' @ show_nat err)
      | None \<Rightarrow>
          if \<not> opened then Inl ''the nano-sensor service is not installed''
          else (case deleted of Some err \<Rightarrow> Inl (''DeleteService failed, error '' @ show_nat err) | None \<Rightarrow> Inr ()))"

text \<open>The exit code of the command \<^verbatim>\<open>service\<close>.\<close>

definition service_exit :: "(string \<Rightarrow> string \<Rightarrow> string + 'r) \<Rightarrow> (string + unit) \<Rightarrow> service_outcome \<Rightarrow> int" where
  "service_exit install uninstall oc =
     (case oc of
        Install exe args \<Rightarrow> (case install exe args of Inl _ \<Rightarrow> 1 | Inr _ \<Rightarrow> 0)
      | Uninstall \<Rightarrow> (case uninstall of Inl _ \<Rightarrow> 1 | Inr _ \<Rightarrow> 0)
      | Unknown_action \<Rightarrow> 2)"

section \<open>The command\<close>

text \<open>
  The exit code, or nothing while the service runs. \<open>log_ok\<close> says whether the log file could be
  opened, \<open>init\<close> is the start of the reporter and \<open>body\<close> the run of the agent.
\<close>

definition cmd_run :: "bool \<Rightarrow> (options \<Rightarrow> init_error + reporter) \<Rightarrow> (agent_config \<Rightarrow> int option) \<Rightarrow> options \<Rightarrow> int option" where
  "cmd_run log_ok init body opt =
     (if log_file opt \<noteq> [] \<and> \<not> log_ok then Some 1
      else
        case parse_fault (opt_fault opt) of
          None \<Rightarrow> Some 2
        | Some flt \<Rightarrow>
            if opt_url opt \<noteq> [] then
              (case init opt of Inl _ \<Rightarrow> Some 1 | Inr _ \<Rightarrow> body (run_config opt flt))
            else body (run_config opt flt))"

section \<open>Stopping\<close>

lemma wait_for_stop_stops: "stop (k + n) \<Longrightarrow> n < fuel \<Longrightarrow> \<exists>j \<le> k + n. wait_for_stop fuel stop k = Some j \<and> stop j"
proof (induction fuel arbitrary: k n)
  case (Suc fuel)
  show ?case
  proof (cases "stop k")
    case False
    then obtain m where n: "n = Suc m" using Suc.prems(1) by (cases n) auto
    with Suc.IH [of "Suc k" m] Suc.prems False show ?thesis by auto
  qed auto
qed simp

lemma fold_handle_signal: "fold handle_signal evs g = (g \<or> (\<exists>ev \<in> set evs. ev \<noteq> Sigpipe))"
  by (induction evs arbitrary: g) (auto simp: handle_signal_def)

lemma stop_requested_iff: "stop_requested evs k \<longleftrightarrow> (\<exists>i \<le> k. \<exists>ev \<in> set (evs i). ev \<noteq> Sigpipe)"
  unfolding stop_requested_def fold_handle_signal by (auto simp: less_Suc_eq_le Bex_def simp del: upt_Suc)

text \<open>A stop signal ends the service, with code 0 if the agent had started.\<close>

lemma run_agent_stops:
  assumes "ev \<in> set (evs n)" and "ev \<noteq> Sigpipe" and "n < fuel"
  shows "\<exists>code ag. run_agent u files db now windows server_error (stop_requested evs) fuel cf = Some (code, ag) \<and>
    (code = 0 \<longleftrightarrow> agent_start u cf files db now windows server_error empty_index fresh_agent \<noteq> None) \<and>
    (code = 0 \<longrightarrow> stopping ag)"
proof -
  have "stop_requested evs (0 + n)" using assms(1,2) by (auto simp: stop_requested_iff)
  from wait_for_stop_stops [where stop = "stop_requested evs" and k = 0, OF this assms(3)] show ?thesis
    by (auto simp: run_agent_def agent_stop_def split: option.splits)
qed

text \<open>
  What the manager is told: the pending states come with rising checkpoints, a stop is accepted
  only while running, and every report says that there was no error.
\<close>

lemma report_status_fields:
  "status_handle (report_status st hint s) = status_handle s" "sg_stop (report_status st hint s) = sg_stop s"
  "status_handle (control_handler c s) = status_handle s"
  by (simp_all add: report_status_def control_handler_def Let_def)

definition honest :: "service_status \<Rightarrow> bool" where
  "honest r \<longleftrightarrow> win32_exit_code r = 0 \<and> (stop_accepted r \<longleftrightarrow> current_state r = Service_running)"

lemma report_status_honest: "list_all honest (reported s) \<Longrightarrow> list_all honest (reported (report_status st hint s))"
  by (simp add: report_status_def honest_def Let_def)

lemma control_handler_honest: "list_all honest (reported s) \<Longrightarrow> list_all honest (reported (control_handler c s))"
  by (simp add: control_handler_def report_status_honest)

lemma control_handlers:
  "list_all honest (reported s) \<Longrightarrow> list_all honest (reported (fold control_handler cs s))"
  "status_handle (fold control_handler cs s) = status_handle s"
  by (induction cs arbitrary: s) (simp_all add: control_handler_honest report_status_fields)

lemma windows_run_reports:
  assumes "windows_service_run True True ctrls code = (rc, rs)"
  shows "rc = code \<and> list_all honest rs \<and> current_state (last rs) = Service_stopped"
proof -
  define s0 where "s0 = report_status Service_running 0 (report_status Service_start_pending 5000 (fresh_scm\<lparr>status_handle := True\<rparr>))"
  define s1 where "s1 = (fold control_handler ctrls s0)\<lparr>g_exit_code := code\<rparr>"
  have "list_all honest (reported s0)" unfolding s0_def
    by (intro report_status_honest) (simp add: fresh_scm_def)
  then have h: "list_all honest (reported s1)" using control_handlers(1) [of s0 ctrls] by (simp add: s1_def)
  have "status_handle s1" by (simp add: s1_def control_handlers s0_def report_status_fields)
  moreover have "rs = reported (report_status Service_stopped 0 s1)" "rc = g_exit_code (report_status Service_stopped 0 s1)"
    using assms by (simp_all add: windows_service_run_def service_main_def s1_def s0_def Let_def)
  ultimately show ?thesis using report_status_honest [OF h]
    by (simp add: report_status_def honest_def Let_def) (simp add: s1_def)
qed

lemma reporter_needs_pin: "opt_pin opt = [] \<Longrightarrow> pin_file opt = [] \<Longrightarrow> reporter_init io e files dirs a b opt = Inl Needs_pin"
  by (simp add: reporter_init_def)

section \<open>The properties\<close>

text \<open>
  C40: A service whose agent cannot start looks like one that was stopped in order: the body
  returns 1, but the manager hears of a running and then of a stopped service, each time without
  an error, whatever controls arrive, so the restarts registered for failures do not apply.
\<close>

theorem failed_start_looks_clean:
  assumes "agent_start u cf files db now True server_error empty_index fresh_agent = None"
  shows "\<exists>ag rs. run_agent u files db now True server_error stop fuel cf = Some (1, ag) \<and>
    windows_service_run True True ctrls 1 = (1, rs) \<and> current_state (last rs) = Service_stopped \<and>
    list_all (\<lambda>r. win32_exit_code r = 0) rs"
proof -
  obtain rc rs where r: "windows_service_run True True ctrls 1 = (rc, rs)" by fastforce
  with windows_run_reports [OF r] assms show ?thesis
    by (auto simp: run_agent_def honest_def list_all_iff)
qed

theorem failed_start_looks_clean_witness:
  "\<exists>ag rs. run_agent stable_library (\<lambda>_. None) (sql_database None (\<lambda>_. None) demo_server 0 2 5 demo_tables_db) 0 True None
       (\<lambda>_. True) 1 (run_config default_options No_fault) = Some (1, ag) \<and>
     windows_service_run True True [Control_stop] 1 = (1, rs) \<and> current_state (last rs) = Service_stopped"
  using failed_start_looks_clean [of stable_library "run_config default_options No_fault" "\<lambda>_. None"
      "sql_database None (\<lambda>_. None) demo_server 0 2 5 demo_tables_db" 0 None "\<lambda>_. True" 1 "[Control_stop]"]
  by (auto simp: agent_start_def load_rules_def)

text \<open>
  C39: A service installed with \<^verbatim>\<open>--url\<close> and \<^verbatim>\<open>--pin\<close> does not start: the command line registered for it,
  split by the C runtime and parsed, runs the agent without a pin, and the reporter refuses, so
  the process exits with 1 whatever the log file, the files, the spool and the network are.
\<close>

theorem installed_service_lacks_pin:
  assumes "list_all safe_arg (service_words absolute opt)"
    and "- (2 ^ 31) \<le> interval_s opt" and "interval_s opt < 2 ^ 31"
    and "opt_url opt \<noteq> []" and "pin_file opt = []"
  shows "\<exists>opt'. main_dispatch (windows_argv (service_args absolute opt)) = Cmd_run opt' \<and> opt_url opt' = opt_url opt \<and>
    cmd_run log_ok (reporter_init io e files dirs a b) body opt' = Some 1"
proof -
  have fault: "parse_fault ''none'' = Some No_fault" by (simp add: parse_fault_def)
  have "main_dispatch (windows_argv (service_args absolute opt)) = main_dispatch (service_words absolute opt)"
    using windows_argv_join [OF assms(1)] by (simp add: service_args_words)
  with dispatch_service_words [OF assms(2,3), of absolute] assms(4,5) show ?thesis
    by (auto simp: cmd_run_def fault reporter_needs_pin default_options_def)
qed

theorem installed_service_lacks_pin_witness:
  "\<exists>opt'. main_dispatch (windows_argv (service_args (\<lambda>p. ''C:'' @ [BS] @ p)
        (default_options\<lparr>opt_url := ''https://h'', opt_pin := ''ab''\<rparr>))) = Cmd_run opt' \<and>
     cmd_run True (reporter_init no_faults demo_env (\<lambda>_. None) (\<lambda>_. []) 0 0) (\<lambda>_. None) opt' = Some 1"
  using installed_service_lacks_pin [of "\<lambda>p. ''C:'' @ [BS] @ p" "default_options\<lparr>opt_url := ''https://h'', opt_pin := ''ab''\<rparr>"
      True no_faults demo_env "\<lambda>_. None" "\<lambda>_. []" 0 0 "\<lambda>_. None"] safe_show_int [of 300]
  by (auto simp: default_options_def service_words_def safe_arg_def)

end
