(* ===== verification/Agent_Reply.thy ===== *)
theory Agent_Reply
  imports Agent
begin

text \<open>
  What the agent answers on its control pipe: every answer is a JSON object, errors are told apart
  by their first key, and a request for a scan waits within the watchdog's budget.
\<close>

section \<open>Answers as trees\<close>

definition result_members :: "scan_result \<Rightarrow> (string \<times> jval) list" where
  "result_members r =
     [(''ok'', JBool (sr_ok r)), (''scan_id'', JNum (i64_text (scan_id r))), (''packages'', nat_tree (sr_packages r)),
      (''findings'', nat_tree (sr_findings r)), (''critical'', nat_tree (sr_critical r)), (''worst'', JStr (worst r)),
      (''duration_ms'', JNum (i64_text (duration_ms r))), (''finished_unix_ms'', JNum (i64_text (finished_unix_ms r)))] @
     (if db_error r \<noteq> [] then [(''db_error'', JStr (db_error r))] else [])"

definition row_tree :: "finding_row \<Rightarrow> jval" where
  "row_tree r = JObj
     [(''host'', JStr (fr_hostname r)), (''cve'', JStr (fr_cve_id r)), (''package'', JStr (fr_package r)),
      (''version'', JStr (fr_version r)), (''cvss'', JNum (fmt_1f (fr_cvss r))), (''severity'', JStr (fr_severity r)),
      (''exposed'', JBool (fr_exposed r)), (''scan_id'', JNum (i64_text (fr_scan_id r)))]"

definition status_tree :: "agent_config \<Rightarrow> agent_env \<Rightarrow> agent \<Rightarrow> jval" where
  "status_tree cf e ag = (let p = ae_proc e in JObj
     [(''service'', JStr kAgentName), (''version'', JStr kAgentVersion), (''fault'', JStr (fault_name (ac_fault cf))),
      (''process'', JObj [(''pid'', nat_tree (pi_pid p)), (''user'', JStr (pi_user p)), (''elevated'', JBool (elevated p)),
         (''privileges_enabled'', nat_tree (privileges_enabled p)), (''private_bytes'', nat_tree (private_bytes p)),
         (''working_set'', nat_tree (working_set p)), (''peak_working_set'', nat_tree (peak_working_set p)),
         (''handles'', nat_tree (handles p)), (''threads'', nat_tree (threads p))]),
      (''pipe_requests_served'', nat_tree (ae_requests e)), (''dumps_written'', nat_tree (ae_dumps e)),
      (''uptime_s'', JNum (i64_text (word_of_int (trunc_div (sint (ae_now e - started_unix_ms ag)) 1000)))),
      (''hostname'', JStr (ag_hostname ag)), (''scans_completed'', nat_tree (scans ag)),
      (''last_scan'', JObj (result_members (last_scan ag))),
      (''database'', JObj [(''configured'', JBool (db_connection cf \<noteq> [])),
         (''state'', JStr (if ac_fault cf \<noteq> Deadlock \<and> ae_db_busy e then ''busy''
                          else if connected ag then ''connected'' else ''disconnected''))])])"

datatype reply =
    Failed string
  | Pong
  | Status agent_config agent_env agent
  | Scanned "scan_result option"
  | Rows "finding_row list"
  | Dumped string

fun reply_tree :: "reply \<Rightarrow> jval" where
  "reply_tree (Failed m) = JObj [(''error'', JStr m)]"
| "reply_tree Pong = JObj [(''pong'', JBool True)]"
| "reply_tree (Status cf e ag) = status_tree cf e ag"
| "reply_tree (Scanned d) = JObj
     [(''completed'', JBool (d \<noteq> None)),
      (case d of Some r \<Rightarrow> (''scan'', JObj (result_members r))
       | None \<Rightarrow> (''note'', JStr ''scan still running; it will finish in the background''))]"
| "reply_tree (Rows rows) = JObj [(''count'', nat_tree (length rows)), (''rows'', JArr (map row_tree rows))]"
| "reply_tree (Dumped p) = JObj [(''dump'', JStr p)]"

fun reply_ok :: "reply \<Rightarrow> bool" where
  "reply_ok (Rows rows) \<longleftrightarrow> (\<forall>r \<in> set rows. plain_score (fr_cvss r))"
| "reply_ok _ \<longleftrightarrow> True"

definition reply_text :: "bool \<Rightarrow> reply \<Rightarrow> string" where
  "reply_text p r = emit p (reply_tree r)"

lemma emit_row: "emit_elem (row_tree r) = row_json r"
  by (simp add: fun_eq_iff row_tree_def row_json_def emit_member_double emit_member_i64 Let_def del: emit_member.simps(3))

lemma fold_members: "fold (\<lambda>(k, v). emit_member k v) (result_members r) w = write_result r w"
  by (simp add: result_members_def write_result_def emit_member_i64 emit_member_nat Let_def del: emit_member.simps(3))

interpretation agent_reply: json_report reply_tree reply_ok reply_text
proof
  fix p r
  have m: "emittable v" if "(k, v) \<in> set (result_members s)" for k v s
    using that by (auto simp: result_members_def split: if_splits)
  have n: "nums_ok v" if "(k, v) \<in> set (result_members s)" for k v s
    using that by (auto simp: result_members_def split: if_splits)
  show "reply_text p r = emit p (reply_tree r)" by (simp add: reply_text_def)
  show "\<exists>ms. reply_tree r = JObj ms" by (cases r) (simp_all add: status_tree_def Let_def)
  show "emittable (reply_tree r)"
    by (cases r) (auto simp: status_tree_def row_tree_def Let_def split: option.split dest: m)
  show "nums_ok (reply_tree r)" if "reply_ok r"
    using that by (cases r) (auto simp: status_tree_def row_tree_def Let_def plain_score_text split: option.split dest: n)
qed

lemma error_json_reply: "error_json m = reply_text False (Failed m)"
  by (simp add: reply_text_def emit_def error_json_def)

lemma rows_json_reply: "rows_json rows = reply_text False (Rows rows)"
  by (simp add: reply_text_def emit_def rows_json_def emit_member_nat fold_map comp_def emit_row Let_def)

lemma status_reply: "handle_status cf e ag = reply_text False (Status cf e ag)"
  by (simp add: reply_text_def emit_def handle_status_def status_tree_def emit_member_nat emit_member_i64 field_cstr_def
      fold_members Let_def del: emit_member.simps(3))

lemma scan_reply: "fst (handle_scan cf e n ag) = reply_text False (Scanned (Option.bind (scan_wait cf n) (ae_delivered e)))"
  by (auto simp: reply_text_def emit_def handle_scan_def field_cstr_def fold_members Let_def split: option.split)

lemma dump_reply: "out (end_object (field_str ''dump'' f (begin_object (new_writer False)))) = reply_text False (Dumped f)"
  by (simp add: reply_text_def emit_def)

lemma reply_render: "reply_text False r = render False 0 (reply_tree r)"
  using emit_render [OF agent_reply.tree_emittable, of r False] agent_reply.tree_object [of r] by (auto simp: reply_text_def)

lemma pong_reply: "pong = reply_text False Pong"
  by (simp add: reply_render pong_def key_text_def quoted_def nl_def closing_def json_escape_def escape_char_def)

lemmas reply_of = error_json_reply rows_json_reply status_reply scan_reply dump_reply pong_reply

text \<open>An answer starts with the key \<^verbatim>\<open>error\<close> exactly when it is an error.\<close>

lemma reply_error_prefix:
  "starts_with ([CHR ''{'', DQ] @ ''error'' @ [DQ]) (reply_text False r) \<longleftrightarrow> (\<exists>m. r = Failed m)"
  by (cases r) (simp_all add: reply_render key_text_def quoted_def nl_def json_escape_def escape_char_def starts_with_def
      status_tree_def Let_def split: option.split)

definition plain_rows :: "string + finding_row list \<Rightarrow> bool" where
  "plain_rows x = (case x of Inl _ \<Rightarrow> True | Inr rows \<Rightarrow> \<forall>r \<in> set rows. plain_score (fr_cvss r))"

lemma handle_reply:
  assumes "\<And>h c n. plain_rows (host_result (ae_db e) h c n)" and "\<And>c. plain_rows (affected_result (ae_db e) c)"
  shows "\<exists>r. reply_ok r \<and> fst (handle cf e req ag) = reply_text False r"
proof -
  have f: "\<exists>r. reply_ok r \<and> handle_findings e c n ag = reply_text False r" for c n
    using assms(1) [of "ag_hostname ag" c "clamp n 1 1000"]
    by (auto simp: handle_findings_def plain_rows_def reply_of intro: exI [of _ "Failed _"] exI [of _ "Rows _"] split: sum.split)
  have a: "\<exists>r. reply_ok r \<and> handle_affected e c ag = reply_text False r" for c
    using assms(2) [of c]
    by (auto simp: handle_affected_def plain_rows_def reply_of intro: exI [of _ "Failed _"] exI [of _ "Rows _"] split: sum.split)
  have others: "\<exists>r. reply_ok r \<and> pong = reply_text False r" "\<exists>r. reply_ok r \<and> handle_status cf e ag = reply_text False r"
    "\<exists>r. reply_ok r \<and> fst (handle_scan cf e n ag) = reply_text False r"
    "\<exists>r. reply_ok r \<and> error_json m = reply_text False r"
    "\<exists>r. reply_ok r \<and> out (end_object (field_str ''dump'' d (begin_object (new_writer False)))) = reply_text False r" for n m d
    unfolding reply_of by (rule exI, rule conjI [OF _ refl], simp)+
  show ?thesis
    using f a others by (simp add: handle_def Let_def split_beta split: sum.split)
qed

section \<open>The watchdog's budget\<close>

lemma wd_check_quiet:
  "wd_check now w = None \<longleftrightarrow> (\<forall>(k, what, since) \<in> set (wd_active w). now - since < wd_timeout_ms w)"
  by (auto simp: wd_check_def find_None_iff)

text \<open>Entering and leaving a scope keep the other scopes, and identifiers are not reused.\<close>

definition wd_ok :: "watchdog \<Rightarrow> bool" where
  "wd_ok w \<longleftrightarrow> distinct (map fst (wd_active w)) \<and> (\<forall>e \<in> set (wd_active w). fst e \<le> wd_next w)"

lemma wd_enter_ok: "wd_ok w \<Longrightarrow> wd_enter what now w = (k, w') \<Longrightarrow> wd_ok w' \<and> wd_active (wd_leave k w') = wd_active w"
  by (fastforce simp: wd_ok_def wd_enter_def wd_leave_def filter_id_conv)

lemma wd_leave_ok: "wd_ok w \<Longrightarrow> wd_ok (wd_leave k w)"
  by (auto simp: wd_ok_def wd_leave_def distinct_map_filter)

lemma scan_wait_half_budget:
  assumes "0 < ac_hang_timeout_s cf" and "scan_wait cf n = Some t"
  shows "0 \<le> t \<and> 2 * t \<le> ac_hang_timeout_s cf * 1000"
  using assms by (auto simp: scan_wait_def scan_cap_def clamp_def split: if_splits)

section \<open>An agent without a database\<close>

definition demo_agent_env :: agent_env where
  "demo_agent_env = \<lparr>ae_proc = \<lparr>pi_pid = 1, pi_user = [], elevated = False, privileges_enabled = 0, private_bytes = 0,
       working_set = 0, peak_working_set = 0, handles = 0, threads = 1\<rparr>, ae_requests = 0, ae_dumps = 0, ae_now = 0,
     ae_db = \<lparr>connect_result = None, record_result = (\<lambda>_ _ sid. (None, sid)), host_result = (\<lambda>_ _ _. Inr []),
       affected_result = (\<lambda>_. Inr [])\<rparr>,
     ae_db_busy = False, ae_delivered = (\<lambda>_. None), ae_waiter = 0, ae_dump = Inl ''unavailable''\<rparr>"

definition demo_agent_config :: agent_config where
  "demo_agent_config = \<lparr>ac_index_path = [], ac_alias_path = [], db_connection = [], ac_interval_s = 300,
     ac_hang_timeout_s = 120, ac_fault = No_fault\<rparr>"

end
