(* ===== verification/Ipc.thy ===== *)
theory Ipc
  imports Agent_Reply
begin

text \<open>
  The control pipe of \<^verbatim>\<open>src/src/ipc_windows.cpp\<close>: the instances the acceptor keeps, the answer to one
  request, and the client's call. The kernel's answers to the client are an argument;
  \<open>message_reads\<close> is what they are when a message is read from a pipe in message mode.
\<close>

section \<open>The server\<close>

definition kMaxInstances :: nat where "kMaxInstances = 8"

definition kMaxRequestBytes :: nat where "kMaxRequestBytes = 4096"

definition win_error :: "string \<Rightarrow> nat \<Rightarrow> string" where
  "win_error what err = what @ '' failed, error '' @ show_nat err @ (if err = 5 then '' (access denied)'' else [])"

text \<open>
  The user at the other end, or the text that stands for it. The arguments are the errors of
  impersonating, reading the token and looking up the name; nothing when reverting fails, which
  ends the process.
\<close>

definition client_user :: "nat option \<Rightarrow> nat option \<Rightarrow> bool \<Rightarrow> nat option \<Rightarrow> string \<Rightarrow> string \<Rightarrow> string option" where
  "client_user impersonate token reverted lookup domain nm =
     (case impersonate of Some err \<Rightarrow> Some (''?(impersonate '' @ show_nat err @ '')'')
      | None \<Rightarrow>
          if \<not> reverted then None
          else case token of Some err \<Rightarrow> Some (''?(token '' @ show_nat err @ '')'')
          | None \<Rightarrow> (case lookup of Some err \<Rightarrow> Some (''?(lookup '' @ show_nat err @ '')'')
                     | None \<Rightarrow> Some (domain @ [BS] @ nm)))"

definition default_sddl :: string where
  "default_sddl = ''D:P(D;;GA;;;NU)(A;;GA;;;SY)(A;;GA;;;BA)(A;;GA;;;OW)''"

definition too_large :: string where
  "too_large = [CHR ''{'', DQ] @ ''error'' @ [DQ, CHR '':'', DQ] @ ''request too large'' @ [DQ] @ ''}''"

text \<open>
  One connection: the message the client wrote, if it could be read; the answer, the state of the
  handler and the number of requests served.
\<close>

definition serve :: "(string \<Rightarrow> 's \<Rightarrow> string \<times> 's) \<Rightarrow> string option \<Rightarrow> 's \<Rightarrow> 64 word \<Rightarrow> string option \<times> 's \<times> 64 word" where
  "serve handler msg s served =
     (case msg of
        None \<Rightarrow> (None, s, served)
      | Some m \<Rightarrow>
          if kMaxRequestBytes < length m then (Some too_large, s, served)
          else let (response, s') = handler m s in (Some response, s', served + 1))"

text \<open>Starting: the errors of parsing the descriptor and of creating the first instance.\<close>

definition server_start :: "nat option \<Rightarrow> nat option \<Rightarrow> string option" where
  "server_start sddl_err first_err =
     (case sddl_err of Some err \<Rightarrow> Some (win_error ''parsing the pipe SDDL'' err)
      | None \<Rightarrow>
          (case first_err of None \<Rightarrow> None
           | Some err \<Rightarrow>
               if err = 5 then Some ''pipe name already in use by another process (possible squatter); refusing to share it''
               else Some (win_error ''CreateNamedPipe'' err)))"

section \<open>The acceptor\<close>

text \<open>
  The acceptor waits on its listening instance, then holds a connected one while it creates the
  next, then hands the connected one to a thread. Clients are the threads, with their flag \<open>done\<close>.
\<close>

datatype acceptor = Listening | Creating | Handing | Done

record pipe_server =
  acceptor :: acceptor
  connected_ok :: bool
  clients :: "bool list"
  stopping_flag :: bool

definition reap :: "bool \<Rightarrow> bool list \<Rightarrow> bool list" where
  "reap all cs = filter (\<lambda>d. \<not> (all \<or> d)) cs"

definition open_instances :: "pipe_server \<Rightarrow> nat" where
  "open_instances p =
     (case acceptor p of Listening \<Rightarrow> 1 | Creating \<Rightarrow> 1 | Handing \<Rightarrow> 2 | Done \<Rightarrow> 0) + length (filter Not (clients p))"

text \<open>
  A further instance exists only while there are fewer than \<open>kMaxInstances\<close>. A thread closes its
  instance before it sets its flag. A failed creation is tried again after reaping.
\<close>

inductive pipe_step :: "pipe_server \<Rightarrow> pipe_server \<Rightarrow> bool" where
  connect: "acceptor p = Listening \<Longrightarrow> \<not> stopping_flag p \<Longrightarrow> pipe_step p (p\<lparr>acceptor := Creating, connected_ok := b\<rparr>)"
| created: "acceptor p = Creating \<Longrightarrow> open_instances p < kMaxInstances \<Longrightarrow> pipe_step p (p\<lparr>acceptor := Handing\<rparr>)"
| busy: "acceptor p = Creating \<Longrightarrow> \<not> stopping_flag p \<Longrightarrow> pipe_step p (p\<lparr>clients := reap False (clients p)\<rparr>)"
| hand: "acceptor p = Handing \<Longrightarrow>
    pipe_step p (p\<lparr>acceptor := Listening, clients := reap False (if connected_ok p then clients p @ [False] else clients p)\<rparr>)"
| finish: "i < length (clients p) \<Longrightarrow> pipe_step p (p\<lparr>clients := (clients p)[i := True]\<rparr>)"
| stop: "pipe_step p (p\<lparr>stopping_flag := True\<rparr>)"
| leave: "acceptor p = Listening \<Longrightarrow> stopping_flag p \<Longrightarrow> pipe_step p (p\<lparr>acceptor := Done\<rparr>)"
| give_up: "acceptor p = Creating \<Longrightarrow> stopping_flag p \<Longrightarrow>
    pipe_step p (p\<lparr>acceptor := Done, clients := reap False (if connected_ok p then clients p @ [False] else clients p)\<rparr>)"
| joined: "acceptor p = Done \<Longrightarrow> list_all (\<lambda>d. d) (clients p) \<Longrightarrow> pipe_step p (p\<lparr>clients := reap True (clients p)\<rparr>)"

definition started_server :: pipe_server where
  "started_server = \<lparr>acceptor = Listening, connected_ok = True, clients = [], stopping_flag = False\<rparr>"

section \<open>The client\<close>

text \<open>An overlapped operation: the error it ends with, at once or after waiting, or no end in time.\<close>

datatype overlapped = Completed nat | Refused nat | Waited nat | Timed_out

fun wait_io :: "overlapped \<Rightarrow> nat" where
  "wait_io (Completed err) = err"
| "wait_io (Refused err) = err"
| "wait_io (Waited err) = err"
| "wait_io Timed_out = 258"

record pipe_client_env =
  opens :: "nat \<Rightarrow> nat"
  waits :: "nat \<Rightarrow> nat"
  write_io :: overlapped
  read_io :: "nat \<Rightarrow> overlapped \<times> string"

text \<open>The error code and text, or nothing when the pipe is open. The loop ends as soon as the kernel says other than busy and free.\<close>

fun open_pipe :: "nat \<Rightarrow> pipe_client_env \<Rightarrow> string \<Rightarrow> nat \<Rightarrow> (nat \<times> string) option option" where
  "open_pipe 0 env nm i = None"
| "open_pipe (Suc fuel) env nm i =
     (let err = opens env i;
          refused = (\<lambda>err. Some (Some (err,
            if err = 2 then ''no server on '' @ nm @ '' (is the service running?)'' else win_error ''opening the pipe'' err)))
      in if err = 0 then Some None
         else if err = 231 then
           (if waits env i = 0 then open_pipe fuel env nm (Suc i)
            else if waits env i = 121 then Some (Some (121, win_error ''waiting for a free pipe instance'' 121))
            else refused (waits env i))
         else refused err)"

fun read_response :: "nat \<Rightarrow> pipe_client_env \<Rightarrow> nat \<Rightarrow> nat \<Rightarrow> string \<Rightarrow> ((nat \<times> string) option \<times> string) option" where
  "read_response 0 env timeout k response = None"
| "read_response (Suc fuel) env timeout k response =
     (let (io, chunk) = read_io env k; err = wait_io io;
          response = (if err = 0 \<or> err = 234 then response @ chunk else response)
      in if err = 234 then read_response fuel env timeout (Suc k) response
         else if err = 0 then Some (None, response)
         else if err = 258 then Some (Some (err, ''server did not answer within '' @ show_nat timeout @ '' ms''), response)
         else Some (Some (err, win_error ''reading the response'' err), response))"

text \<open>The error code and text, or nothing on success, and the response; nothing while a loop runs.\<close>

definition pipe_call ::
  "nat \<Rightarrow> pipe_client_env \<Rightarrow> string \<Rightarrow> string \<Rightarrow> nat \<Rightarrow> ((nat \<times> string) option \<times> string) option" where
  "pipe_call fuel env nm request timeout =
     (case open_pipe fuel env nm 0 of
        None \<Rightarrow> None
      | Some (Some e) \<Rightarrow> Some (Some e, [])
      | Some None \<Rightarrow>
          (let err = wait_io (write_io env)
           in if err \<noteq> 0 then Some (Some (err, win_error ''writing the request'' err), [])
              else read_response fuel env timeout 0 []))"

text \<open>A message read from a pipe in message mode, in pieces of the buffer's size.\<close>

definition message_reads :: "string \<Rightarrow> nat \<Rightarrow> overlapped \<times> string" where
  "message_reads msg k =
     (if 16384 * (k + 1) < length msg then Refused 234 else Completed 0, take 16384 (drop (16384 * k) msg))"

section \<open>Instances\<close>

lemma reap_open: "length (filter Not (reap False cs)) = length (filter Not cs)"
  by (simp add: reap_def)

lemma finish_open: "length (filter Not (cs[i := True])) \<le> length (filter Not cs)"
proof (cases "i < length cs")
  case True
  have "filter Not (cs[i := True]) = filter Not (take i cs) @ filter Not (drop (Suc i) cs)"
    using True by (simp add: upd_conv_take_nth_drop)
  moreover have "filter Not cs = filter Not (take i cs) @ filter Not (cs ! i # drop (Suc i) cs)"
    using True by (metis append_take_drop_id Cons_nth_drop_Suc filter_append)
  ultimately show ?thesis by simp
qed (simp add: not_less list_update_beyond)

lemma pipe_step_bounded: "pipe_step p q \<Longrightarrow> open_instances p \<le> kMaxInstances \<Longrightarrow> open_instances q \<le> kMaxInstances"
proof (induction rule: pipe_step.induct)
  case (finish i p)
  then show ?case using finish_open [of "clients p" i] by (simp add: open_instances_def)
qed (auto simp: open_instances_def reap_open list_all_iff reap_def split: acceptor.splits)

lemma instances_bounded: "pipe_step\<^sup>*\<^sup>* started_server p \<Longrightarrow> open_instances p \<le> kMaxInstances"
proof (induction rule: rtranclp_induct)
  case base
  then show ?case by (simp add: started_server_def open_instances_def kMaxInstances_def)
qed (rule pipe_step_bounded)

text \<open>
  The acceptor is never starved for good: once one of the clients that hold the other instances has
  finished, it creates its next instance, listens again and hands the held client over.
\<close>

lemma acceptor_progress:
  assumes "acceptor p = Creating" and "open_instances p \<le> kMaxInstances"
  shows "\<exists>q r. (q = p \<or> (\<exists>i < length (clients p). \<not> clients p ! i \<and> q = p\<lparr>clients := (clients p)[i := True]\<rparr>)) \<and>
    pipe_step q (q\<lparr>acceptor := Handing\<rparr>) \<and> pipe_step (q\<lparr>acceptor := Handing\<rparr>) r \<and> acceptor r = Listening"
proof -
  have step: "\<exists>r. pipe_step q (q\<lparr>acceptor := Handing\<rparr>) \<and> pipe_step (q\<lparr>acceptor := Handing\<rparr>) r \<and> acceptor r = Listening"
    if "acceptor q = Creating" "open_instances q < kMaxInstances" for q
    using pipe_step.created [OF that] pipe_step.hand [of "q\<lparr>acceptor := Handing\<rparr>"] by auto
  show ?thesis
  proof (cases "open_instances p < kMaxInstances")
    case True
    then show ?thesis using step [OF assms(1)] by blast
  next
    case False
    then have "length (filter Not (clients p)) = 7" using assms by (simp add: open_instances_def kMaxInstances_def)
    then obtain d where "d \<in> set (clients p)" "\<not> d" by (metis filter_False list.size(3) zero_neq_numeral)
    then obtain i where i: "i < length (clients p)" "\<not> clients p ! i" by (metis in_set_conv_nth)
    let ?q = "p\<lparr>clients := (clients p)[i := True]\<rparr>"
    have "filter Not (clients p) = filter Not (take i (clients p)) @ filter Not (clients p ! i # drop (Suc i) (clients p))"
      using i(1) by (metis append_take_drop_id Cons_nth_drop_Suc filter_append)
    then have "length (filter Not ((clients p)[i := True])) < 7"
      using i \<open>length (filter Not (clients p)) = 7\<close> by (simp add: upd_conv_take_nth_drop)
    then have "open_instances ?q < kMaxInstances" using assms(1) by (simp add: open_instances_def kMaxInstances_def)
    then show ?thesis using step [of ?q] assms(1) i by auto
  qed
qed

section \<open>Reading a message\<close>

lemma read_message:
  assumes "read_io env = message_reads msg"
  shows "length msg \<le> 16384 * (k + fuel) \<Longrightarrow> 0 < fuel \<Longrightarrow>
    read_response fuel env t k (take (16384 * k) msg) = Some (None, msg)"
proof (induction fuel arbitrary: k)
  case (Suc fuel)
  have app: "take (16384 * k) msg @ take 16384 (drop (16384 * k) msg) = take (16384 * (k + 1)) msg"
    by (simp add: take_add [symmetric] algebra_simps)
  show ?case
  proof (cases "16384 * (k + 1) < length msg")
    case True
    then have "0 < fuel" using Suc.prems(1) by (cases fuel) simp_all
    with Suc.IH [of "k + 1"] Suc.prems(1) True show ?thesis
      by (simp add: assms message_reads_def app Let_def del: mult_Suc_right)
  next
    case False
    then have "take (16384 * (k + 1)) msg = msg" by simp
    then show ?thesis using False by (simp add: assms message_reads_def app Let_def del: mult_Suc_right)
  qed
qed simp

lemma open_after_waiting:
  assumes "\<And>i. i < n \<Longrightarrow> opens env i = 231 \<and> waits env i = 0" and "opens env n = 0"
  shows "i \<le> n \<Longrightarrow> n < i + fuel \<Longrightarrow> open_pipe fuel env nm i = Some None"
proof (induction fuel arbitrary: i)
  case (Suc fuel)
  then show ?case using assms by (cases "i = n") (simp_all add: Let_def)
qed simp

text \<open>The answer of the server to a message, through the handler.\<close>

definition control_answer :: "agent_config \<Rightarrow> agent_env \<Rightarrow> agent \<Rightarrow> string \<Rightarrow> string" where
  "control_answer cf e ag req = (case fst (serve (handle cf e) (Some req) ag 0) of None \<Rightarrow> [] | Some r \<Rightarrow> r)"

lemma control_answer_cases:
  "control_answer cf e ag req = (if kMaxRequestBytes < length req then too_large else fst (handle cf e req ag))"
  by (simp add: control_answer_def serve_def split_beta)

lemma too_large_reply: "too_large = error_json ''request too large''"
  unfolding error_json_reply reply_render
  by (simp add: too_large_def key_text_def quoted_def nl_def closing_def json_escape_def escape_char_def)

section \<open>The property\<close>

text \<open>
  C18: The control channel end to end. However long all instances are busy before one is free, the
  client receives exactly the server's answer, in as many pieces as its length takes; the answer is
  a JSON object, that of the agent's handler for a request of at most 4096 bytes and an error for
  a longer one, and the client prints it on a line and exits with 1 exactly when it is an error.
\<close>

theorem control_roundtrip:
  assumes "args \<noteq> []" and "nsctl_args args kDefaultPipe nsctl_default_timeout [] = Inr (pip, t, req)"
    and "\<And>h c n. plain_rows (host_result (ae_db e) h c n)" and "\<And>c. plain_rows (affected_result (ae_db e) c)"
    and "\<And>i. i < n \<Longrightarrow> opens env i = 231 \<and> waits env i = 0" and "opens env n = 0" and "wait_io (write_io env) = 0"
    and "read_io env = message_reads (control_answer cf e ag req)"
    and "n < fuel" and "length (control_answer cf e ag req) \<le> 16384 * fuel"
  shows "\<exists>ms. json_parse (control_answer cf e ag req) = Some (JObj ms) \<and>
    nsctl_main (\<lambda>p r t. case pipe_call fuel env p r t of Some (None, resp) \<Rightarrow> Some resp | _ \<Rightarrow> None) args =
      (if \<exists>m. ms = [(''error'', JStr m)] then 1 else 0, control_answer cf e ag req @ [NL]) \<and>
    (if kMaxRequestBytes < length req then ms = [(''error'', JStr ''request too large'')]
     else control_answer cf e ag req = fst (handle cf e req ag))"
proof -
  have reply: "\<exists>r. reply_ok r \<and> control_answer cf e ag req = reply_text False r \<and>
      (kMaxRequestBytes < length req \<longrightarrow> r = Failed ''request too large'')"
    using handle_reply [OF assms(3,4)] by (auto simp: control_answer_cases too_large_reply error_json_reply)
  then obtain r where r: "reply_ok r" "control_answer cf e ag req = reply_text False r"
    "kMaxRequestBytes < length req \<Longrightarrow> r = Failed ''request too large''" by blast
  obtain ms where ms: "reply_tree r = JObj ms" using agent_reply.tree_object [of r] by blast
  have err: "(\<exists>m. ms = [(''error'', JStr m)]) \<longleftrightarrow> (\<exists>m. r = Failed m)"
    using ms by (cases r) (auto simp: status_tree_def Let_def)
  have call: "pipe_call fuel env p req u = Some (None, control_answer cf e ag req)" for p u
    using open_after_waiting [where n = n and i = 0 and fuel = fuel, OF assms(5,6)] assms(7,9,10)
      read_message [where k = 0, OF assms(8)] by (simp add: pipe_call_def)
  have "nsctl_main (\<lambda>p r t. case pipe_call fuel env p r t of Some (None, resp) \<Rightarrow> Some resp | _ \<Rightarrow> None) args =
      (if \<exists>m. ms = [(''error'', JStr m)] then 1 else 0, control_answer cf e ag req @ [NL])"
    using assms(1,2) call by (simp add: nsctl_main_def r(2) reply_error_prefix [simplified] err)
  moreover have "json_parse (control_answer cf e ag req) = Some (JObj ms)"
    using agent_reply.report_parses [OF r(1), of False] ms by (simp add: r(2))
  moreover have "if kMaxRequestBytes < length req then ms = [(''error'', JStr ''request too large'')]
     else control_answer cf e ag req = fst (handle cf e req ag)"
    using r(3) ms by (auto simp: control_answer_cases)
  ultimately show ?thesis by blast
qed

definition demo_pipe_env :: "string \<Rightarrow> pipe_client_env" where
  "demo_pipe_env msg = \<lparr>opens = (\<lambda>i. if i = 0 then 231 else 0), waits = (\<lambda>_. 0), write_io = Completed 0, read_io = message_reads msg\<rparr>"

theorem control_roundtrip_witness:
  "\<exists>ms. json_parse (control_answer demo_agent_config demo_agent_env fresh_agent ''ping'') = Some (JObj ms) \<and>
    nsctl_main (\<lambda>p r t. case pipe_call 2 (demo_pipe_env pong) p r t of Some (None, resp) \<Rightarrow> Some resp | _ \<Rightarrow> None) [''ping''] =
      (if \<exists>m. ms = [(''error'', JStr m)] then 1 else 0, pong @ [NL])"
proof -
  have a: "control_answer demo_agent_config demo_agent_env fresh_agent ''ping'' = pong"
    by (simp add: control_answer_cases kMaxRequestBytes_def handle_def read_word_def is_space_def)
  have h: "[''ping''] \<noteq> []" "nsctl_args [''ping''] kDefaultPipe nsctl_default_timeout [] = Inr (kDefaultPipe, nsctl_default_timeout, ''ping'')"
    by simp_all
  have d: "plain_rows (host_result (ae_db demo_agent_env) h c n)" "plain_rows (affected_result (ae_db demo_agent_env) v)" for h c n v
    by (simp_all add: demo_agent_env_def plain_rows_def)
  have o: "i < 1 \<Longrightarrow> opens (demo_pipe_env pong) i = 231 \<and> waits (demo_pipe_env pong) i = 0" "opens (demo_pipe_env pong) 1 = 0"
    "wait_io (write_io (demo_pipe_env pong)) = 0" for i
    by (simp_all add: demo_pipe_env_def)
  have r: "read_io (demo_pipe_env pong) = message_reads (control_answer demo_agent_config demo_agent_env fresh_agent ''ping'')"
    "(1::nat) < 2" "length (control_answer demo_agent_config demo_agent_env fresh_agent ''ping'') \<le> 16384 * 2"
    by (simp_all only: a) (simp_all add: demo_pipe_env_def pong_def)
  show ?thesis using control_roundtrip [OF h d o r] unfolding a by blast
qed

end
