(* ===== verification/Winhttp.thy ===== *)
theory Winhttp
  imports Transport
begin

text \<open>
  The other backends of the transport: \<^verbatim>\<open>src/src/transport_winhttp.cpp\<close>, which leaves the protocol to
  WinHTTP, and \<^verbatim>\<open>src/src/transport_none.cpp\<close>. The answers of WinHTTP are an argument. What the two real
  backends have in common is the locale \<open>pinned_transport\<close>.
\<close>

section \<open>The client certificate\<close>

text \<open>
  The bundle's file, and for each of the three sets of import flags the error or the certificates
  found, each with whether it has a private key. The result is the position of the one chosen.
\<close>

fun first_import :: "(nat + bool list) list \<Rightarrow> nat \<Rightarrow> nat + bool list" where
  "first_import [] last_error = Inl last_error"
| "first_import (Inl err # rs) last_error = first_import rs err"
| "first_import (Inr store # rs) last_error = Inr store"

fun with_key :: "bool list \<Rightarrow> nat \<Rightarrow> nat option" where
  "with_key [] i = None"
| "with_key (has_key # ks) i = (if has_key then Some i else with_key ks (Suc i))"

definition load_client_pfx :: "(string \<Rightarrow> string option) \<Rightarrow> (string \<Rightarrow> nat \<Rightarrow> nat + bool list) \<Rightarrow> string \<Rightarrow> string + nat" where
  "load_client_pfx files import pth =
     (case files pth of
        None \<Rightarrow> Inl (''cannot open client certificate: '' @ pth)
      | Some blob \<Rightarrow>
          (case first_import (map (import blob) [0, 1, 2]) 0 of
             Inl err \<Rightarrow> Inl (''PFXImportCertStore failed for '' @ pth @ '', error '' @ show_nat err)
           | Inr store \<Rightarrow>
               (case with_key store 0 of
                  None \<Rightarrow> Inl (''no certificate with an associated private key inside '' @ pth)
                | Some i \<Rightarrow> Inr i)))"

section \<open>The backend\<close>

record win_transport =
  w_cfg :: transport_config
  w_url :: parsed_url
  w_pin :: string
  w_client_cert :: "nat option"

datatype win_init_error = Win_bad_url url_error | Win_bad_pin nat | Win_bad_certificate string

definition win_make_transport ::
  "(string \<Rightarrow> string option) \<Rightarrow> (string \<Rightarrow> nat \<Rightarrow> nat + bool list) \<Rightarrow> transport_config \<Rightarrow> win_init_error + win_transport" where
  "win_make_transport files import tc =
     (case parse_url (tc_url tc) of
        Inl err \<Rightarrow> Inl (Win_bad_url err)
      | Inr u \<Rightarrow>
          let pn = normalise_pin (server_pin_sha256 tc);
              t = \<lparr>w_cfg = tc, w_url = u, w_pin = pn, w_client_cert = None\<rparr>
          in if length pn \<noteq> 64 then Inl (Win_bad_pin (length pn))
             else if client_cert_path tc = [] then Inr t
             else case load_client_pfx files import (client_cert_path tc) of
               Inl err \<Rightarrow> Inl (Win_bad_certificate err)
             | Inr i \<Rightarrow> Inr (t\<lparr>w_client_cert := Some i\<rparr>))"

datatype win_peer = No_server_certificate nat | No_hash_provider | No_hash | Server_digest string

text \<open>The error of each call, if it fails; \<open>wh_partial\<close> bytes of the body leave in a failed write.\<close>

record winhttp_env =
  wh_open :: "nat option"
  wh_connect :: "nat option"
  wh_request :: "nat option"
  wh_attach :: "nat option"
  wh_send :: "nat option"
  wh_peer :: win_peer
  wh_write :: "nat option"
  wh_partial :: nat
  wh_receive :: "nat option"
  wh_status :: "32 word"
  wh_chunks :: "string list"

record win_result =
  wr_ok :: bool
  wr_status :: int
  wr_body :: string
  wr_error :: string
  wr_retryable :: bool

definition win_failed :: "string \<Rightarrow> bool \<Rightarrow> win_result" where
  "win_failed err retry = \<lparr>wr_ok = False, wr_status = 0, wr_body = [], wr_error = err, wr_retryable = retry\<rparr>"

definition call_failed :: "string \<Rightarrow> nat \<Rightarrow> win_result" where
  "call_failed api err = win_failed (api @ '' failed, error '' @ show_nat err) True"

definition win_verify_pin :: "winhttp_env \<Rightarrow> string \<Rightarrow> string option" where
  "win_verify_pin e pn =
     (case wh_peer e of
        No_server_certificate err \<Rightarrow> Some (''could not read the server certificate, error '' @ show_nat err)
      | No_hash_provider \<Rightarrow> Some ''BCryptOpenAlgorithmProvider(SHA256) failed''
      | No_hash \<Rightarrow> Some ''BCryptHash failed''
      | Server_digest d \<Rightarrow>
          if hex_lower d \<noteq> pn then Some (''server certificate pin mismatch: expected '' @ pn @ '', got '' @ hex_lower d) else None)"

text \<open>Reading ends when nothing is available or nothing is read.\<close>

definition win_body :: "winhttp_env \<Rightarrow> string" where
  "win_body e = concat (takeWhile (\<lambda>c. c \<noteq> []) (wh_chunks e))"

definition win_response :: "winhttp_env \<Rightarrow> win_result" where
  "win_response e =
     (let st = sint (wh_status e); good = (200 \<le> st \<and> st < 300)
      in \<lparr>wr_ok = good, wr_status = st, wr_body = win_body e,
          wr_error = (if good then [] else ''cloud returned HTTP '' @ show_int st),
          wr_retryable = (\<not> good \<and> (500 \<le> st \<or> st = 429))\<rparr>)"

text \<open>The result, whether the head of the request was sent, and the bytes of the body that were.\<close>

definition win_post :: "winhttp_env \<Rightarrow> win_transport \<Rightarrow> string \<Rightarrow> string \<Rightarrow> win_result \<times> bool \<times> string" where
  "win_post e t bdy ctype =
     (case wh_open e of Some err \<Rightarrow> (call_failed ''WinHttpOpen'' err, False, []) | None \<Rightarrow>
     (case wh_connect e of Some err \<Rightarrow> (call_failed ''WinHttpConnect'' err, False, []) | None \<Rightarrow>
     (case wh_request e of Some err \<Rightarrow> (call_failed ''WinHttpOpenRequest'' err, False, []) | None \<Rightarrow>
     (case (if w_client_cert t = None then None else wh_attach e) of
        Some err \<Rightarrow> (win_failed (''could not attach the client certificate, error '' @ show_nat err) False, False, [])
      | None \<Rightarrow>
     (case wh_send e of Some err \<Rightarrow> (call_failed ''WinHttpSendRequest'' err, False, []) | None \<Rightarrow>
     (case win_verify_pin e (w_pin t) of Some err \<Rightarrow> (win_failed err False, True, []) | None \<Rightarrow>
     (case (if bdy = [] then None else wh_write e) of
        Some err \<Rightarrow> (call_failed ''WinHttpWriteData'' err, True, take (wh_partial e) bdy)
      | None \<Rightarrow>
        let wire = take (length bdy mod 2 ^ 32) bdy in
        (case wh_receive e of Some err \<Rightarrow> (call_failed ''WinHttpReceiveResponse'' err, True, wire)
         | None \<Rightarrow> (win_response e, True, wire)))))))))"

section \<open>A build without TLS\<close>

definition none_post :: win_result where
  "none_post = win_failed ''this build has no TLS backend: OpenSSL was not found at configure time'' False"

text \<open>The error text is set although a transport is returned.\<close>

definition none_make_transport :: "string \<times> (string \<Rightarrow> string \<Rightarrow> win_result) option" where
  "none_make_transport = (''no TLS backend compiled in (install libssl-dev and reconfigure)'', Some (\<lambda>_ _. none_post))"

section \<open>What the backends promise\<close>

locale pinned_transport =
  fixes send :: "'e \<Rightarrow> 't \<Rightarrow> string \<Rightarrow> string \<Rightarrow> 'r \<times> string"
    and peer_hex :: "'e \<Rightarrow> string option"
    and pin :: "'t \<Rightarrow> string"
    and good :: "'r \<Rightarrow> bool"
    and code :: "'r \<Rightarrow> int"
    and again :: "'r \<Rightarrow> bool"
  assumes sends_to_pin: "snd (send e t b c) \<noteq> [] \<or> good (fst (send e t b c)) \<Longrightarrow> peer_hex e = Some (pin t)"
    and good_code: "good (fst (send e t b c)) \<longleftrightarrow> 200 \<le> code (fst (send e t b c)) \<and> code (fst (send e t b c)) < 300"
    and again_code: "code (fst (send e t b c)) \<noteq> 0 \<Longrightarrow>
      again (fst (send e t b c)) \<longleftrightarrow> 500 \<le> code (fst (send e t b c)) \<or> code (fst (send e t b c)) = 429"
begin

lemma unpinned: "peer_hex e \<noteq> Some (pin t) \<Longrightarrow> snd (send e t b c) = [] \<and> \<not> good (fst (send e t b c))"
  using sends_to_pin by blast

lemma verdict:
  assumes "fst (send e t b c) = r" and "code r \<noteq> 0"
  shows "good r = (200 \<le> code r \<and> code r < 300)" and "again r = (500 \<le> code r \<or> code r = 429)" and "\<not> (good r \<and> again r)"
  using good_code [of e t b c] again_code [of e t b c] assms by auto

end

definition openssl_peer_hex :: "tls_env \<Rightarrow> string option" where
  "openssl_peer_hex e = (case peer e of Digest d \<Rightarrow> Some (hex_lower d) | _ \<Rightarrow> None)"

definition win_peer_hex :: "winhttp_env \<Rightarrow> string option" where
  "win_peer_hex e = (case wh_peer e of Server_digest d \<Rightarrow> Some (hex_lower d) | _ \<Rightarrow> None)"

definition win_send :: "winhttp_env \<Rightarrow> win_transport \<Rightarrow> string \<Rightarrow> string \<Rightarrow> win_result \<times> string" where
  "win_send e t b c = (case win_post e t b c of (r, _, wire) \<Rightarrow> (r, wire))"

lemma post_status_cases:
  "(\<exists>s. fst (post e t b c) = response_result s) \<or> (\<not> ok (fst (post e t b c)) \<and> http_status (fst (post e t b c)) = 0)"
  by (auto simp: post_def empty_result_def Let_def split: option.splits prod.splits)

lemma response_result_status: "http_status (response_result s) = (if s = [] then 0 else status_of_response s)"
  by (simp add: response_result_def empty_result_def Let_def)

interpretation openssl: pinned_transport post openssl_peer_hex t_pin ok http_status retryable
proof
  fix e t b c
  show "openssl_peer_hex e = Some (t_pin t)" if "snd (post e t b c) \<noteq> [] \<or> ok (fst (post e t b c))"
    using post_verified [OF that] by (auto simp: openssl_peer_hex_def)
  show "ok (fst (post e t b c)) \<longleftrightarrow> 200 \<le> http_status (fst (post e t b c)) \<and> http_status (fst (post e t b c)) < 300"
    using post_status_cases [of e t b c] by (auto simp: response_result_ok response_result_status split: if_splits)
  show "retryable (fst (post e t b c)) \<longleftrightarrow> 500 \<le> http_status (fst (post e t b c)) \<or> http_status (fst (post e t b c)) = 429"
    if "http_status (fst (post e t b c)) \<noteq> 0"
    using post_status_cases [of e t b c] that by (auto simp: response_result_retryable response_result_status split: if_splits)
qed

definition no_answer :: "win_result \<Rightarrow> bool" where
  "no_answer r \<longleftrightarrow> \<not> wr_ok r \<and> wr_status r = 0"

lemma failed_no_answer [simp]: "no_answer (win_failed err r)" "no_answer (call_failed api n)"
  by (simp_all add: no_answer_def win_failed_def call_failed_def)

lemma win_verified: "win_verify_pin e pn = None \<Longrightarrow> win_peer_hex e = Some pn"
  by (auto simp: win_verify_pin_def win_peer_hex_def split: win_peer.splits if_splits)

lemma win_send_cases:
  "no_answer (fst (win_send e t b c)) \<and> snd (win_send e t b c) = [] \<or>
   win_peer_hex e = Some (w_pin t) \<and>
     (no_answer (fst (win_send e t b c)) \<or> win_send e t b c = (win_response e, take (length b mod 2 ^ 32) b))"
proof (cases "win_verify_pin e (w_pin t)")
  case None
  then show ?thesis using win_verified [OF None] by (simp add: win_send_def win_post_def Let_def split: option.split)
next
  case (Some err)
  then show ?thesis by (simp add: win_send_def win_post_def split: option.split)
qed

interpretation winhttp: pinned_transport win_send win_peer_hex w_pin wr_ok wr_status wr_retryable
proof
  fix e t b c
  note cases = win_send_cases [of e t b c]
  show "win_peer_hex e = Some (w_pin t)" if "snd (win_send e t b c) \<noteq> [] \<or> wr_ok (fst (win_send e t b c))"
    using that cases by (auto simp: no_answer_def)
  show "wr_ok (fst (win_send e t b c)) \<longleftrightarrow> 200 \<le> wr_status (fst (win_send e t b c)) \<and> wr_status (fst (win_send e t b c)) < 300"
    using cases by (auto simp: no_answer_def win_response_def Let_def)
  show "wr_retryable (fst (win_send e t b c)) \<longleftrightarrow> 500 \<le> wr_status (fst (win_send e t b c)) \<or> wr_status (fst (win_send e t b c)) = 429"
    if "wr_status (fst (win_send e t b c)) \<noteq> 0"
    using that cases by (auto simp: no_answer_def win_response_def Let_def)
qed

text \<open>A successful post delivered the whole body, when its length fits the 32 bits declared for it.\<close>

lemma win_ok_delivers:
  assumes "wr_ok (fst (win_send e t b c))" and "length b < 2 ^ 32"
  shows "snd (win_send e t b c) = b"
  using win_send_cases [of e t b c] assms by (auto simp: no_answer_def)

text \<open>Unlike with the other backend, the head of the request has gone out when the pin is checked.\<close>

lemma win_head_before_pin:
  assumes "wh_open e = None" "wh_connect e = None" "wh_request e = None" "wh_attach e = None" "wh_send e = None"
    and "win_verify_pin e (w_pin t) = Some err"
  shows "win_post e t b c = (win_failed err False, True, [])"
  using assms by (simp add: win_post_def)

section \<open>The property\<close>


definition demo_winhttp :: winhttp_env where
  "demo_winhttp = \<lparr>wh_open = None, wh_connect = None, wh_request = None, wh_attach = None, wh_send = None,
     wh_peer = Server_digest ''x'', wh_write = None, wh_partial = 0, wh_receive = None, wh_status = 200, wh_chunks = [''ok'']\<rparr>"

definition demo_win_transport :: win_transport where
  "demo_win_transport = \<lparr>w_cfg = t_cfg demo_transport, w_url = t_url demo_transport, w_pin = ''78'', w_client_cert = None\<rparr>"


end
