(* ===== verification/Platform_Windows.thy ===== *)
theory Platform_Windows
  imports Platform_Linux "HOL-Library.Product_Lexorder"
begin

text \<open>
  The Windows collectors of \<^verbatim>\<open>src/src/platform/platform_windows.cpp\<close>. The answers of the system (registry
  values, adapters, socket tables, the process snapshot, error codes) are arguments, with texts as
  they are after conversion to UTF-8.
\<close>

section \<open>Helpers\<close>

definition last_error_string :: "string \<Rightarrow> nat \<Rightarrow> string" where
  "last_error_string api err = api @ '' failed, error '' @ show_nat err"

text \<open>The text and number values of a registry key.\<close>

record registry_key =
  rk_string :: "string \<Rightarrow> string option"
  rk_dword :: "string \<Rightarrow> nat option"

definition native_arch :: "nat \<Rightarrow> string" where
  "native_arch a = (if a = 9 then ''x86_64'' else if a = 12 then ''arm64'' else if a = 5 then ''arm'' else if a = 0 then ''x86'' else [])"

definition ntop_text :: "ntop \<Rightarrow> family \<Rightarrow> 8 word list \<Rightarrow> string" where
  "ntop_text inet_ntop fam a = (case inet_ntop fam a of None \<Rightarrow> [] | Some s \<Rightarrow> s)"

definition ntohs :: "16 word \<Rightarrow> 16 word" where
  "ntohs p = push_bit 8 p OR drop_bit 8 p"

definition port_from_dword :: "32 word \<Rightarrow> 16 word" where
  "port_from_dword p = ntohs (ucast (p AND 0xFFFF))"

section \<open>Processes\<close>

text \<open>The snapshot's entries, or the failing call with its error; \<open>img\<close> is the path of a process that could be opened.\<close>

record process_entry =
  th_pid :: "32 word"
  th_ppid :: "32 word"
  th_exe :: string

definition process_image_path :: "(32 word \<Rightarrow> string option) \<Rightarrow> 32 word \<Rightarrow> string" where
  "process_image_path img p = (case img p of None \<Rightarrow> [] | Some s \<Rightarrow> s)"

definition entry_process :: "(32 word \<Rightarrow> string option) \<Rightarrow> process_entry \<Rightarrow> process_info" where
  "entry_process img e = \<lparr>pid = ucast (th_pid e), ppid = ucast (th_ppid e), proc_name = th_exe e,
     exe_path = process_image_path img (th_pid e), user = []\<rparr>"

definition take_process_snapshot ::
  "(32 word \<Rightarrow> string option) \<Rightarrow> (string \<times> nat) + process_entry list \<Rightarrow> string + process_info list \<times> (32 word \<times> string) list" where
  "take_process_snapshot img snap =
     (case snap of
        Inl (api, err) \<Rightarrow> Inl (last_error_string api err)
      | Inr es \<Rightarrow> Inr (map (entry_process img) es, map (\<lambda>e. (th_pid e, th_exe e)) es))"

section \<open>Installed software\<close>

text \<open>
  One view of the uninstall keys: the code of opening it, its subkeys where they could be opened,
  and the code that ended the enumeration.
\<close>

record uninstall_view =
  uv_label :: string
  uv_open :: nat
  uv_subkeys :: "registry_key option list"
  uv_end :: nat

definition uninstall_package :: "string \<Rightarrow> registry_key \<Rightarrow> package list" where
  "uninstall_package lab k =
     (case rk_string k ''DisplayName'' of
        None \<Rightarrow> []
      | Some nm \<Rightarrow>
          if nm = [] \<or> rk_dword k ''SystemComponent'' = Some 1 then []
          else [\<lparr>pkg_name = nm,
                 pkg_version = (case rk_string k ''DisplayVersion'' of None \<Rightarrow> [] | Some v \<Rightarrow> v),
                 pkg_vendor = (case rk_string k ''Publisher'' of None \<Rightarrow> [] | Some v \<Rightarrow> v), pkg_source = lab\<rparr>])"

definition scan_uninstall_view :: "uninstall_view \<Rightarrow> package list \<times> status \<Rightarrow> package list \<times> status" where
  "scan_uninstall_view v rst =
     (case rst of (ps, st) \<Rightarrow>
        if uv_open v \<noteq> 0 then
          (ps, if uv_open v = 2 then st
               else warn (''could not open the '' @ uv_label v @ '' uninstall key, status '' @ show_nat (uv_open v)) st)
        else
          (ps @ concat (map (\<lambda>k. case k of None \<Rightarrow> [] | Some e \<Rightarrow> uninstall_package (uv_label v) e) (uv_subkeys v)),
           if uv_end v = 259 then st
           else warn (''RegEnumKeyExW stopped early in '' @ uv_label v @ '', status '' @ show_nat (uv_end v)) st))"

section \<open>Collectors\<close>

subsection \<open>Host\<close>

definition win_strtol :: "string \<Rightarrow> int" where
  "win_strtol s = max (- (2 ^ 31)) (min (2 ^ 31 - 1) (strtoll s))"

text \<open>The product name on Windows 11 still says 10.\<close>

definition correct_name :: "string \<Rightarrow> string \<Rightarrow> string" where
  "correct_name build nm =
     (if 22000 \<le> win_strtol build \<and> starts_with ''Windows 10'' nm then ''Windows 11'' @ drop 10 nm else nm)"

definition win_host :: "nat + string \<Rightarrow> registry_key \<Rightarrow> nat \<Rightarrow> host_info \<times> status" where
  "win_host computer cv a =
     (let (hn, st) = (case computer of Inr h \<Rightarrow> (h, good_status)
                      | Inl err \<Rightarrow> ([], warn (last_error_string ''GetComputerNameExW'' err) good_status));
          (nm, st) = (case rk_string cv ''ProductName'' of Some n \<Rightarrow> (n, st)
                      | None \<Rightarrow> ([], warn ''could not read ProductName from the registry'' st));
          ver = (case rk_string cv ''DisplayVersion'' of Some v \<Rightarrow> v
                 | None \<Rightarrow> (case rk_string cv ''ReleaseId'' of Some v \<Rightarrow> v | None \<Rightarrow> []));
          (krn, nm, st) = (case rk_string cv ''CurrentBuildNumber'' of
                             Some b \<Rightarrow> (''10.0.'' @ b, correct_name b nm, st)
                           | None \<Rightarrow> ([], nm, warn ''could not read CurrentBuildNumber from the registry'' st));
          ar = native_arch a;
          st = (if ar = [] then warn ''unrecognised processor architecture'' st else st)
      in (\<lparr>hostname = hn, os_name = nm, os_version = ver, kernel = krn, arch = ar\<rparr>, st))"

subsection \<open>Interfaces\<close>

record adapter =
  ad_name :: string
  ad_up :: bool
  ad_type :: nat
  ad_mac :: "8 word list"
  ad_unicast :: "((family \<times> 8 word list) option \<times> 8 word) list"

text \<open>At most four calls, until the buffer is large enough.\<close>

fun adapters_code :: "nat \<Rightarrow> (nat \<Rightarrow> nat) \<Rightarrow> nat \<Rightarrow> nat \<Rightarrow> nat" where
  "adapters_code 0 rc i prev = prev"
| "adapters_code (Suc n) rc i prev = (if rc i \<noteq> 111 then rc i else adapters_code n rc (Suc i) (rc i))"

definition unicast_text :: "ntop \<Rightarrow> (family \<times> 8 word list) option \<times> 8 word \<Rightarrow> string list" where
  "unicast_text inet_ntop u =
     (case u of (a, pfx) \<Rightarrow>
        let s = (case a of None \<Rightarrow> [] | Some (fam, b) \<Rightarrow> ntop_text inet_ntop fam b)
        in if s = [] then [] else [s @ ''/'' @ show_nat (unat pfx)])"

definition adapter_interface :: "ntop \<Rightarrow> adapter \<Rightarrow> net_interface" where
  "adapter_interface inet_ntop a =
     \<lparr>if_name = ad_name a, mac = (if length (ad_mac a) = 6 then mac_text (ad_mac a) else []),
      addresses = concat (map (unicast_text inet_ntop) (ad_unicast a)), up = ad_up a, loopback = (ad_type a = 24)\<rparr>"

definition win_interfaces :: "ntop \<Rightarrow> (nat \<Rightarrow> nat) \<Rightarrow> adapter list \<Rightarrow> net_interface list \<times> status" where
  "win_interfaces inet_ntop rc ads =
     (let c = adapters_code 4 rc 0 0
      in if c \<noteq> 0 then ([], warn (''GetAdaptersAddresses failed, status '' @ show_nat c) good_status)
         else (map (adapter_interface inet_ntop) ads, good_status))"

subsection \<open>Sockets\<close>

record socket_row =
  sw_addr :: "8 word list"
  sw_port :: "32 word"
  sw_owner :: "32 word"

text \<open>A table: the codes of asking for its size and of reading it, and its rows.\<close>

record socket_table =
  tb_size_code :: nat
  tb_read_code :: nat
  tb_rows :: "socket_row list"

definition fetch_table :: "socket_table \<Rightarrow> socket_row list option" where
  "fetch_table t = (if tb_size_code t \<noteq> 122 then None else if tb_read_code t = 0 then Some (tb_rows t) else None)"

definition row_socket :: "ntop \<Rightarrow> (32 word \<times> string) list \<Rightarrow> string \<Rightarrow> family \<Rightarrow> socket_row \<Rightarrow> listening_socket" where
  "row_socket inet_ntop names pr fam r =
     (let a = ntop_text inet_ntop fam (sw_addr r)
      in \<lparr>proto = pr, local_addr = a, local_port = port_from_dword (sw_port r), sock_pid = ucast (sw_owner r),
          process_name = (case map_of names (sw_owner r) of None \<Rightarrow> [] | Some n \<Rightarrow> n), world_reachable = is_wildcard a\<rparr>)"

definition table_kinds :: "(string \<times> family \<times> string) list" where
  "table_kinds = [(''tcp'', Inet, ''GetExtendedTcpTable(AF_INET)''), (''tcp6'', Inet6, ''GetExtendedTcpTable(AF_INET6)''),
     (''udp'', Inet, ''GetExtendedUdpTable(AF_INET)''), (''udp6'', Inet6, ''GetExtendedUdpTable(AF_INET6)'')]"

definition add_table ::
  "ntop \<Rightarrow> (32 word \<times> string) list \<Rightarrow> (string \<Rightarrow> socket_table) \<Rightarrow> string \<times> family \<times> string \<Rightarrow>
     listening_socket list \<times> status \<Rightarrow> listening_socket list \<times> status" where
  "add_table inet_ntop names tbls tk rst =
     (case tk of (pr, fam, api) \<Rightarrow>
        case fetch_table (tbls pr) of
          None \<Rightarrow> (fst rst, warn (api @ '' failed'') (snd rst))
        | Some rows \<Rightarrow> (fst rst @ map (row_socket inet_ntop names pr fam) rows, snd rst))"

definition win_listening_sockets ::
  "ntop \<Rightarrow> (32 word \<Rightarrow> string option) \<Rightarrow> (string \<times> nat) + process_entry list \<Rightarrow> (string \<Rightarrow> socket_table) \<Rightarrow>
     ((listening_socket \<Rightarrow> listening_socket \<Rightarrow> bool) \<Rightarrow> listening_socket list \<Rightarrow> listening_socket list) \<Rightarrow>
     listening_socket list \<times> status" where
  "win_listening_sockets inet_ntop img snap tbls sort_by =
     (let (names, st) = (case take_process_snapshot img snap of
            Inl err \<Rightarrow> ([], warn (''process names unavailable ('' @ err @ ''); pids reported unresolved'') good_status)
          | Inr (_, ns) \<Rightarrow> (ns, good_status));
          (ss, st) = fold (add_table inet_ntop names tbls) table_kinds ([], st)
      in (sort_by socket_before ss, st))"

subsection \<open>Processes and packages\<close>

definition win_processes :: "(32 word \<Rightarrow> string option) \<Rightarrow> (string \<times> nat) + process_entry list \<Rightarrow> process_info list \<times> status" where
  "win_processes img snap =
     (case take_process_snapshot img snap of
        Inl err \<Rightarrow> ([], warn err good_status)
      | Inr (ps, _) \<Rightarrow>
          let unresolved = length (filter (\<lambda>p. exe_path p = []) ps)
          in (ps, if 0 < unresolved
                  then warn (show_nat unresolved @ '' of '' @ show_nat (length ps) @
                    '' processes had no readable image path (run elevated for full coverage)'') good_status
                  else good_status))"

definition package_before :: "package \<Rightarrow> package \<Rightarrow> bool" where
  "package_before a b \<longleftrightarrow>
     (if pkg_name a \<noteq> pkg_name b then map byte (pkg_name a) < map byte (pkg_name b)
      else map byte (pkg_version a) < map byte (pkg_version b))"

text \<open>\<^verbatim>\<open>std::unique\<close>: of neighbours that are equal only the first stays.\<close>

fun unique_by :: "('a \<Rightarrow> 'a \<Rightarrow> bool) \<Rightarrow> 'a list \<Rightarrow> 'a list" where
  "unique_by eq [] = []"
| "unique_by eq [x] = [x]"
| "unique_by eq (x # y # ys) = (if eq x y then unique_by eq (x # ys) else x # unique_by eq (y # ys))"

definition win_packages ::
  "uninstall_view list \<Rightarrow> ((package \<Rightarrow> package \<Rightarrow> bool) \<Rightarrow> package list \<Rightarrow> package list) \<Rightarrow> package list \<times> status" where
  "win_packages views sort_by =
     (let (ps, st) = fold scan_uninstall_view views ([], good_status);
          ps = unique_by (\<lambda>a b. pkg_name a = pkg_name b \<and> pkg_version a = pkg_version b) (sort_by package_before ps)
      in (ps, if ps = [] then warn ''no installed software found in any registry view'' st else st))"

section \<open>The backend\<close>

record windows =
  wn_computer :: "nat + string"
  wn_current_version :: registry_key
  wn_arch :: nat
  wn_ntop :: ntop
  wn_adapters_code :: "nat \<Rightarrow> nat"
  wn_adapters :: "adapter list"
  wn_image :: "32 word \<Rightarrow> string option"
  wn_snapshot :: "(string \<times> nat) + process_entry list"
  wn_tables :: "string \<Rightarrow> socket_table"
  wn_hklm64 :: "nat \<times> registry_key option list \<times> nat"
  wn_hklm32 :: "nat \<times> registry_key option list \<times> nat"
  wn_hkcu :: "nat \<times> registry_key option list \<times> nat"
  wn_sort_sockets :: "(listening_socket \<Rightarrow> listening_socket \<Rightarrow> bool) \<Rightarrow> listening_socket list \<Rightarrow> listening_socket list"
  wn_sort_packages :: "(package \<Rightarrow> package \<Rightarrow> bool) \<Rightarrow> package list \<Rightarrow> package list"
  wn_unix_ms :: "64 word"
  wn_elapsed_ms :: "64 word"

definition uninstall_views :: "windows \<Rightarrow> uninstall_view list" where
  "uninstall_views k =
     map (\<lambda>(lab, rc, subs, e). \<lparr>uv_label = lab, uv_open = rc, uv_subkeys = subs, uv_end = e\<rparr>)
       [(''windows-registry'', wn_hklm64 k), (''windows-registry-wow64'', wn_hklm32 k), (''windows-registry-hkcu'', wn_hkcu k)]"

definition windows_platform :: "windows \<Rightarrow> platform" where
  "windows_platform k =
     \<lparr>platform_name = ''windows'',
      collect_host = win_host (wn_computer k) (wn_current_version k) (wn_arch k),
      collect_interfaces = win_interfaces (wn_ntop k) (wn_adapters_code k) (wn_adapters k),
      collect_listening_sockets = win_listening_sockets (wn_ntop k) (wn_image k) (wn_snapshot k) (wn_tables k) (wn_sort_sockets k),
      collect_processes = win_processes (wn_image k) (wn_snapshot k),
      collect_packages = win_packages (uninstall_views k) (wn_sort_packages k),
      clock_unix_ms = wn_unix_ms k, clock_elapsed_ms = wn_elapsed_ms k\<rparr>"

end
