(* ===== verification/Windows_Facts.thy ===== *)
theory Windows_Facts
  imports Platform_Windows
begin

unbundle bit_operations_syntax

text \<open>
  What the Windows collectors report: every visible program once, every row of the socket tables
  with its port in host order, and the product name of Windows 11.
\<close>

section \<open>Programs\<close>

definition view_packages :: "uninstall_view \<Rightarrow> package list" where
  "view_packages v =
     (if uv_open v \<noteq> 0 then []
      else concat (map (\<lambda>k. case k of None \<Rightarrow> [] | Some e \<Rightarrow> uninstall_package (uv_label v) e) (uv_subkeys v)))"

lemma scan_views: "fst (fold scan_uninstall_view vs (ps, st)) = ps @ concat (map view_packages vs)"
  by (induction vs arbitrary: ps st) (simp_all add: scan_uninstall_view_def view_packages_def)

text \<open>A program is told from another by name and version, ordered by their bytes.\<close>

definition program :: "package \<Rightarrow> nat list \<times> nat list" where
  "program p = (map byte (pkg_name p), map byte (pkg_version p))"

lemma map_byte_eq [simp]: "map byte s = map byte t \<longleftrightarrow> s = t"
  by (rule inj_map_eq_map) (simp add: inj_def)

lemma program_eq: "program a = program b \<longleftrightarrow> pkg_name a = pkg_name b \<and> pkg_version a = pkg_version b"
  by (simp add: program_def)

lemma package_before_program: "package_before a b \<longleftrightarrow> program a < program b"
  by (auto simp: package_before_def program_def less_prod_def' order_less_le)

lemma image_eq_coarser:
  assumes "f ` A = f ` B" and same: "\<And>a b. f a = f b \<Longrightarrow> g a = g b"
  shows "g ` A = g ` B"
proof -
  have "g ` C \<subseteq> g ` D" if "f ` C \<subseteq> f ` D" for C D
  proof
    fix y assume "y \<in> g ` C"
    then obtain c where c: "c \<in> C" "y = g c" by blast
    with that obtain d where "d \<in> D" "f c = f d" by blast
    then show "y \<in> g ` D" using same [of c d] c(2) by blast
  qed
  with assms(1) show ?thesis by blast
qed

lemma unique_by_sorted:
  fixes f :: "'a \<Rightarrow> 'b::linorder"
  assumes "sorted (map f xs)"
  shows "sorted_wrt (<) (map f (unique_by (\<lambda>a b. f a = f b) xs)) \<and>
    f ` set (unique_by (\<lambda>a b. f a = f b) xs) = f ` set xs \<and> set (unique_by (\<lambda>a b. f a = f b) xs) \<subseteq> set xs"
  using assms
proof (induction "\<lambda>a b. f a = f b" xs rule: unique_by.induct)
  case (3 x y ys)
  show ?case
  proof (cases "f x = f y")
    case True
    then show ?thesis using 3 by auto
  next
    case False
    let ?u = "unique_by (\<lambda>a b. f a = f b) (y # ys)"
    have u: "sorted_wrt (<) (map f ?u)" "f ` set ?u = f ` set (y # ys)" "set ?u \<subseteq> set (y # ys)"
      using 3(2) [OF False] 3(3) by auto
    have "f x < f z" if "z \<in> set (y # ys)" for z
    proof -
      have "f y \<le> f z" "f x \<le> f y" using that 3(3) by auto
      with False show ?thesis by simp
    qed
    with False u show ?thesis by auto
  qed
qed simp_all

section \<open>Sockets\<close>

text \<open>The port as the table holds it: in network order in the low half, the rest undefined.\<close>

lemma port_from_dword_network: "port_from_dword (push_bit 16 h OR ucast (ntohs p)) = p"
proof (rule bit_word_eqI)
  fix n assume "n < LENGTH(16)"
  then have "n < 16" by simp
  have m: "(0xFFFF :: 32 word) = mask 16" by (simp add: mask_eq_exp_minus_1)
  have "\<not> bit p (16 + n)" using bit_imp_le_length [of p "16 + n"] by auto
  with \<open>n < 16\<close> show "bit (port_from_dword (push_bit 16 h OR ucast (ntohs p))) n = bit p n"
    by (cases "n < 8") (auto simp: port_from_dword_def ntohs_def m bit_simps)
qed

lemma add_tables:
  "fst (fold (add_table nt names tbls) ks (ss, st)) =
     ss @ concat (map (\<lambda>(pr, fam, api). case fetch_table (tbls pr) of None \<Rightarrow> [] | Some rows \<Rightarrow> map (row_socket nt names pr fam) rows) ks)"
  by (induction ks arbitrary: ss st) (auto simp: add_table_def split: option.split)

text \<open>Every row of every table that could be read is reported, as a permutation.\<close>

lemma win_sockets_reported:
  assumes "\<And>P xs. mset (sort_by P xs) = mset xs"
  shows "\<exists>names. mset (fst (win_listening_sockets nt img snap tbls sort_by)) =
    mset (concat (map (\<lambda>(pr, fam, api). case fetch_table (tbls pr) of None \<Rightarrow> [] | Some rows \<Rightarrow> map (row_socket nt names pr fam) rows)
      table_kinds))"
  using assms add_tables [of nt _ tbls table_kinds "[]"]
  by (auto simp: win_listening_sockets_def split_beta Let_def)

section \<open>The host\<close>

lemma correct_name_eleven:
  "22000 \<le> win_strtol b \<Longrightarrow> correct_name b (''Windows 10'' @ edition) = ''Windows 11'' @ edition"
  "win_strtol b < 22000 \<Longrightarrow> correct_name b nm = nm"
  by (simp_all add: correct_name_def starts_with_def)

section \<open>The property\<close>

text \<open>
  C30: The Windows inventory has every visible program once. Visible are the entries, in any of the
  three registry views that can be opened, that have a display name and are not marked as system
  components. Each of their pairs of name and version is in the report, with an entry of its own,
  in the order of names and then versions; whatever \<^verbatim>\<open>std::sort\<close> does with equal ones.
\<close>

theorem win_packages_once:
  assumes "\<And>xs. mset (sort_by package_before xs) = mset xs"
    and "\<And>xs. sorted_wrt (\<lambda>a b. \<not> package_before b a) (sort_by package_before xs)"
    and "win_packages (uninstall_views k) sort_by = (ps, st)"
  shows "sorted_wrt package_before ps \<and> distinct (map (\<lambda>p. (pkg_name p, pkg_version p)) ps) \<and>
    (\<lambda>p. (pkg_name p, pkg_version p)) ` set ps =
      (\<lambda>p. (pkg_name p, pkg_version p)) ` set (concat (map view_packages (uninstall_views k))) \<and>
    set ps \<subseteq> set (concat (map view_packages (uninstall_views k)))"
proof -
  let ?all = "concat (map view_packages (uninstall_views k))" and ?nv = "\<lambda>p. (pkg_name p, pkg_version p)"
  let ?s = "sort_by package_before ?all"
  have set_s: "set ?s = set ?all" using assms(1) mset_eq_setD by blast
  have eq: "(\<lambda>a b. pkg_name a = pkg_name b \<and> pkg_version a = pkg_version b) = (\<lambda>a b. program a = program b)"
    by (simp add: fun_eq_iff program_eq)
  have ps: "ps = unique_by (\<lambda>a b. program a = program b) ?s"
    using assms(3) scan_views [of "uninstall_views k" "[]" good_status] by (simp add: win_packages_def split_beta Let_def eq)
  have "sorted (map program ?s)" using assms(2) [of ?all] by (simp add: sorted_wrt_map package_before_program not_less)
  note u = unique_by_sorted [OF this, folded ps]
  have "sorted_wrt package_before ps" using u by (simp add: sorted_wrt_map package_before_program [abs_def])
  moreover have "distinct (map ?nv ps)"
  proof -
    have "distinct (map program ps)" using u strict_sorted_iff by blast
    then show ?thesis by (simp add: distinct_map inj_on_def program_eq)
  qed
  moreover have "?nv ` set ps = ?nv ` set ?all"
  proof -
    have "program ` set ps = program ` set ?all" using u set_s by simp
    then show ?thesis by (rule image_eq_coarser) (simp add: program_eq)
  qed
  ultimately show ?thesis using u set_s by blast
qed

definition demo_key :: registry_key where
  "demo_key = \<lparr>rk_string = (\<lambda>v. if v = ''DisplayName'' then Some ''7-Zip'' else if v = ''DisplayVersion'' then Some ''23.01'' else None),
     rk_dword = (\<lambda>_. None)\<rparr>"

definition demo_windows :: windows where
  "demo_windows = \<lparr>wn_computer = Inl 5, wn_current_version = demo_key, wn_arch = 9, wn_ntop = (\<lambda>_ _. None), wn_adapters_code = (\<lambda>_. 0),
     wn_adapters = [], wn_image = (\<lambda>_. None), wn_snapshot = Inr [], wn_tables = (\<lambda>_. \<lparr>tb_size_code = 0, tb_read_code = 0, tb_rows = []\<rparr>),
     wn_hklm64 = (0, [Some demo_key, None], 259), wn_hklm32 = (0, [Some demo_key], 259), wn_hkcu = (2, [], 0),
     wn_sort_sockets = (\<lambda>_ xs. xs), wn_sort_packages = (\<lambda>_. sort_key program), wn_unix_ms = 0, wn_elapsed_ms = 0\<rparr>"

theorem win_packages_once_witness:
  "distinct (map (\<lambda>p. (pkg_name p, pkg_version p)) (fst (win_packages (uninstall_views demo_windows) (wn_sort_packages demo_windows)))) \<and>
   (\<lambda>p. (pkg_name p, pkg_version p)) ` set (fst (win_packages (uninstall_views demo_windows) (wn_sort_packages demo_windows))) =
     {(''7-Zip'', ''23.01'')}"
proof -
  have s: "mset (sort_key program xs) = mset xs" "sorted_wrt (\<lambda>a b. \<not> package_before b a) (sort_key program xs)" for xs
    using sorted_sort_key [of program xs] by (simp_all add: sorted_wrt_map package_before_program not_less)
  have v: "(\<lambda>p. (pkg_name p, pkg_version p)) ` set (concat (map view_packages (uninstall_views demo_windows))) = {(''7-Zip'', ''23.01'')}"
    by (simp add: view_packages_def uninstall_views_def demo_windows_def uninstall_package_def demo_key_def)
  show ?thesis
    using win_packages_once [where sort_by = "\<lambda>_. sort_key program" and k = demo_windows, OF s prod.collapse [symmetric]]
    unfolding v by (simp add: demo_windows_def)
qed

end
