(* ===== verification/Diagnostics.thy ===== *)
theory Diagnostics
  imports Agent_Reply
begin

unbundle bit_operations_syntax

text \<open>
  Crash dumps (\<^verbatim>\<open>src/src/crashdump_windows.cpp\<close>), the process's view of itself
  (\<^verbatim>\<open>src/src/procinfo_windows.cpp\<close>), and what stands for both, the control pipe and the database in a Linux
  build (\<^verbatim>\<open>src/src/windows_only_stubs.cpp\<close>). The system's answers are arguments.
\<close>

section \<open>Crash dumps\<close>

record crashdump =
  g_dir :: string
  g_installed :: bool
  g_written :: "32 word"
  g_crashing :: bool

definition fresh_crashdump :: crashdump where
  "fresh_crashdump = \<lparr>g_dir = [], g_installed = False, g_written = 0, g_crashing = False\<rparr>"

text \<open>Milliseconds since 1970 from a file time, in 64 bits.\<close>

definition filetime_unix_ms :: "64 word \<Rightarrow> 64 word" where
  "filetime_unix_ms ft = ft div 10000 - 11644473600000"

definition dump_path :: "string \<Rightarrow> nat \<Rightarrow> 64 word \<Rightarrow> string \<Rightarrow> string" where
  "dump_path dir p ft reason =
     dir @ [BS] @ ''nano-sensor-'' @ show_nat p @ ''-'' @ show_nat (unat (filetime_unix_ms ft)) @ ''-'' @ reason @ ''.dmp''"

text \<open>The process and the time, and the errors of creating the file and of writing the dump.\<close>

record dump_env =
  de_pid :: nat
  de_filetime :: "64 word"
  de_create :: "nat option"
  de_write :: "nat option"

definition write_dump :: "dump_env \<Rightarrow> string \<Rightarrow> crashdump \<Rightarrow> string \<times> nat option \<times> crashdump" where
  "write_dump e reason c =
     (let p = dump_path (g_dir c) (de_pid e) (de_filetime e) reason in
      case de_create e of
        Some err \<Rightarrow> (p, Some err, c)
      | None \<Rightarrow>
          (case de_write e of
             Some err \<Rightarrow> (p, Some err, c)
           | None \<Rightarrow> (p, None, c\<lparr>g_written := g_written c + 1\<rparr>)))"

definition announce :: "string \<Rightarrow> string \<Rightarrow> bool \<Rightarrow> string" where
  "announce what p good =
     [CHR ''{'', DQ] @ ''level'' @ [DQ, CHR '':'', DQ] @ ''error'' @ [DQ, CHR '','', DQ] @ ''msg'' @ [DQ, CHR '':'', DQ] @ what @
     [DQ, CHR '','', DQ] @ ''dump'' @ [DQ, CHR '':'', DQ] @ (if good then p else []) @
     [DQ, CHR '','', DQ] @ ''written'' @ [DQ, CHR '':''] @ (if good then ''true'' else ''false'') @ ''}'' @ [NL]"

text \<open>A second thread that crashes sleeps for ever; otherwise the line written to standard error.\<close>

definition crash_with :: "dump_env \<Rightarrow> string \<Rightarrow> string \<Rightarrow> crashdump \<Rightarrow> string option \<times> crashdump" where
  "crash_with e what reason c =
     (if g_crashing c then (None, c)
      else let (p, err, c') = write_dump e reason (c\<lparr>g_crashing := True\<rparr>) in (Some (announce what p (err = None)), c'))"

definition unhandled_filter :: "dump_env \<Rightarrow> crashdump \<Rightarrow> string option \<times> crashdump" where
  "unhandled_filter e c = crash_with e ''unhandled exception; process terminating'' ''crash'' c"

definition raise_and_dump :: "dump_env \<Rightarrow> string \<Rightarrow> crashdump \<Rightarrow> string option \<times> crashdump" where
  "raise_and_dump e reason c = crash_with e ''fatal runtime error; process terminating'' reason c"

text \<open>Installing fails when the directory does not fit the buffer of 260 units, the terminator included.\<close>

definition crash_install :: "(string \<Rightarrow> nat) \<Rightarrow> string \<Rightarrow> crashdump \<Rightarrow> bool \<times> crashdump" where
  "crash_install units dir c =
     (if 260 < units dir + 1 then (False, c) else (True, c\<lparr>g_dir := dir, g_installed := True\<rparr>))"

definition write_now :: "dump_env \<Rightarrow> string \<Rightarrow> crashdump \<Rightarrow> (string + string) \<times> crashdump" where
  "write_now e reason c =
     (if \<not> g_installed c then (Inl ''crash dumps are not enabled (no --state-dir)'', c)
      else case write_dump e reason c of
        (p, Some err, c') \<Rightarrow> (Inl (''MiniDumpWriteDump failed, error '' @ show_nat err), c')
      | (p, None, c') \<Rightarrow> (Inr p, c'))"

section \<open>The process\<close>

text \<open>Each answer of the system, where it gave one; the attributes of the privileges and the owners of all threads.\<close>

record process_env =
  pv_pid :: nat
  pv_token :: bool
  pv_account :: "(string \<times> string) option"
  pv_elevated :: "bool option"
  pv_privileges :: "32 word list option"
  pv_memory :: "(nat \<times> nat \<times> nat) option"
  pv_handles :: "nat option"
  pv_threads :: "nat list option"

definition thread_count :: "process_env \<Rightarrow> nat" where
  "thread_count e = (case pv_threads e of None \<Rightarrow> 0 | Some owners \<Rightarrow> length (filter (\<lambda>o'. o' = pv_pid e) owners))"

definition self_info :: "process_env \<Rightarrow> proc_info" where
  "self_info e =
     (let mem = (case pv_memory e of None \<Rightarrow> (0, 0, 0) | Some m \<Rightarrow> m) in
      \<lparr>pi_pid = pv_pid e,
       pi_user = (if pv_token e then (case pv_account e of None \<Rightarrow> [] | Some (d, n) \<Rightarrow> d @ [BS] @ n) else []),
       elevated = (pv_token e \<and> pv_elevated e = Some True),
       privileges_enabled = (if pv_token e then (case pv_privileges e of None \<Rightarrow> 0
          | Some ps \<Rightarrow> length (filter (\<lambda>a. a AND 0x2 \<noteq> 0) ps)) else 0),
       private_bytes = fst mem, working_set = fst (snd mem), peak_working_set = snd (snd mem),
       handles = (case pv_handles e of None \<Rightarrow> 0 | Some h \<Rightarrow> h), threads = thread_count e\<rparr>)"

section \<open>A Linux build\<close>

definition stub_database :: database where
  "stub_database = \<lparr>connect_result = Some ''SQL Server storage is Windows-only'',
     record_result = (\<lambda>_ _ sid. (Some ''not connected'', sid)),
     host_result = (\<lambda>_ _ _. Inl ''not connected''), affected_result = (\<lambda>_. Inl ''not connected'')\<rparr>"

definition stub_server_start :: "string option" where
  "stub_server_start = Some ''the control pipe is Windows-only''"

definition stub_call :: "string + string" where
  "stub_call = Inl ''the control pipe is Windows-only''"

definition stub_write_now :: "string + string" where
  "stub_write_now = Inl ''minidumps are Windows-only; use core dumps on Linux''"

definition stub_self_info :: "nat \<Rightarrow> proc_info" where
  "stub_self_info p = \<lparr>pi_pid = p, pi_user = [], elevated = False, privileges_enabled = 0, private_bytes = 0,
     working_set = 0, peak_working_set = 0, handles = 0, threads = 0\<rparr>"

section \<open>Facts\<close>

text \<open>Only the first crash of a process writes a dump, and it is counted exactly when it was written.\<close>

lemma one_crash_dump:
  assumes "crash_with e what reason c = (Some line, c')"
  shows "\<not> g_crashing c" "g_crashing c'" "crash_with e' what' reason' c' = (None, c')"
    "g_written c' = (if de_create e = None \<and> de_write e = None then g_written c + 1 else g_written c)"
  using assms by (auto simp: crash_with_def write_dump_def Let_def split: if_splits option.splits)

text \<open>The line a crash leaves in the log is not JSON: its path is not escaped.\<close>

lemma crash_line_not_json:
  "json_parse (announce ''x'' (''C:'' @ [BS] @ ''dumps'' @ rst) True) = None"
  by (simp add: json_parse_def announce_def accept_def skip_ws_def is_ws_def simple_escape_def)

text \<open>On Linux the agent starts whenever its two files load, without a control channel and never connected.\<close>

lemma linux_agent_starts:
  "agent_start u cf files stub_database now False stub_server_start ix ag = Some (ix', ag') \<Longrightarrow>
     db_connection cf \<noteq> [] \<Longrightarrow> \<not> connected ag' \<and> started_unix_ms ag' = now"
  "load_rules (files (ac_index_path cf)) ix = (Inr n, ix1) \<Longrightarrow> load_aliases u (files (ac_alias_path cf)) ix1 = (Inr m, ix2) \<Longrightarrow>
     agent_start u cf files stub_database now False stub_server_start ix ag \<noteq> None"
  by (auto simp: agent_start_def stub_database_def stub_server_start_def Let_def split: sum.splits prod.splits)

lemma linux_scan_reports_database:
  assumes "db_connection cf \<noteq> []" and "\<not> connected ag"
  shows "db_error (snd (write_db cf stub_database iv fs ag r)) = ''SQL Server storage is Windows-only''"
  using assms by (simp add: write_db_def stub_database_def)

end
