(* ===== verification/Spec2Isabelle.thy ===== *)
theory Spec2Isabelle
  imports Commands Batch Linux_Interfaces Linux_Processes Agent_Locks Service Ipc Winhttp Windows_Facts Diagnostics
begin

text \<open>
  A verification development of nano-sensor, a host inventory and vulnerability sensor in C++.

  \<^bold>\<open>The program.\<close> A platform backend collects an inventory of the host; a matcher compares its packages
  with an index of CVE rules; the agent runs scans, keeps the last result, records it in a SQL
  database and answers requests on a named pipe, which the client \<^verbatim>\<open>nsctl\<close> sends; the reporter puts
  every report into an on-disk spool and drains the spool in batches to a cloud endpoint over TLS
  with a pinned certificate, releasing records only after the endpoint acknowledged them. \<^verbatim>\<open>main.cpp\<close>
  joins them in its commands and in the service that the operating system runs.

  \<^bold>\<open>Foundations.\<close> \<^verbatim>\<open>NS_Prelude\<close> holds bytes, decimal texts, streams and the shared list lemmas, with the
  simp collections of the development. \<^verbatim>\<open>CDouble\<close> and \<^verbatim>\<open>CInt\<close> are what the sources use of binary64 numbers
  (\<^verbatim>\<open>strtod\<close>, comparison, one decimal) and of \<^verbatim>\<open>strtol\<close>, \<^verbatim>\<open>strtoll\<close>, \<^verbatim>\<open>strtoul\<close>, \<^verbatim>\<open>atoi\<close> at their widths. A model takes the
  world it runs in (file contents, answers of the system, of TLS, of the database driver, the clock,
  random draws, the order \<^verbatim>\<open>std::sort\<close> gives to equal elements) as an argument, so each theorem holds
  for every such world, failures included.

  \<^bold>\<open>The spool\<close> (\<^verbatim>\<open>src/src/spool.cpp\<close>). \<^verbatim>\<open>Frame_Codec\<close>: the CRC-32 table and its equality with the bitwise
  polynomial division, detection of bursts, frames and their refusals. \<^verbatim>\<open>Spool\<close>: the directory as an
  association list of files and every operation of class \<^verbatim>\<open>Spool\<close>. \<^verbatim>\<open>Spool_Queue\<close>: the abstraction \<^verbatim>\<open>queue\<close> to a list of
  payloads, the invariant \<^verbatim>\<open>spool_ok\<close>, and \<^verbatim>\<open>peek\<close>. \<^verbatim>\<open>Spool_Commit\<close>, \<^verbatim>\<open>Spool_Append\<close>: each operation against the queue, with
  eviction, rotation, torn writes, and the two cases in which records are stuck or lost.
  \<^verbatim>\<open>Spool_Recovery\<close>: reopening restores a session, a crash inside an append keeps the queue, and whole
  sessions keep the ledger of appended, committed, dropped and pending records.

  \<^bold>\<open>Reporting.\<close> \<^verbatim>\<open>Transport\<close> models \<^verbatim>\<open>transport.cpp\<close> (\<^verbatim>\<open>parse_url\<close>, \<^verbatim>\<open>backoff_delay_ms\<close>) and \<^verbatim>\<open>transport_openssl.cpp\<close>; \<^verbatim>\<open>Winhttp\<close> models
  \<^verbatim>\<open>transport_winhttp.cpp\<close> and \<^verbatim>\<open>transport_none.cpp\<close>. The locale \<open>pinned_transport\<close> states what the reporter relies on and
  is interpreted on both backends: a body goes only to a peer with the pinned certificate, and
  statuses are classified alike. \<^verbatim>\<open>Reporter\<close> models \<^verbatim>\<open>Reporter\<close> and its draining loop in \<^verbatim>\<open>main.cpp\<close>; \<^verbatim>\<open>Drain\<close> proves it
  over the locales \<open>outbox\<close> and \<open>live_outbox\<close>, interpreted on the spool: at-least-once delivery, termination,
  full delivery, and the livelock at a segment end. \<^verbatim>\<open>Batch\<close> shows that the far end can read every record.

  \<^bold>\<open>Inventory and matching.\<close> \<^verbatim>\<open>Json\<close> models \<^verbatim>\<open>JsonWriter\<close> and \<^verbatim>\<open>Json_Reader\<close> gives it a meaning: a reader, round trips, and the
  locale \<open>json_report\<close>, interpreted on the inventory, findings, log lines and agent replies. \<^verbatim>\<open>Inventory\<close>, \<^verbatim>\<open>Log\<close>
  model \<^verbatim>\<open>inventory.cpp\<close>, \<^verbatim>\<open>log.cpp\<close>. \<^verbatim>\<open>Vercmp\<close> models \<^verbatim>\<open>vercmp.cpp\<close>: antisymmetry, transitivity where it holds and a cycle where it
  does not. \<^verbatim>\<open>Cve\<close> models \<^verbatim>\<open>cve.cpp\<close> and \<^verbatim>\<open>Cve_Match\<close> proves what is loaded, resolved, matched and reported.
  \<^verbatim>\<open>Nvd_Index\<close> models the index builder \<^verbatim>\<open>tools/nvd_build_index.py\<close> and proves that its files load to its rules.
  \<^verbatim>\<open>Platform_Linux\<close> models \<^verbatim>\<open>platform_linux.cpp\<close>, with its lemmas in \<^verbatim>\<open>Linux_Sockets\<close>, \<^verbatim>\<open>Linux_Interfaces\<close>, \<^verbatim>\<open>Linux_Processes\<close>; \<^verbatim>\<open>Platform_Windows\<close>
  models \<^verbatim>\<open>platform_windows.cpp\<close>, with its lemmas in \<^verbatim>\<open>Windows_Facts\<close>.

  \<^bold>\<open>Agent and control.\<close> \<^verbatim>\<open>Agent\<close> models \<^verbatim>\<open>agent.cpp\<close> one request or scan at a time. \<^verbatim>\<open>Agent_Reply\<close>: every answer is a JSON
  object. \<^verbatim>\<open>Agent_Locks\<close>: the lock operations of the worker and of the requests as programs of any
  number of threads, a step relation over them, the locale \<open>lock_discipline\<close>, and freedom from
  deadlock without the planted fault. \<^verbatim>\<open>Db\<close> models \<^verbatim>\<open>db_odbc.cpp\<close> over the tables of \<^verbatim>\<open>tools/db/schema.sql\<close> as a transaction on a
  copy of the tables; \<^verbatim>\<open>Db_Facts\<close> proves it atomic and relates the query to what was recorded. \<^verbatim>\<open>Ipc\<close> models
  \<^verbatim>\<open>ipc_windows.cpp\<close>, the instances of the pipe as a step relation, and composes server, agent and \<^verbatim>\<open>nsctl\<close>.
  \<^verbatim>\<open>Diagnostics\<close> models \<^verbatim>\<open>crashdump_windows.cpp\<close>, \<^verbatim>\<open>procinfo_windows.cpp\<close> and \<^verbatim>\<open>windows_only_stubs.cpp\<close>.

  \<^bold>\<open>Commands.\<close> \<^verbatim>\<open>Cli\<close> models options, dispatch, the registered service command line and \<^verbatim>\<open>nsctl.cpp\<close>; \<^verbatim>\<open>Commands\<close> the commands
  that print reports; \<^verbatim>\<open>Service\<close> the command \<^verbatim>\<open>run\<close>, \<^verbatim>\<open>service_linux.cpp\<close> and \<^verbatim>\<open>service_windows.cpp\<close>, from a signal or control to the exit code.

  \<^bold>\<open>Bounds and fuel.\<close> Integers have the width of the source where it matters: sequence numbers,
  counters and delays 64 bits, CRC and ports 32 and 16, \<^verbatim>\<open>unsigned long\<close> 32 bits in \<^verbatim>\<open>nsctl\<close>, which exists on
  Windows only. Loops that depend on the world have fuel, None when it runs out. Draining returns
  with more than (records + 1) * max 1 max_attempts rounds, since each round releases a record or
  uses an attempt; this needs commits that release, and \<^verbatim>\<open>drain_livelock\<close> is the proof that they do not always.
  Waiting for a stop returns with more rounds than the round of the first stop. The pipe client
  needs more rounds than the server is busy and one per 16384 bytes of the response.
  The JSON reader's fuel is one more than the length of the text. All other recursions terminate outright.

  \<^bold>\<open>Not modelled.\<close> The planted use after free of \<^verbatim>\<open>agent.cpp\<close> is only a configuration value, as it is an
  access outside the language. The watchdog's thread and the service's threads are sequences of
  steps or lock programs, without time. Of the database client, connecting is an argument, and \<^verbatim>\<open>exec\<close>,
  \<^verbatim>\<open>scalar\<close> and \<^verbatim>\<open>column\<close> run fixed SQL for the benchmark \<^verbatim>\<open>dbbench.cpp\<close> only; conversions and collation of the
  server are arguments with their documented laws as hypotheses. Of the index builder the download,
  cache and command line are left out. Conversions between UTF-8 and UTF-16 and security descriptors
  belong to Windows. The test cloud, the evaluation and operator scripts and the tests drive the
  built program through sockets and processes, and have no behaviour of their own to prove.
\<close>

end
